(* ===== verification/Prelude.thy ===== *)
theory Prelude imports Main "HOL-Library.Word" "HOL-Library.List_Lexorder" "HOL-Library.Char_ord" "HOL-Library.Multiset" begin

text \<open>
  The vocabulary every component shares: type synonyms for the machine types of the Go
  program, the sequencing operator for results that can fail, the collections of simp
  rules the component proofs draw on, and the generic list and map lemmas.
  A Go \<^verbatim>\<open>string\<close> or \<^verbatim>\<open>[]byte\<close> is a \<^typ>\<open>string\<close>, a list of bytes. A Go value with an
  \<^verbatim>\<open>error\<close> beside it is a sum, \<^term>\<open>Inl\<close> for the error.
\<close>

section \<open>Types\<close>

type_synonym u64 = "64 word"
type_synonym bytes = string
type_synonym instant = int
type_synonym duration = int

named_theorems go_simps "evaluation rules of the Go library model"
named_theorems inv_simps "unfoldings of the component invariants"

section \<open>Results that can fail\<close>

definition rbind :: "'e + 'a \<Rightarrow> ('a \<Rightarrow> 'e + 'b) \<Rightarrow> 'e + 'b" where
  "rbind r f = (case r of Inl e \<Rightarrow> Inl e | Inr a \<Rightarrow> f a)"

definition guard_err :: "bool \<Rightarrow> 'e \<Rightarrow> 'e + unit" where
  "guard_err ok e = (if ok then Inr () else Inl e)"

lemma rbind_simps [simp]:
  "rbind (Inl e) f = Inl e"
  "rbind (Inr a) f = f a"
  by (simp_all add: rbind_def)

lemma rbind_Inr_iff: "rbind r f = Inr b \<longleftrightarrow> (\<exists>a. r = Inr a \<and> f a = Inr b)"
  by (cases r) auto

lemma rbind_Inl_iff: "rbind r f = Inl e \<longleftrightarrow> r = Inl e \<or> (\<exists>a. r = Inr a \<and> f a = Inl e)"
  by (cases r) auto

lemma guard_err_Inr [simp]: "guard_err ok e = Inr u \<longleftrightarrow> ok"
  by (simp add: guard_err_def)

lemma guard_err_Inl [simp]: "guard_err ok e = Inl e' \<longleftrightarrow> \<not> ok \<and> e' = e"
  by (auto simp: guard_err_def)

lemma guard_err_True [simp]: "guard_err True e = Inr ()"
  by (simp add: guard_err_def)

lemma guard_err_False [simp]: "guard_err False e = Inl e"
  by (simp add: guard_err_def)

section \<open>Lists\<close>

text \<open>First occurrences: what a loop with a \<^verbatim>\<open>seen\<close> set keeps.\<close>

fun dedup :: "'a list \<Rightarrow> 'a list \<Rightarrow> 'a list" where
  "dedup seen [] = []"
| "dedup seen (x # xs) = (if x \<in> set seen then dedup seen xs else x # dedup (x # seen) xs)"

lemma set_dedup: "set (dedup seen xs) = set xs - set seen"
  by (induction seen xs rule: dedup.induct) auto

lemma distinct_dedup: "distinct (dedup seen xs)"
  by (induction seen xs rule: dedup.induct) (auto simp: set_dedup)

lemma dedup_distinct_id: "distinct xs \<Longrightarrow> set xs \<inter> set seen = {} \<Longrightarrow> dedup seen xs = xs"
  by (induction seen xs rule: dedup.induct) auto

lemma dedup_idem [simp]: "dedup [] (dedup [] xs) = dedup [] xs"
  by (simp add: dedup_distinct_id distinct_dedup)

lemma dedup_Nil_iff: "dedup [] xs = [] \<longleftrightarrow> xs = []"
  using set_dedup [of "[]" xs] by (cases xs) auto

lemma length_dedup_le: "length (dedup seen xs) \<le> length xs"
  by (induction seen xs rule: dedup.induct) (auto intro: le_SucI)

text \<open>Two sorted lists with the same elements and no ties are the same list.\<close>

lemma sorted_key_unique:
  assumes "sorted (map f xs)" "sorted (map f ys)" "distinct (map f xs)" "mset xs = mset ys"
  shows "xs = ys"
  using assms
proof (induction xs arbitrary: ys)
  case Nil
  then show ?case by simp
next
  case (Cons x xs)
  from Cons.prems(4) obtain y ys' where ys: "ys = y # ys'"
    by (cases ys) auto
  have set_eq: "set (x # xs) = set ys"
    using Cons.prems(4) by (metis set_mset_mset)
  have inj: "inj_on f (set (x # xs))"
    using Cons.prems(3) distinct_map by blast
  have "f x \<le> f y" using Cons.prems(1) set_eq ys by fastforce
  moreover have "f y \<le> f x" using Cons.prems(2) set_eq ys by fastforce
  ultimately have "f x = f y" by simp
  then have "x = y" using inj set_eq ys by (auto simp: inj_on_def)
  with Cons ys show ?case by auto
qed

end
