(* ===== verification/Go_Strings.thy ===== *)
theory Go_Strings imports Go_Unicode begin

text \<open>
  The functions of the Go packages \<^verbatim>\<open>strings\<close>, \<^verbatim>\<open>bytes\<close>, \<^verbatim>\<open>strconv\<close> and \<^verbatim>\<open>fmt\<close> the program
  calls, on byte strings. Comparison of strings with \<open><\<close> is bytewise, as in Go
  (the instances of \<^verbatim>\<open>List_Lexorder\<close> and \<^verbatim>\<open>Char_ord\<close>).
\<close>

section \<open>TrimSpace\<close>

text \<open>
  \<^verbatim>\<open>unicode.IsSpace\<close> on bytes: six ASCII characters, and the encodings of the white-space
  runes outside ASCII. A decoder that stands on a rune boundary reads one of these runes
  exactly where one of these byte sequences stands, so trimming needs no decoding.
\<close>

definition ascii_space :: "char \<Rightarrow> bool" where
  "ascii_space c \<longleftrightarrow> c = CHR 0x20 \<or> c = CHR 0x09 \<or> c = CHR 0x0A \<or> c = CHR 0x0B \<or> c = CHR 0x0C \<or> c = CHR 0x0D"

definition wide_spaces :: "string list" where
  "wide_spaces = [
    [CHR 0xC2, CHR 0x85], [CHR 0xC2, CHR 0xA0], [CHR 0xE1, CHR 0x9A, CHR 0x80],
    [CHR 0xE2, CHR 0x80, CHR 0x80], [CHR 0xE2, CHR 0x80, CHR 0x81], [CHR 0xE2, CHR 0x80, CHR 0x82],
    [CHR 0xE2, CHR 0x80, CHR 0x83], [CHR 0xE2, CHR 0x80, CHR 0x84], [CHR 0xE2, CHR 0x80, CHR 0x85],
    [CHR 0xE2, CHR 0x80, CHR 0x86], [CHR 0xE2, CHR 0x80, CHR 0x87], [CHR 0xE2, CHR 0x80, CHR 0x88],
    [CHR 0xE2, CHR 0x80, CHR 0x89], [CHR 0xE2, CHR 0x80, CHR 0x8A], [CHR 0xE2, CHR 0x80, CHR 0xA8],
    [CHR 0xE2, CHR 0x80, CHR 0xA9], [CHR 0xE2, CHR 0x80, CHR 0xAF], [CHR 0xE2, CHR 0x81, CHR 0x9F],
    [CHR 0xE3, CHR 0x80, CHR 0x80]]"

definition match_len :: "string list \<Rightarrow> string \<Rightarrow> nat" where
  "match_len ws s = (case List.find (\<lambda>e. take (length e) s = e) ws of None \<Rightarrow> 0 | Some e \<Rightarrow> length e)"

definition space_len :: "string list \<Rightarrow> string \<Rightarrow> nat" where
  "space_len ws s =
     (case s of [] \<Rightarrow> 0 | c # _ \<Rightarrow> if digit7 c then match_len ws s else if ascii_space c then 1 else 0)"

function trim_front :: "string list \<Rightarrow> string \<Rightarrow> string" where
  "trim_front ws s = (let n = space_len ws s in if n = 0 then s else trim_front ws (drop n s))"
  by pat_completeness auto
termination
proof (relation "measure (\<lambda>(ws, s). length s)", goal_cases)
  case (2 ws s n)
  then show ?case by (cases s) (auto simp: space_len_def)
qed simp

declare trim_front.simps [simp del]

definition trim_left :: "string \<Rightarrow> string" where
  "trim_left s = trim_front wide_spaces s"

definition trim_right :: "string \<Rightarrow> string" where
  "trim_right s = rev (trim_front (map rev wide_spaces) (rev s))"

definition trim_space :: "string \<Rightarrow> string" where
  "trim_space s = trim_right (trim_left s)"

lemma trim_front_stop: "space_len ws (trim_front ws s) = 0"
proof (induction ws s rule: trim_front.induct)
  case (1 ws s)
  then show ?case by (cases "space_len ws s = 0") (simp_all add: trim_front.simps [of ws s])
qed

lemma trim_front_fix: "space_len ws s = 0 \<Longrightarrow> trim_front ws s = s"
  by (simp add: trim_front.simps [of ws s])

lemma trim_front_suffix: "\<exists>p. s = p @ trim_front ws s"
proof (induction ws s rule: trim_front.induct)
  case (1 ws s)
  show ?case
  proof (cases "space_len ws s = 0")
    case True
    then show ?thesis by (simp add: trim_front.simps [of ws s])
  next
    case False
    with 1 obtain p where "drop (space_len ws s) s = p @ trim_front ws (drop (space_len ws s) s)"
      by (metis (no_types))
    then have "s = (take (space_len ws s) s @ p) @ trim_front ws (drop (space_len ws s) s)"
      by (metis append_assoc append_take_drop_id)
    moreover have "trim_front ws s = trim_front ws (drop (space_len ws s) s)"
      using False by (simp add: trim_front.simps [of ws s])
    ultimately show ?thesis by metis
  qed
qed

lemma match_len_0_iff:
  assumes "[] \<notin> set ws"
  shows "match_len ws s = 0 \<longleftrightarrow> (\<forall>e \<in> set ws. take (length e) s \<noteq> e)"
proof (cases "List.find (\<lambda>e. take (length e) s = e) ws")
  case None
  then have "\<forall>e \<in> set ws. take (length e) s \<noteq> e" by (auto simp: find_None_iff)
  moreover have "match_len ws s = 0" using None by (simp add: match_len_def)
  ultimately show ?thesis by simp
next
  case (Some e)
  then have "e \<in> set ws" "take (length e) s = e" by (auto simp: find_Some_iff)
  moreover from this assms have "e \<noteq> []" by auto
  ultimately show ?thesis using Some by (auto simp: match_len_def)
qed

lemma space_len_0_prefix:
  assumes "[] \<notin> set ws" "space_len ws (p @ q) = 0"
  shows "space_len ws p = 0"
proof (cases p)
  case Nil
  then show ?thesis by (simp add: space_len_def)
next
  case (Cons c p')
  show ?thesis
  proof (cases "digit7 c")
    case True
    have "take (length e) (p @ q) = e" if "take (length e) p = e" for e
      using that by (metis append_take_drop_id length_take min.cobounded2 take_all take_append take_take
          append.right_neutral diff_is_0_eq min_def take_eq_Nil)
    with assms True Cons show ?thesis
      by (auto simp: space_len_def match_len_0_iff)
  next
    case False
    with assms Cons show ?thesis by (auto simp: space_len_def)
  qed
qed

lemma wide_spaces_nonempty: "[] \<notin> set wide_spaces"
  by (simp add: wide_spaces_def)

lemma trim_left_trim_space: "trim_left (trim_space s) = trim_space s"
proof -
  obtain p where p: "rev (trim_left s) = p @ trim_front (map rev wide_spaces) (rev (trim_left s))"
    using trim_front_suffix by blast
  have "trim_left s = trim_space s @ rev p"
    by (metis p rev_append rev_rev_ident trim_right_def trim_space_def)
  moreover have "space_len wide_spaces (trim_left s) = 0"
    by (simp add: trim_left_def trim_front_stop)
  ultimately have "space_len wide_spaces (trim_space s) = 0"
    using space_len_0_prefix [OF wide_spaces_nonempty] by metis
  then show ?thesis by (simp add: trim_left_def trim_front_fix)
qed

lemma trim_space_idem [simp]: "trim_space (trim_space s) = trim_space s"
proof -
  have "trim_right (trim_space s) = trim_space s"
    by (simp add: trim_space_def trim_right_def trim_front_fix trim_front_stop)
  then show ?thesis by (metis trim_left_trim_space trim_space_def)
qed

lemma trim_space_Nil [simp]: "trim_space [] = []"
  by (simp add: trim_space_def trim_left_def trim_right_def trim_front.simps space_len_def)

section \<open>Case\<close>

definition ascii_lower :: "char \<Rightarrow> char" where
  "ascii_lower c = (if 65 \<le> (of_char c :: nat) \<and> (of_char c :: nat) \<le> 90 then char_of (of_char c + 32 :: nat) else c)"

definition to_lower :: "string \<Rightarrow> string" where
  "to_lower s =
     (if list_all (\<lambda>c. \<not> digit7 c) s then map ascii_lower s else strings_map (\<lambda>r. Some (lower_rune r)) s)"

text \<open>
  \<^verbatim>\<open>strings.EqualFold\<close> where one side is an ASCII constant: the ASCII letters, and the two runes
  outside ASCII whose simple folding is an ASCII letter (the long s and the Kelvin sign).
\<close>

fun fold_ascii :: "string \<Rightarrow> string" where
  "fold_ascii [] = []"
| "fold_ascii (c # cs) =
     (if c = CHR 0xC5 \<and> take 1 cs = [CHR 0xBF] then CHR ''s'' # fold_ascii (drop 1 cs)
      else if c = CHR 0xE2 \<and> take 2 cs = [CHR 0x84, CHR 0xAA] then CHR ''k'' # fold_ascii (drop 2 cs)
      else ascii_lower c # fold_ascii cs)"

definition equal_fold_ascii :: "string \<Rightarrow> string \<Rightarrow> bool" where
  "equal_fold_ascii s t \<longleftrightarrow> fold_ascii s = fold_ascii t"

lemma to_lower_Nil [simp]: "to_lower [] = []"
  by (simp add: to_lower_def)

lemma equal_fold_ascii_refl [simp]: "equal_fold_ascii s s"
  by (simp add: equal_fold_ascii_def)

section \<open>Split, Contains\<close>

fun split_on :: "char \<Rightarrow> string \<Rightarrow> string list" where
  "split_on sep [] = [[]]"
| "split_on sep (c # cs) =
     (if c = sep then [] # split_on sep cs
      else (case split_on sep cs of [] \<Rightarrow> [[c]] | p # ps \<Rightarrow> (c # p) # ps))"

lemma split_on_nonempty: "split_on sep s \<noteq> []"
  by (induction s) (auto split: list.splits)

fun contains_sub :: "string \<Rightarrow> string \<Rightarrow> bool" where
  "contains_sub [] pat \<longleftrightarrow> pat = []"
| "contains_sub (c # cs) pat \<longleftrightarrow> take (length pat) (c # cs) = pat \<or> contains_sub cs pat"

fun join_with :: "string \<Rightarrow> string list \<Rightarrow> string" where
  "join_with sep [] = []"
| "join_with sep [x] = x"
| "join_with sep (x # y # xs) = x @ sep @ join_with sep (y # xs)"

section \<open>Numbers as text\<close>

definition is_digit :: "char \<Rightarrow> bool" where
  "is_digit c \<longleftrightarrow> 48 \<le> (of_char c :: nat) \<and> (of_char c :: nat) \<le> 57"

definition digit_val :: "char \<Rightarrow> nat" where
  "digit_val c = of_char c - 48"

definition digit_char :: "nat \<Rightarrow> char" where
  "digit_char n = char_of (48 + n)"

definition digits_val :: "string \<Rightarrow> nat" where
  "digits_val s = foldl (\<lambda>n c. 10 * n + digit_val c) 0 s"

definition int64_min :: int where
  "int64_min = - (2 ^ 63)"

definition int64_max :: int where
  "int64_max = 2 ^ 63 - 1"

text \<open>\<^verbatim>\<open>strconv.ParseInt (s, 10, 64)\<close> and \<^verbatim>\<open>strconv.Atoi\<close>: an optional sign, digits, the range.\<close>

definition atoi :: "string \<Rightarrow> int option" where
  "atoi s =
     (let neg = (take 1 s = ''-'');
          ds = (if neg \<or> take 1 s = ''+'' then drop 1 s else s);
          v = (if neg then - int (digits_val ds) else int (digits_val ds))
      in if ds = [] \<or> \<not> list_all is_digit ds then None
         else if int64_min \<le> v \<and> v \<le> int64_max then Some v else None)"

function nat_digits :: "nat \<Rightarrow> string" where
  "nat_digits n = (if n < 10 then [digit_char n] else nat_digits (n div 10) @ [digit_char (n mod 10)])"
  by pat_completeness auto
termination by (relation "measure id") auto

declare nat_digits.simps [simp del]

definition itoa :: "int \<Rightarrow> string" where
  "itoa n = (if n < 0 then CHR ''-'' # nat_digits (nat (- n)) else nat_digits (nat n))"

text \<open>The verb \<^verbatim>\<open>%0wd\<close>: padded with zeros to the width, after the sign.\<close>

definition zero_pad :: "nat \<Rightarrow> int \<Rightarrow> string" where
  "zero_pad w n =
     (let ds = nat_digits (nat \<bar>n\<bar>); k = (if n < 0 then w - 1 else w);
          body = replicate (k - length ds) (CHR ''0'') @ ds
      in if n < 0 then CHR ''-'' # body else body)"

lemma digit_char_props:
  assumes "n < 10"
  shows "is_digit (digit_char n)" "digit_val (digit_char n) = n"
proof -
  have "(of_char (digit_char n) :: nat) = 48 + n"
    using assms by (simp add: digit_char_def)
  then show "is_digit (digit_char n)" "digit_val (digit_char n) = n"
    using assms by (simp_all add: is_digit_def digit_val_def)
qed

lemma digits_val_snoc: "digits_val (s @ [c]) = 10 * digits_val s + digit_val c"
  by (simp add: digits_val_def)

lemma nat_digits_props: "list_all is_digit (nat_digits n) \<and> nat_digits n \<noteq> [] \<and> digits_val (nat_digits n) = n"
proof (induction n rule: nat_digits.induct)
  case (1 n)
  show ?case
  proof (cases "n < 10")
    case True
    then show ?thesis
      by (simp add: nat_digits.simps [of n] digit_char_props digits_val_def)
  next
    case False
    with 1 show ?thesis
      by (simp add: nat_digits.simps [of n] digit_char_props digits_val_snoc)
  qed
qed

lemma nat_digits_sign: "take 1 (nat_digits n) \<noteq> ''-''" "take 1 (nat_digits n) \<noteq> ''+''"
  using nat_digits_props [of n] by (cases "nat_digits n"; auto simp: is_digit_def)+

lemma atoi_itoa: "int64_min \<le> n \<Longrightarrow> n \<le> int64_max \<Longrightarrow> atoi (itoa n) = Some n"
  using nat_digits_sign [of "nat n"] nat_digits_props [of "nat n"] nat_digits_props [of "nat (- n)"]
  by (auto simp: atoi_def itoa_def Let_def)

lemma trim_example: "trim_space (CHR 0xC2 # CHR 0xA0 # '' a b'' @ [CHR 0x09]) = ''a b''"
  by code_simp

end
