(* ===== verification/Go_Time.thy ===== *)
theory Go_Time imports Go_Strings begin

text \<open>
  The part of the Go package \<^verbatim>\<open>time\<close> the program uses: durations and their textual syntax (with
  the double-precision arithmetic of a fractional unit), the proleptic Gregorian calendar, a
  location as its offset lookup, and the conversion between an instant and the wall clock.
  An instant is a number of nanoseconds since the Unix epoch, a duration a number of
  nanoseconds.
\<close>

section \<open>Durations\<close>

definition nanosecond :: duration where "nanosecond = 1"
definition microsecond :: duration where "microsecond = 1000"
definition millisecond :: duration where "millisecond = 1000000"
definition second :: duration where "second = 1000000000"
definition minute :: duration where "minute = 60000000000"
definition hour :: duration where "hour = 3600000000000"

lemmas duration_units = nanosecond_def microsecond_def millisecond_def second_def minute_def hour_def

text \<open>Go's integer division truncates; \<^verbatim>\<open>Time.Sub\<close> saturates.\<close>

definition go_quot :: "int \<Rightarrow> int \<Rightarrow> int" where
  "go_quot a b = sgn a * sgn b * (\<bar>a\<bar> div \<bar>b\<bar>)"

definition time_sub :: "instant \<Rightarrow> instant \<Rightarrow> duration" where
  "time_sub t u = max int64_min (min int64_max (t - u))"

definition milliseconds :: "duration \<Rightarrow> int" where
  "milliseconds d = go_quot d 1000000"

subsection \<open>Double precision\<close>

text \<open>
  A non-negative real is a pair of naturals (numerator, denominator). \<open>fl64\<close> rounds it to the
  nearest double, ties to even, with the subnormal range; the result is exact as a pair.
\<close>

fun bit_len :: "nat \<Rightarrow> nat" where
  "bit_len n = (if n = 0 then 0 else Suc (bit_len (n div 2)))"

declare bit_len.simps [simp del]

definition scale2 :: "nat \<times> nat \<Rightarrow> int \<Rightarrow> nat \<times> nat" where
  "scale2 q e = (if e \<ge> 0 then (fst q, snd q * 2 ^ nat e) else (fst q * 2 ^ nat (- e), snd q))"

definition round_even :: "nat \<times> nat \<Rightarrow> nat" where
  "round_even q =
     (let n = fst q; d = snd q; m = n div d; r = n mod d
      in if 2 * r > d \<or> (2 * r = d \<and> odd m) then m + 1 else m)"

definition fl64 :: "nat \<times> nat \<Rightarrow> nat \<times> nat" where
  "fl64 q =
     (if fst q = 0 then (0, 1)
      else let e0 = int (bit_len (fst q)) - int (bit_len (snd q)) - 53;
               s0 = scale2 q e0;
               e1 = (if fst s0 < 2 ^ 53 * snd s0 then e0 else e0 + 1);
               e = max e1 (- 1074);
               m = round_even (scale2 q e)
           in if e \<ge> 0 then (m * 2 ^ nat e, 1) else (m, 2 ^ nat (- e)))"

definition fl64_overflow :: "nat \<times> nat \<Rightarrow> bool" where
  "fl64_overflow q \<longleftrightarrow> 2 ^ 1024 * snd (fl64 q) \<le> fst (fl64 q)"

definition fl64_trunc :: "nat \<times> nat \<Rightarrow> nat" where
  "fl64_trunc q = fst q div snd q"

subsection \<open>ParseDuration\<close>

definition two63 :: nat where
  "two63 = 2 ^ 63"

text \<open>\<^verbatim>\<open>leadingInt\<close>: \<^term>\<open>None\<close> is the overflow error.\<close>

fun leading_int :: "nat \<Rightarrow> string \<Rightarrow> (nat \<times> string) option" where
  "leading_int x [] = Some (x, [])"
| "leading_int x (c # cs) =
     (if is_digit c then
        (if x > two63 div 10 then None
         else let y = 10 * x + digit_val c in if y > two63 then None else leading_int y cs)
      else Some (x, c # cs))"

text \<open>\<^verbatim>\<open>leadingFraction\<close>: the digits as a number, the power of ten, the rest.\<close>

fun leading_fraction :: "nat \<Rightarrow> nat \<Rightarrow> bool \<Rightarrow> string \<Rightarrow> nat \<times> nat \<times> string" where
  "leading_fraction x scale over [] = (x, scale, [])"
| "leading_fraction x scale over (c # cs) =
     (if is_digit c then
        (if over then leading_fraction x scale over cs
         else if x > (two63 - 1) div 10 then leading_fraction x scale True cs
         else let y = 10 * x + digit_val c
              in if y > two63 then leading_fraction x scale True cs
                 else leading_fraction y (10 * scale) False cs)
      else (x, scale, c # cs))"

definition unit_map :: "(string \<times> nat) list" where
  "unit_map = [(''ns'', 1), (''us'', 1000), ([CHR 0xC2, CHR 0xB5, CHR ''s''], 1000),
     ([CHR 0xCE, CHR 0xBC, CHR ''s''], 1000), (''ms'', 1000000), (''s'', 1000000000),
     (''m'', 60000000000), (''h'', 3600000000000)]"

definition unit_char :: "char \<Rightarrow> bool" where
  "unit_char c \<longleftrightarrow> c \<noteq> CHR ''.'' \<and> \<not> is_digit c"

lemma leading_int_length: "leading_int x s = Some (v, r) \<Longrightarrow> length r \<le> length s"
  by (induction x s rule: leading_int.induct) (auto simp: Let_def split: if_splits)

lemma leading_fraction_length: "leading_fraction x k ov s = (f, k', r) \<Longrightarrow> length r \<le> length s"
  by (induction x k ov s rule: leading_fraction.induct) (auto simp: Let_def split: if_splits)

text \<open>
  One turn of the loop of \<^verbatim>\<open>time.ParseDuration\<close>: a number, an optional fraction and a unit off
  the front of the text; the nanoseconds they stand for and the rest.
\<close>

datatype duration_error = InvalidDuration | MissingUnit | UnknownUnit string

definition duration_term :: "string \<Rightarrow> duration_error + (nat \<times> string)" where
  "duration_term s =
     (if \<not> (take 1 s = ''.'' \<or> (case s of [] \<Rightarrow> False | c # _ \<Rightarrow> is_digit c)) then Inl InvalidDuration
      else case leading_int 0 s of
        None \<Rightarrow> Inl InvalidDuration
      | Some (v, s1) \<Rightarrow>
          let pre = length s1 \<noteq> length s;
              dot = (take 1 s1 = ''.'');
              fr = (if dot then leading_fraction 0 1 False (drop 1 s1) else (0, 1, s1));
              f = fst fr; scale = fst (snd fr); s2 = snd (snd fr);
              post = (dot \<and> length s2 \<noteq> length (drop 1 s1));
              u = takeWhile unit_char s2; s3 = dropWhile unit_char s2
          in if \<not> pre \<and> \<not> post then Inl InvalidDuration
             else if u = [] then Inl MissingUnit
             else case map_of unit_map u of
               None \<Rightarrow> Inl (UnknownUnit u)
             | Some w \<Rightarrow>
                 if v > two63 div w then Inl InvalidDuration
                 else let v1 = v * w;
                          v2 = (if f > 0
                                then v1 + (let p = fl64 (f, 1); q = fl64 (w, scale)
                                           in fl64_trunc (fl64 (fst p * fst q, snd p * snd q)))
                                else v1)
                      in if v2 > two63 then Inl InvalidDuration else Inr (v2, s3))"

lemma duration_term_shorter:
  assumes "duration_term s = Inr (v, r)"
  shows "length r < length s"
proof -
  from assms obtain v0 s1 where li: "leading_int 0 s = Some (v0, s1)"
    by (auto simp: duration_term_def split: if_splits option.splits)
  define s2 where "s2 = snd (snd (if take 1 s1 = ''.'' then leading_fraction 0 1 False (drop 1 s1) else (0, 1, s1)))"
  have "length s2 \<le> length s1"
    using leading_fraction_length [of 0 1 False "drop 1 s1"]
    by (cases "leading_fraction 0 1 False (drop 1 s1)") (auto simp: s2_def intro: le_trans)
  moreover have "takeWhile unit_char s2 \<noteq> []" "r = dropWhile unit_char s2"
    using assms li by (auto simp: duration_term_def s2_def Let_def split: if_splits option.splits)
  moreover from this have "length r < length s2"
    by (metis length_append length_greater_0_conv less_add_same_cancel2 takeWhile_dropWhile_id)
  moreover have "length s1 \<le> length s" by (rule leading_int_length [OF li])
  ultimately show ?thesis by simp
qed

text \<open>The sum is an unsigned 64-bit number in Go: it wraps before the range check.\<close>

function duration_terms :: "nat \<Rightarrow> string \<Rightarrow> duration_error + nat" where
  "duration_terms d s =
     (if s = [] then Inr d
      else case duration_term s of
        Inl e \<Rightarrow> Inl e
      | Inr (v, r) \<Rightarrow>
          let d' = (d + v) mod 2 ^ 64 in if d' > two63 then Inl InvalidDuration else duration_terms d' r)"
  by pat_completeness auto
termination
  by (relation "measure (\<lambda>(d, s). length s)") (auto dest: duration_term_shorter)

declare duration_terms.simps [simp del]

definition parse_duration :: "string \<Rightarrow> duration_error + duration" where
  "parse_duration s0 =
     (let neg = (take 1 s0 = ''-'');
          s = (if neg \<or> take 1 s0 = ''+'' then drop 1 s0 else s0)
      in if s = ''0'' then Inr 0
         else if s = [] then Inl InvalidDuration
         else case duration_terms 0 s of
           Inl e \<Rightarrow> Inl e
         | Inr d \<Rightarrow>
             if neg then Inr (- int d) else if d > two63 - 1 then Inl InvalidDuration else Inr (int d))"

lemmas parse_duration_eval = parse_duration_def duration_terms.simps duration_term_def two63_def
  is_digit_def digit_val_def unit_char_def unit_map_def

subsection \<open>Duration.String\<close>

definition strip_zeros :: "string \<Rightarrow> string" where
  "strip_zeros s = rev (dropWhile (\<lambda>c. c = CHR ''0'') (rev s))"

definition frac_text :: "nat \<Rightarrow> nat \<Rightarrow> string" where
  "frac_text u prec =
     (let ds = strip_zeros (zero_pad prec (int (u mod 10 ^ prec)))
      in if prec = 0 \<or> ds = [] then [] else CHR ''.'' # ds)"

definition duration_string :: "duration \<Rightarrow> string" where
  "duration_string d =
     (let u = nat \<bar>d\<bar>;
          num = (\<lambda>k prec. nat_digits (k div 10 ^ prec) @ frac_text k prec);
          body =
            (if u = 0 then ''0s''
             else if u < 1000 then num u 0 @ ''ns''
             else if u < 1000000 then num u 3 @ [CHR 0xC2, CHR 0xB5, CHR ''s'']
             else if u < 1000000000 then num u 6 @ ''ms''
             else let secs = u div 1000000000; mins = secs div 60
                  in (if mins = 0 then [] else
                        (if mins div 60 = 0 then [] else nat_digits (mins div 60) @ ''h'')
                        @ nat_digits (mins mod 60) @ ''m'')
                     @ nat_digits (secs mod 60) @ frac_text u 9 @ ''s'')
      in if d < 0 then CHR ''-'' # body else body)"

section \<open>The calendar\<close>

text \<open>Days since 1970-01-01 and the civil date, by eras of 400 years from March to February.\<close>

definition days_from_civil :: "int \<Rightarrow> int \<Rightarrow> int \<Rightarrow> int" where
  "days_from_civil y m d =
     (let y' = (if m \<le> 2 then y - 1 else y);
          yoe = y' mod 400;
          doy = (153 * (if m > 2 then m - 3 else m + 9) + 2) div 5 + d - 1
      in y' div 400 * 146097 + (yoe * 365 + yoe div 4 - yoe div 100 + doy) - 719468)"

definition year_of_era :: "int \<Rightarrow> int" where
  "year_of_era doe = (doe - doe div 1460 + doe div 36524 - doe div 146096) div 365"

definition year_start :: "int \<Rightarrow> int" where
  "year_start yoe = 365 * yoe + yoe div 4 - yoe div 100"

definition civil_from_days :: "int \<Rightarrow> int \<times> int \<times> int" where
  "civil_from_days z =
     (let z' = z + 719468;
          doe = z' mod 146097;
          yoe = year_of_era doe;
          doy = doe - year_start yoe;
          mp = (5 * doy + 2) div 153;
          m = (if mp < 10 then mp + 3 else mp - 9)
      in (yoe + z' div 146097 * 400 + (if m \<le> 2 then 1 else 0), m, doy - (153 * mp + 2) div 5 + 1))"

definition year_ok :: "int \<Rightarrow> bool" where
  "year_ok k \<longleftrightarrow>
     (let a = year_start k; b = year_start (k + 1) - 1
      in 365 * k \<le> a - a div 1460 + a div 36524 - a div 146096 \<and>
         b - b div 1460 + b div 36524 - b div 146096 < 365 * (k + 1) \<and>
         b + 1 \<le> a + 366 \<and> 0 \<le> a \<and> b + 1 \<le> 146097)"

lemma year_ok_table: "list_all year_ok [0..399]"
  by code_simp

lemma year_ok_all: "0 \<le> k \<Longrightarrow> k < 400 \<Longrightarrow> year_ok k"
  using year_ok_table unfolding list_all_iff set_upto by force

lemma diff_div_mono:
  fixes a b c :: int
  assumes "a \<le> b" "0 < c"
  shows "a - a div c \<le> b - b div c"
proof -
  have "b \<le> a + (b - a) * c"
    using assms mult_left_mono [of 1 c "b - a"] by simp
  then have "b div c \<le> (a + (b - a) * c) div c"
    using assms(2) by (rule zdiv_mono1)
  also have "\<dots> = a div c + (b - a)" using assms(2) by simp
  finally show ?thesis by simp
qed

definition era_key :: "int \<Rightarrow> int" where
  "era_key a = a - a div 1460 + a div 36524 - a div 146096"

lemma era_key_mono:
  assumes "0 \<le> a" "a \<le> b" "b \<le> 146096"
  shows "era_key a \<le> era_key b"
proof (cases "b = 146096")
  case True
  show ?thesis
  proof (cases "a = 146096")
    case False
    with assms have a: "0 \<le> a" "a \<le> 146095" by linarith+
    have d1: "a - a div 1460 \<le> 146095 - 146095 div 1460"
      using a by (intro diff_div_mono) simp_all
    have d2: "a div 36524 \<le> 146095 div 36524" using a(2) by (rule zdiv_mono1) simp
    have d3: "0 \<le> a div 146096" using a by simp
    have "era_key a \<le> 146095 - 146095 div 1460 + 146095 div 36524 - 0"
      unfolding era_key_def by (rule diff_mono [OF add_mono [OF d1 d2] d3])
    also have "\<dots> \<le> era_key b" by (simp add: True era_key_def)
    finally show ?thesis .
  qed (simp add: True)
next
  case False
  with assms have "b < 146096" by linarith
  then have d3: "b div 146096 \<le> a div 146096" using assms by simp
  have d2: "a div 36524 \<le> b div 36524" using assms(2) by (rule zdiv_mono1) simp
  have d1: "a - a div 1460 \<le> b - b div 1460" using assms by (intro diff_div_mono) simp_all
  show ?thesis unfolding era_key_def by (rule diff_mono [OF add_mono [OF d1 d2] d3])
qed

lemma year_table:
  assumes "0 \<le> j" "j < 400"
  shows "365 * j \<le> era_key (year_start j)" "era_key (year_start (j + 1) - 1) < 365 * (j + 1)"
    "year_start (j + 1) \<le> year_start j + 366" "0 \<le> year_start j" "year_start (j + 1) \<le> 146097"
  using year_ok_all [OF assms] by (simp_all only: year_ok_def Let_def era_key_def diff_add_cancel)

lemma div_365_bounds:
  fixes e k :: int
  assumes "k = e div 365"
  shows "365 * k \<le> e" "e < 365 * (k + 1)"
  using assms by presburger+

lemma div_365_range:
  fixes e k :: int
  assumes "k = e div 365" "0 \<le> e" "e \<le> 145999"
  shows "0 \<le> k \<and> k < 400"
proof -
  have "e div 365 \<le> 145999 div 365" using assms(3) by (rule zdiv_mono1) simp
  then have "k \<le> 399" using assms(1) by simp
  moreover have "0 \<le> k" using assms(1,2) by simp
  ultimately show ?thesis by simp
qed

lemma year_of_era_bounds:
  assumes "0 \<le> doe" "doe < 146097"
  defines "k \<equiv> year_of_era doe"
  shows "0 \<le> k \<and> k < 400 \<and> year_start k \<le> doe \<and> doe \<le> year_start k + 365"
proof -
  have ends: "era_key 0 = 0" "era_key 146096 = 145999" "year_start 0 = 0" "year_start 399 = 145731"
    by (simp_all add: era_key_def year_start_def)
  have g: "0 \<le> era_key doe" "era_key doe \<le> 145999"
    using era_key_mono [of 0 doe] era_key_mono [of doe 146096] assms(1,2) unfolding ends by linarith+
  have k: "k = era_key doe div 365" by (simp only: k_def era_key_def year_of_era_def)
  note k' = div_365_bounds [OF k]
  have range: "0 \<le> k" "k < 400" using div_365_range [OF k g] by simp_all
  have "year_start k \<le> doe"
  proof (rule ccontr)
    assume "\<not> year_start k \<le> doe"
    then have d: "doe \<le> year_start k - 1" by simp
    with assms(1) ends(3) have "k \<noteq> 0" by auto
    with range have r: "0 \<le> k - 1" "k - 1 < 400" by linarith+
    have "era_key doe \<le> era_key (year_start k - 1)"
      using year_table(5) [OF r] assms(1) d by (intro era_key_mono) simp_all
    with year_table(2) [OF r] k'(1) show False by simp
  qed
  moreover have "doe \<le> year_start k + 365"
  proof (cases "k = 399")
    case True
    then show ?thesis using assms(2) ends(4) by simp
  next
    case False
    with range have r: "0 \<le> k + 1" "k + 1 < 400" by linarith+
    have "doe < year_start (k + 1)"
    proof (rule ccontr)
      assume a: "\<not> doe < year_start (k + 1)"
      have "era_key (year_start (k + 1)) \<le> era_key doe"
        using year_table(4) [OF r] assms(2) a by (intro era_key_mono) simp_all
      with year_table(1) [OF r] k'(2) show False by simp
    qed
    with year_table(3) [OF range] show ?thesis by simp
  qed
  ultimately show ?thesis using range by simp
qed

lemma days_from_civil_from_days:
  assumes "civil_from_days z = (y, m, d)"
  shows "days_from_civil y m d = z"
proof -
  define doe where "doe = (z + 719468) mod 146097"
  define yoe where "yoe = year_of_era doe"
  define doy where "doy = doe - year_start yoe"
  define mp where "mp = (5 * doy + 2) div 153"
  have doe: "0 \<le> doe" "doe < 146097" by (simp_all add: doe_def)
  have yb: "0 \<le> yoe" "yoe < 400" "year_start yoe \<le> doe" "doe \<le> year_start yoe + 365"
    using year_of_era_bounds [OF doe] by (simp_all add: yoe_def)
  have doy: "0 \<le> doy" "doy \<le> 365" using yb unfolding doy_def by linarith+
  have "2 div 153 \<le> mp" "mp \<le> 1827 div 153"
    unfolding mp_def using doy by (intro zdiv_mono1; simp)+
  then have mp: "0 \<le> mp" "mp \<le> 11" by simp_all
  note parts = assms [unfolded civil_from_days_def Let_def, folded doe_def, folded yoe_def,
      folded doy_def, folded mp_def, unfolded prod.inject]
  have m: "m = (if mp < 10 then mp + 3 else mp - 9)"
    and d: "d = doy - (153 * mp + 2) div 5 + 1"
    using parts by blast+
  have y: "y = yoe + (z + 719468) div 146097 * 400 + (if m \<le> 2 then 1 else 0)"
    using parts unfolding m by blast
  have mp': "(if m > 2 then m - 3 else m + 9) = mp" using m mp by auto
  have y': "(if m \<le> 2 then y - 1 else y) = yoe + (z + 719468) div 146097 * 400"
    using y by simp
  have "days_from_civil y m d
      = (z + 719468) div 146097 * 146097 + (year_start yoe + doy) - 719468"
    using yb(1,2) mp' y' d
    by (simp add: days_from_civil_def Let_def year_start_def)
  also have "\<dots> = (z + 719468) div 146097 * 146097 + (z + 719468) mod 146097 - 719468"
    by (simp add: doy_def doe_def)
  also have "\<dots> = z" by (simp add: algebra_simps)
  finally show ?thesis .
qed

lemma civil_from_days_inj: "civil_from_days z = civil_from_days z' \<Longrightarrow> z = z'"
  by (metis days_from_civil_from_days prod_cases3)

lemma days_from_civil_shift: "days_from_civil y m (d + n) = days_from_civil y m d + n"
  by (simp add: days_from_civil_def Let_def)

section \<open>Locations and the wall clock\<close>

text \<open>
  A location is its name and its \<^verbatim>\<open>lookup\<close>: for an instant in seconds, the offset from UTC
  and the half-open span of seconds in which that offset holds. The zone database is data
  outside the program: a location is a value the model takes.
\<close>

record location =
  loc_name :: string
  loc_lookup :: "int \<Rightarrow> int \<times> int \<times> int"

definition loc_offset :: "location \<Rightarrow> int \<Rightarrow> int" where
  "loc_offset l t = fst (loc_lookup l t)"

record wall_clock =
  wc_year :: int
  wc_month :: int
  wc_day :: int
  wc_hour :: int
  wc_minute :: int
  wc_second :: int

definition nanos :: int where
  "nanos = 1000000000"

text \<open>\<^verbatim>\<open>t.In (loc)\<close> read through \<^verbatim>\<open>Date\<close> and \<^verbatim>\<open>Clock\<close>.\<close>

definition local_seconds :: "location \<Rightarrow> instant \<Rightarrow> int" where
  "local_seconds l t = t div nanos + loc_offset l (t div nanos)"

definition wall_in :: "location \<Rightarrow> instant \<Rightarrow> wall_clock" where
  "wall_in l t =
     (let s = local_seconds l t; tod = s mod 86400
      in case civil_from_days (s div 86400) of (y, m, d) \<Rightarrow>
           \<lparr> wc_year = y, wc_month = m, wc_day = d, wc_hour = tod div 3600,
             wc_minute = tod div 60 mod 60, wc_second = tod mod 60 \<rparr>)"

text \<open>
  \<^verbatim>\<open>time.Date\<close>: the wall clock read as UTC, then the offset found there, corrected once when
  the corrected instant falls outside the span of that offset.
\<close>

definition go_date :: "int \<Rightarrow> int \<Rightarrow> int \<Rightarrow> int \<Rightarrow> int \<Rightarrow> int \<Rightarrow> int \<Rightarrow> location \<Rightarrow> instant" where
  "go_date y mo d h mi s ns l =
     (let m0 = mo - 1;
          days = days_from_civil (y + m0 div 12) (m0 mod 12 + 1) d;
          unix = days * 86400 + h * 3600 + mi * 60 + s;
          (off, st, en) = loc_lookup l unix;
          utc = unix - off;
          off' = (if off = 0 \<or> (st \<le> utc \<and> utc < en) then off else loc_offset l utc)
      in (unix - off') * nanos + ns)"

text \<open>\<^verbatim>\<open>t.AddDate (0, 0, n)\<close> on a time already in the location.\<close>

definition add_days :: "location \<Rightarrow> instant \<Rightarrow> int \<Rightarrow> instant" where
  "add_days l t n =
     (let w = wall_in l t
      in go_date (wc_year w) (wc_month w) (wc_day w + n) (wc_hour w) (wc_minute w) (wc_second w) (t mod nanos) l)"

text \<open>The zero \<^verbatim>\<open>Time\<close>, the first instant of year 1, which \<^verbatim>\<open>IsZero\<close> tests for.\<close>

definition zero_time :: instant where
  "zero_time = - 62135596800 * nanos"

text \<open>A location with one offset for all time, such as UTC.\<close>

definition fixed_zone :: "string \<Rightarrow> int \<Rightarrow> location" where
  "fixed_zone name off = \<lparr> loc_name = name, loc_lookup = (\<lambda>t. (off, int64_min, int64_max)) \<rparr>"

subsection \<open>Laws of a zone with a constant offset\<close>

lemma loc_offset_fixed [simp]: "loc_offset (fixed_zone nm off) t = off"
  by (simp add: loc_offset_def fixed_zone_def)

lemma loc_lookup_fixed: "loc_lookup (fixed_zone nm off) t = (off, int64_min, int64_max)"
  by (simp add: fixed_zone_def)

lemma civil_month_range:
  assumes "civil_from_days z = (y, m, d)"
  shows "1 \<le> m \<and> m \<le> 12"
proof -
  define doe where "doe = (z + 719468) mod 146097"
  have doe: "0 \<le> doe" "doe < 146097" by (simp_all add: doe_def)
  define doy where "doy = doe - year_start (year_of_era doe)"
  have doy: "0 \<le> doy" "doy \<le> 365"
    using year_of_era_bounds [OF doe] unfolding doy_def by linarith+
  define mp where "mp = (5 * doy + 2) div 153"
  have "2 div 153 \<le> mp" "mp \<le> 1827 div 153"
    unfolding mp_def using doy by (intro zdiv_mono1; simp)+
  moreover have "m = (if mp < 10 then mp + 3 else mp - 9)"
    using assms [unfolded civil_from_days_def Let_def, folded doe_def, folded doy_def,
      folded mp_def, unfolded prod.inject] by blast
  ultimately show ?thesis by auto
qed

lemma go_date_fixed:
  assumes "civil_from_days z = (y, m, d)"
  shows "go_date y m (d + n) h mi s ns (fixed_zone nm off)
       = ((z + n) * 86400 + h * 3600 + mi * 60 + s - off) * nanos + ns"
proof -
  have "(m - 1) div 12 = 0" "(m - 1) mod 12 = m - 1"
    using civil_month_range [OF assms] by simp_all
  then show ?thesis
    using days_from_civil_from_days [OF assms]
    by (simp add: go_date_def Let_def days_from_civil_shift loc_lookup_fixed)
qed

lemma time_of_day_split:
  fixes t :: int
  shows "t div 3600 * 3600 + t div 60 mod 60 * 60 + t mod 60 = t"
proof -
  have "t div 60 div 60 = t div 3600" by (simp add: zdiv_zmult2_eq [symmetric])
  define a b c where "a = t div 3600" and "b = t div 60 mod 60" and "c = t mod 60"
  have "t div 60 = 60 * a + b"
    using mult_div_mod_eq [of 60 "t div 60"] \<open>t div 60 div 60 = t div 3600\<close> by (simp only: a_def b_def)
  moreover have "t = 60 * (t div 60) + c"
    by (simp only: c_def mult_div_mod_eq)
  ultimately have "t = 60 * (60 * a + b) + c" by (simp only:)
  then show ?thesis unfolding a_def [symmetric] b_def [symmetric] c_def [symmetric] by (simp add: algebra_simps)
qed

end
