(* ===== verification/Refresh_Types.thy ===== *)
theory Refresh_Types imports Go_Time begin

text \<open>
  The types of \<^verbatim>\<open>internal/refreshquota/types.go\<close>: the error values of the whole plugin, the
  credential records, the requests and responses of the host bridge, and the run reports.
  A Go error is a value of one datatype: the sentinels by name, \<^verbatim>\<open>errors.New\<close> and a
  \<^verbatim>\<open>fmt.Errorf\<close> without \<^verbatim>\<open>%w\<close> as \<open>ErrNew\<close>, a wrapping \<^verbatim>\<open>fmt.Errorf ("...%w", err)\<close> as
  \<open>ErrWrap\<close>, \<^verbatim>\<open>errors.Join\<close> as \<open>ErrJoin\<close>. A decoding error of \<^verbatim>\<open>encoding/json\<close> is \<open>ErrJson\<close>,
  without the position and character its text names. A \<^verbatim>\<open>syscall.Errno\<close> is \<open>ErrErrno\<close>, with the text it has when the
  system has none. Go counters and priorities, 64-bit in the
  program, are \<^typ>\<open>int\<close>: the code only compares priorities, and the counters are bounded by the
  number of listed credentials.
\<close>

section \<open>Errors\<close>

datatype err =
    ErrBusy
  | ErrStopped
  | ErrNotConfigured
  | ErrDuplicate
  | ErrAuthFileChanged
  | ErrPinNotSelected
  | ErrPinnedAuthUnavailable
  | ErrInvalidPinHeader
  | CtxCanceled
  | CtxDeadlineExceeded
  | ErrJson
  | ErrErrno int
  | ErrNew string
  | ErrWrap string err
  | ErrJoin "err list"

text \<open>\<^verbatim>\<open>err.Error ()\<close>.\<close>

fun err_text :: "err \<Rightarrow> string" where
  "err_text ErrBusy = ''a refresh run is already active''"
| "err_text ErrStopped = ''service is stopped''"
| "err_text ErrNotConfigured = ''model and message must be configured''"
| "err_text ErrDuplicate = ''occurrence was already handled''"
| "err_text ErrAuthFileChanged = ''auth file changed concurrently''"
| "err_text ErrPinNotSelected = ''CPA scheduler did not select the requested auth''"
| "err_text ErrPinnedAuthUnavailable = ''requested auth is not available to the CPA scheduler''"
| "err_text ErrInvalidPinHeader = ''invalid CPA auto-refresh routing token header''"
| "err_text CtxCanceled = ''context canceled''"
| "err_text CtxDeadlineExceeded = ''context deadline exceeded''"
| "err_text ErrJson = ''invalid JSON''"
| "err_text (ErrErrno n) = ''errno '' @ itoa n"
| "err_text (ErrNew s) = s"
| "err_text (ErrWrap s e) = s @ err_text e"
| "err_text (ErrJoin es) = join_with [CHR 0x0A] (map err_text es)"

text \<open>\<^verbatim>\<open>errors.Is\<close> against a sentinel.\<close>

fun err_is :: "err \<Rightarrow> err \<Rightarrow> bool" where
  "err_is (ErrWrap s e) target \<longleftrightarrow> ErrWrap s e = target \<or> err_is e target"
| "err_is (ErrJoin es) target \<longleftrightarrow> ErrJoin es = target \<or> (\<exists>e \<in> set es. err_is e target)"
| "err_is e target \<longleftrightarrow> e = target"

definition errors_join :: "err list \<Rightarrow> err option" where
  "errors_join es = (if es = [] then None else Some (ErrJoin es))"

section \<open>Credentials\<close>

record auth =
  au_ID :: string
  au_AuthIndex :: string
  au_Provider :: string
  au_Status :: string
  au_Disabled :: bool
  au_Unavailable :: bool
  au_RuntimeOnly :: bool
  au_Source :: string
  au_Priority :: int

record auth_file =
  af_AuthIndex :: string
  af_Name :: string
  af_Path :: string
  af_JSON :: bytes
  af_ExpectedSHA256 :: string

definition empty_auth :: auth where
  "empty_auth = \<lparr> au_ID = [], au_AuthIndex = [], au_Provider = [], au_Status = [], au_Disabled = False,
     au_Unavailable = False, au_RuntimeOnly = False, au_Source = [], au_Priority = 0 \<rparr>"

section \<open>Requests and responses\<close>

type_synonym header = "(string \<times> string list) list"

record pinned_model_request =
  pm_AuthID :: string
  pm_EntryProtocol :: string
  pm_ExitProtocol :: string
  pm_Model :: string
  pm_Body :: bytes
  pm_Headers :: header
  pm_Query :: header
  pm_Alt :: string

record model_response =
  mr_StatusCode :: int
  mr_Headers :: header
  mr_Body :: bytes

record manual_run_options =
  mo_DryRun :: bool
  mo_AuthIndices :: "string list"

section \<open>Reports\<close>

record auth_result =
  ar_AuthIndex :: string
  ar_Provider :: string
  ar_Priority :: int
  ar_PriorityOverrideRequired :: bool
  ar_PriorityOverrideTo :: int
  ar_Outcome :: string
  ar_StatusCode :: int
  ar_ResponseBytes :: int
  ar_DurationMS :: int
  ar_Error :: string

record run_report =
  rr_RunID :: string
  rr_Trigger :: string
  rr_OccurrenceID :: string
  rr_DryRun :: bool
  rr_StartedAt :: instant
  rr_FinishedAt :: "instant option"
  rr_DurationMS :: int
  rr_TargetCount :: int
  rr_SuccessCount :: int
  rr_FailedCount :: int
  rr_SkippedCount :: int
  rr_Canceled :: bool
  rr_Error :: string
  rr_Results :: "auth_result list"

record next_schedule =
  ns_OccurrenceID :: string
  ns_Local :: wall_clock
  ns_UTC :: instant

text \<open>
  \<^verbatim>\<open>cloneRunReport\<close> copies the report, its finish time and its results; values in the model are
  not shared, so the copy is equal to the original.
\<close>

definition clone_run_report :: "run_report option \<Rightarrow> run_report option" where
  "clone_run_report r =
     (case r of None \<Rightarrow> None
      | Some rep \<Rightarrow> Some (rep\<lparr>rr_FinishedAt := map_option (\<lambda>t. t) (rr_FinishedAt rep),
                             rr_Results := [] @ rr_Results rep\<rparr>))"

lemma clone_run_report_id [simp]: "clone_run_report r = r"
  by (cases r) (auto simp: clone_run_report_def option.map_ident)

lemma err_is_refl [simp]: "err_is e e"
  by (cases e) simp_all

end
