(* ===== verification/Plugin_Config.thy ===== *)
theory Plugin_Config imports Refresh_Types Go_Sha256 begin

text \<open>
  \<^verbatim>\<open>internal/refreshquota/config.go\<close>: the decoded YAML document (\<open>raw_config\<close>), its validation
  and normalisation into a \<open>config\<close> (\<open>parse_config\<close>), the daily times, the copy, comparison
  and summary of a configuration. The YAML library is a parameter: a function from the
  document's bytes to the result of the first \<^verbatim>\<open>Decode\<close> and of the second one; so are the zone
  database (\<^verbatim>\<open>time.LoadLocation\<close>) and \<^verbatim>\<open>time.Local\<close>.
\<close>

section \<open>Constants\<close>

definition defaultMaxTokens :: int where "defaultMaxTokens = 16"
definition defaultDelayBetweenAuths :: duration where "defaultDelayBetweenAuths = second"
definition defaultPrioritySyncTimeout :: duration where "defaultPrioritySyncTimeout = 5 * second"
definition defaultRequestTimeout :: duration where "defaultRequestTimeout = 2 * minute"
definition maxMessageBytes :: int where "maxMessageBytes = 64 * 1024"
definition maxTimePoints :: nat where "maxTimePoints = 64"

lemmas config_constants = defaultMaxTokens_def defaultDelayBetweenAuths_def
  defaultPrioritySyncTimeout_def defaultRequestTimeout_def maxMessageBytes_def maxTimePoints_def

section \<open>The YAML side\<close>

datatype yaml_kind = DocumentNode | SequenceNode | MappingNode | ScalarNode | AliasNode

datatype yaml_node =
  YamlNode (node_kind: yaml_kind) (node_tag: string) (node_value: string) (node_content: "yaml_node option list")

text \<open>\<^verbatim>\<open>(*StringList).UnmarshalYAML\<close>: a sequence of strings, or a comma-separated scalar.\<close>

fun unmarshal_items :: "yaml_node option list \<Rightarrow> err + string list" where
  "unmarshal_items [] = Inr []"
| "unmarshal_items (item # items) =
     (case item of
        None \<Rightarrow> Inl (ErrNew ''list values must be strings'')
      | Some nd \<Rightarrow>
          if node_kind nd \<noteq> ScalarNode \<or> node_tag nd \<noteq> ''!!str''
          then Inl (ErrNew ''list values must be strings'')
          else rbind (unmarshal_items items) (\<lambda>vs. Inr (node_value nd # vs)))"

definition unmarshal_string_list :: "yaml_node option \<Rightarrow> err + string list" where
  "unmarshal_string_list nd =
     (case nd of
        None \<Rightarrow> Inr []
      | Some n \<Rightarrow>
          (case node_kind n of
             SequenceNode \<Rightarrow> unmarshal_items (node_content n)
           | ScalarNode \<Rightarrow>
               if node_tag n = ''!!null'' then Inr []
               else if node_tag n \<noteq> ''!!str'' then Inl (ErrNew ''expected a string or string list'')
               else let raw = trim_space (node_value n)
                    in if raw = [] then Inr [node_value n] else Inr (split_on (CHR '','') raw)
           | _ \<Rightarrow> Inl (ErrNew ''expected a string or string list'')))"

record raw_config =
  rc_HostEnabled :: "bool option"
  rc_HostPriority :: int
  rc_ScheduleEnabled :: bool
  rc_Timezone :: string
  rc_Times :: "string list"
  rc_Model :: string
  rc_Message :: string
  rc_EntryProtocol :: string
  rc_ExitProtocol :: string
  rc_MaxTokens :: "int option"
  rc_Providers :: "string list"
  rc_IncludeAuthIndices :: "string list"
  rc_ExcludeAuthIndices :: "string list"
  rc_PhysicalFilesOnly :: "bool option"
  rc_SkipUnavailable :: "bool option"
  rc_DelayBetweenAuthsRaw :: string
  rc_TemporaryPriority :: "bool option"
  rc_PrioritySyncRaw :: string
  rc_RequestTimeoutRaw :: string

definition zero_raw_config :: raw_config where
  "zero_raw_config = \<lparr> rc_HostEnabled = None, rc_HostPriority = 0, rc_ScheduleEnabled = False,
     rc_Timezone = [], rc_Times = [], rc_Model = [], rc_Message = [], rc_EntryProtocol = [],
     rc_ExitProtocol = [], rc_MaxTokens = None, rc_Providers = [], rc_IncludeAuthIndices = [],
     rc_ExcludeAuthIndices = [], rc_PhysicalFilesOnly = None, rc_SkipUnavailable = None,
     rc_DelayBetweenAuthsRaw = [], rc_TemporaryPriority = None, rc_PrioritySyncRaw = [],
     rc_RequestTimeoutRaw = [] \<rparr>"

text \<open>What the second \<^verbatim>\<open>Decode\<close> of the same decoder returns.\<close>

datatype yaml_trailing = YamlEOF | YamlValue | YamlError err

type_synonym yaml_decoder = "bytes \<Rightarrow> (err + raw_config) \<times> yaml_trailing"

definition decode_raw_config :: "yaml_decoder \<Rightarrow> bytes \<Rightarrow> err + raw_config" where
  "decode_raw_config yaml raw =
     (if trim_space raw = [] then Inr zero_raw_config
      else case yaml raw of
        (Inl e, _) \<Rightarrow> Inl (ErrWrap ''decode plugin config: '' e)
      | (Inr decoded, YamlEOF) \<Rightarrow> Inr decoded
      | (Inr decoded, YamlValue) \<Rightarrow> Inl (ErrNew ''decode plugin config: multiple YAML documents are not supported'')
      | (Inr decoded, YamlError e) \<Rightarrow> Inl (ErrWrap ''decode plugin config: '' e))"

section \<open>Daily times\<close>

record daily_time =
  dt_Hour :: int
  dt_Minute :: int
  dt_Second :: int
  dt_Text :: string

definition secondsSinceMidnight :: "daily_time \<Rightarrow> int" where
  "secondsSinceMidnight t = dt_Hour t * 60 * 60 + dt_Minute t * 60 + dt_Second t"

text \<open>
  The verb \<^verbatim>\<open>%q\<close> on the ASCII characters; other bytes stand as they are (\<^verbatim>\<open>strconv.Quote\<close> prints a
  printable rune unchanged).
\<close>

definition quote_char :: "char \<Rightarrow> string" where
  "quote_char c =
     (if c = CHR 0x22 then [CHR 0x5C, CHR 0x22]
      else if c = CHR 0x5C then [CHR 0x5C, CHR 0x5C]
      else if c = CHR 0x07 then [CHR 0x5C, CHR ''a'']
      else if c = CHR 0x08 then [CHR 0x5C, CHR ''b'']
      else if c = CHR 0x0C then [CHR 0x5C, CHR ''f'']
      else if c = CHR 0x0A then [CHR 0x5C, CHR ''n'']
      else if c = CHR 0x0D then [CHR 0x5C, CHR ''r'']
      else if c = CHR 0x09 then [CHR 0x5C, CHR ''t'']
      else if c = CHR 0x0B then [CHR 0x5C, CHR ''v'']
      else if (of_char c :: nat) < 32 \<or> c = CHR 0x7F then CHR 0x5C # CHR ''x'' # hex_byte (of_char c)
      else [c])"

definition go_quote :: "string \<Rightarrow> string" where
  "go_quote s = CHR 0x22 # concat (map quote_char s) @ [CHR 0x22]"

definition parse_part :: "string \<Rightarrow> string \<Rightarrow> string \<Rightarrow> int \<Rightarrow> int \<Rightarrow> err + int" where
  "parse_part value name txt lo hi =
     (let bad = ErrNew (''invalid '' @ name @ '' in daily time '' @ go_quote value)
      in if length txt < 1 \<or> length txt > 2 then Inl bad
         else case atoi txt of
           None \<Rightarrow> Inl bad
         | Some v \<Rightarrow> if v < lo \<or> v > hi then Inl bad else Inr v)"

definition daily_text :: "int \<Rightarrow> int \<Rightarrow> int \<Rightarrow> string" where
  "daily_text h m s = zero_pad 2 h @ '':'' @ zero_pad 2 m @ '':'' @ zero_pad 2 s"

definition parse_daily_time :: "string \<Rightarrow> err + daily_time" where
  "parse_daily_time value =
     (let raw = trim_space value; parts = split_on (CHR '':'') raw
      in if length parts \<noteq> 2 \<and> length parts \<noteq> 3
         then Inl (ErrNew (''invalid daily time '' @ go_quote value @ ''; use HH:MM or HH:MM:SS''))
         else rbind (parse_part value ''hour'' (parts ! 0) 0 23) (\<lambda>h.
              rbind (parse_part value ''minute'' (parts ! 1) 0 59) (\<lambda>m.
              rbind (if length parts = 3 then parse_part value ''second'' (parts ! 2) 0 59 else Inr 0) (\<lambda>s.
              Inr \<lparr> dt_Hour = h, dt_Minute = m, dt_Second = s, dt_Text = daily_text h m s \<rparr>))))"

fun normalize_times_loop :: "string list \<Rightarrow> string list \<Rightarrow> err + daily_time list" where
  "normalize_times_loop seen [] = Inr []"
| "normalize_times_loop seen (value # values) =
     rbind (parse_daily_time value) (\<lambda>t.
       if dt_Text t \<in> set seen then normalize_times_loop seen values
       else rbind (normalize_times_loop (dt_Text t # seen) values) (\<lambda>ts. Inr (t # ts)))"

definition normalize_times :: "string list \<Rightarrow> err + daily_time list" where
  "normalize_times values =
     (if length values > maxTimePoints
      then Inl (ErrNew (''times contains more than '' @ nat_digits maxTimePoints @ '' entries''))
      else rbind (normalize_times_loop [] values) (\<lambda>ts. Inr (sort_key secondsSinceMidnight ts)))"

section \<open>String lists\<close>

fun normalize_strings_loop :: "string list \<Rightarrow> bool \<Rightarrow> string list \<Rightarrow> string list" where
  "normalize_strings_loop seen lower [] = []"
| "normalize_strings_loop seen lower (v # vs) =
     (let value = (if lower then to_lower (trim_space v) else trim_space v)
      in if value = [] then normalize_strings_loop seen lower vs
         else if value \<in> set seen then normalize_strings_loop seen lower vs
         else value # normalize_strings_loop (value # seen) lower vs)"

definition normalize_strings :: "string list \<Rightarrow> bool \<Rightarrow> string list" where
  "normalize_strings values lower = normalize_strings_loop [] lower values"

definition normalize_filter_strings :: "string \<Rightarrow> string list \<Rightarrow> bool \<Rightarrow> err + string list" where
  "normalize_filter_strings name values lower =
     (let normalized = normalize_strings values lower
      in if values \<noteq> [] \<and> normalized = []
         then Inl (ErrNew (name @ '' must contain at least one non-empty value when specified''))
         else Inr normalized)"

definition supported_exit_protocol :: "string \<Rightarrow> bool" where
  "supported_exit_protocol p \<longleftrightarrow>
     p = ''openai'' \<or> p = ''openai-response'' \<or> p = ''claude'' \<or> p = ''gemini'' \<or> p = ''codex'' \<or>
     p = ''antigravity'' \<or> p = ''interactions''"

section \<open>The configuration\<close>

record config =
  cf_HostEnabled :: bool
  cf_ScheduleEnabled :: bool
  cf_Timezone :: string
  cf_Location :: "location option"
  cf_Times :: "daily_time list"
  cf_Model :: string
  cf_Message :: string
  cf_EntryProtocol :: string
  cf_ExitProtocol :: string
  cf_MaxTokens :: int
  cf_Providers :: "string list"
  cf_IncludeAuthIndices :: "string list"
  cf_ExcludeAuthIndices :: "string list"
  cf_PhysicalFilesOnly :: bool
  cf_SkipUnavailable :: bool
  cf_DelayBetweenAuths :: duration
  cf_TemporaryPriority :: bool
  cf_PrioritySyncTimeout :: duration
  cf_RequestTimeout :: duration

definition zero_config :: config where
  "zero_config = \<lparr> cf_HostEnabled = False, cf_ScheduleEnabled = False, cf_Timezone = [], cf_Location = None,
     cf_Times = [], cf_Model = [], cf_Message = [], cf_EntryProtocol = [], cf_ExitProtocol = [],
     cf_MaxTokens = 0, cf_Providers = [], cf_IncludeAuthIndices = [], cf_ExcludeAuthIndices = [],
     cf_PhysicalFilesOnly = False, cf_SkipUnavailable = False, cf_DelayBetweenAuths = 0,
     cf_TemporaryPriority = False, cf_PrioritySyncTimeout = 0, cf_RequestTimeout = 0 \<rparr>"

text \<open>The error text of \<^verbatim>\<open>time.ParseDuration\<close>.\<close>

definition time_quote :: "string \<Rightarrow> string" where
  "time_quote s = CHR 0x22 # concat (map (\<lambda>c.
       if digit7 c \<or> (of_char c :: nat) < 32 then CHR 0x5C # CHR ''x'' # hex_byte (of_char c)
       else if c = CHR 0x22 \<or> c = CHR 0x5C then [CHR 0x5C, c] else [c]) s) @ [CHR 0x22]"

fun duration_error_text :: "string \<Rightarrow> duration_error \<Rightarrow> string" where
  "duration_error_text s InvalidDuration = ''time: invalid duration '' @ time_quote s"
| "duration_error_text s MissingUnit = ''time: missing unit in duration '' @ time_quote s"
| "duration_error_text s (UnknownUnit u) = ''time: unknown unit '' @ time_quote u @ '' in duration '' @ time_quote s"

text \<open>One duration field: the default when blank, else the parsed text.\<close>

definition duration_field :: "string \<Rightarrow> string \<Rightarrow> duration \<Rightarrow> err + duration" where
  "duration_field name raw dflt =
     (if trim_space raw \<noteq> [] then
        (case parse_duration (trim_space raw) of
           Inl e \<Rightarrow> Inl (ErrWrap (''invalid '' @ name @ '': '') (ErrNew (duration_error_text (trim_space raw) e)))
         | Inr d \<Rightarrow> Inr d)
      else Inr dflt)"

definition default_bool :: "bool option \<Rightarrow> bool \<Rightarrow> bool" where
  "default_bool b d = (case b of None \<Rightarrow> d | Some v \<Rightarrow> v)"

definition resolve_location :: "(string \<Rightarrow> err + location) \<Rightarrow> location \<Rightarrow> string \<Rightarrow> err + location" where
  "resolve_location load_location time_local timezone =
     (if \<not> equal_fold_ascii timezone ''local'' then
        (case load_location timezone of
           Inl e \<Rightarrow> Inl (ErrWrap (''invalid timezone '' @ go_quote timezone @ '': '') e)
         | Inr l \<Rightarrow> Inr l)
      else Inr time_local)"

definition check_schedule :: "bool \<Rightarrow> daily_time list \<Rightarrow> string \<Rightarrow> string \<Rightarrow> err + unit" where
  "check_schedule enabled tms model message =
     (if enabled then
        (if tms = [] then Inl (ErrNew ''times must contain at least one daily time when schedule_enabled is true'')
         else if model = [] then Inl (ErrNew ''model is required when schedule_enabled is true'')
         else guard_err (trim_space message \<noteq> []) (ErrNew ''message is required when schedule_enabled is true''))
      else Inr ())"

definition protocol_or_default :: "string \<Rightarrow> string" where
  "protocol_or_default raw = (let p = to_lower (trim_space raw) in if p = [] then ''openai'' else p)"

text \<open>The body of \<^verbatim>\<open>ParseConfig\<close> after the document is decoded, check by check.\<close>

definition validate_config :: "(string \<Rightarrow> err + location) \<Rightarrow> location \<Rightarrow> raw_config \<Rightarrow> err + config" where
  "validate_config load_location time_local decoded =
     (if \<not> default_bool (rc_HostEnabled decoded) True then Inr (zero_config\<lparr>cf_HostEnabled := False\<rparr>)
      else
        let timezone = (let tz = trim_space (rc_Timezone decoded) in if tz = [] then ''Local'' else tz);
            maxTokens = (case rc_MaxTokens decoded of None \<Rightarrow> defaultMaxTokens | Some n \<Rightarrow> n);
            model = trim_space (rc_Model decoded);
            message = rc_Message decoded;
            entryProtocol = protocol_or_default (rc_EntryProtocol decoded);
            exitProtocol = protocol_or_default (rc_ExitProtocol decoded)
        in
        rbind (resolve_location load_location time_local timezone) (\<lambda>location.
        rbind (guard_err (\<not> (maxTokens < 1 \<or> maxTokens > 4096)) (ErrNew ''max_tokens must be between 1 and 4096'')) (\<lambda>_.
        rbind (duration_field ''delay_between_auths'' (rc_DelayBetweenAuthsRaw decoded) defaultDelayBetweenAuths) (\<lambda>delay.
        rbind (guard_err (\<not> (delay < 0 \<or> delay > hour)) (ErrNew ''delay_between_auths must be between 0 and 1h'')) (\<lambda>_.
        rbind (duration_field ''priority_sync_timeout'' (rc_PrioritySyncRaw decoded) defaultPrioritySyncTimeout) (\<lambda>sync.
        rbind (guard_err (\<not> (sync < 100 * millisecond \<or> sync > minute)) (ErrNew ''priority_sync_timeout must be between 100ms and 1m'')) (\<lambda>_.
        rbind (duration_field ''request_timeout'' (rc_RequestTimeoutRaw decoded) defaultRequestTimeout) (\<lambda>reqTimeout.
        rbind (guard_err (\<not> (reqTimeout < second \<or> reqTimeout > 30 * minute)) (ErrNew ''request_timeout must be between 1s and 30m'')) (\<lambda>_.
        rbind (normalize_times (rc_Times decoded)) (\<lambda>tms.
        rbind (guard_err (\<not> int (length message) > maxMessageBytes) (ErrNew (''message exceeds '' @ itoa maxMessageBytes @ '' bytes''))) (\<lambda>_.
        rbind (check_schedule (rc_ScheduleEnabled decoded) tms model message) (\<lambda>_.
        rbind (guard_err (entryProtocol = ''openai'') (ErrNew ''entry_protocol must be openai because the plugin emits an OpenAI Chat Completions request body'')) (\<lambda>_.
        rbind (guard_err (supported_exit_protocol exitProtocol) (ErrNew ''exit_protocol must be one of openai, openai-response, claude, gemini, codex, antigravity, or interactions'')) (\<lambda>_.
        rbind (normalize_filter_strings ''providers'' (rc_Providers decoded) True) (\<lambda>providers.
        rbind (normalize_filter_strings ''include_auth_indices'' (rc_IncludeAuthIndices decoded) False) (\<lambda>includes.
        rbind (normalize_filter_strings ''exclude_auth_indices'' (rc_ExcludeAuthIndices decoded) False) (\<lambda>excludes.
        Inr \<lparr> cf_HostEnabled = True, cf_ScheduleEnabled = rc_ScheduleEnabled decoded, cf_Timezone = timezone,
              cf_Location = Some location, cf_Times = tms, cf_Model = model, cf_Message = message,
              cf_EntryProtocol = entryProtocol, cf_ExitProtocol = exitProtocol, cf_MaxTokens = maxTokens,
              cf_Providers = providers, cf_IncludeAuthIndices = includes, cf_ExcludeAuthIndices = excludes,
              cf_PhysicalFilesOnly = default_bool (rc_PhysicalFilesOnly decoded) True,
              cf_SkipUnavailable = default_bool (rc_SkipUnavailable decoded) True,
              cf_DelayBetweenAuths = delay,
              cf_TemporaryPriority = default_bool (rc_TemporaryPriority decoded) False,
              cf_PrioritySyncTimeout = sync, cf_RequestTimeout = reqTimeout \<rparr>)))))))))))))))))"

definition parse_config ::
  "yaml_decoder \<Rightarrow> (string \<Rightarrow> err + location) \<Rightarrow> location \<Rightarrow> bytes \<Rightarrow> err + config" where
  "parse_config yaml load_location time_local raw =
     rbind (decode_raw_config yaml raw) (validate_config load_location time_local)"

section \<open>Clone, Equivalent, Summary\<close>

definition config_clone :: "config \<Rightarrow> config" where
  "config_clone c = c\<lparr> cf_Times := [] @ cf_Times c, cf_Providers := [] @ cf_Providers c,
     cf_IncludeAuthIndices := [] @ cf_IncludeAuthIndices c, cf_ExcludeAuthIndices := [] @ cf_ExcludeAuthIndices c \<rparr>"

definition equal_strings :: "string list \<Rightarrow> string list \<Rightarrow> bool" where
  "equal_strings l r \<longleftrightarrow> length l = length r \<and> list_all (\<lambda>i. l ! i = r ! i) [0..<length l]"

definition config_equivalent :: "config \<Rightarrow> config \<Rightarrow> bool" where
  "config_equivalent c d \<longleftrightarrow>
     (if cf_HostEnabled c \<noteq> cf_HostEnabled d \<or> cf_ScheduleEnabled c \<noteq> cf_ScheduleEnabled d \<or>
         cf_Timezone c \<noteq> cf_Timezone d \<or> cf_Model c \<noteq> cf_Model d \<or> cf_Message c \<noteq> cf_Message d \<or>
         cf_EntryProtocol c \<noteq> cf_EntryProtocol d \<or> cf_ExitProtocol c \<noteq> cf_ExitProtocol d \<or>
         cf_MaxTokens c \<noteq> cf_MaxTokens d \<or> cf_PhysicalFilesOnly c \<noteq> cf_PhysicalFilesOnly d \<or>
         cf_SkipUnavailable c \<noteq> cf_SkipUnavailable d \<or> cf_DelayBetweenAuths c \<noteq> cf_DelayBetweenAuths d \<or>
         cf_TemporaryPriority c \<noteq> cf_TemporaryPriority d \<or>
         cf_PrioritySyncTimeout c \<noteq> cf_PrioritySyncTimeout d \<or> cf_RequestTimeout c \<noteq> cf_RequestTimeout d
      then False
      else if length (cf_Times c) \<noteq> length (cf_Times d) \<or> length (cf_Providers c) \<noteq> length (cf_Providers d) \<or>
         length (cf_IncludeAuthIndices c) \<noteq> length (cf_IncludeAuthIndices d) \<or>
         length (cf_ExcludeAuthIndices c) \<noteq> length (cf_ExcludeAuthIndices d)
      then False
      else if \<not> list_all (\<lambda>i. cf_Times c ! i = cf_Times d ! i) [0..<length (cf_Times c)] then False
      else equal_strings (cf_Providers c) (cf_Providers d) \<and>
           equal_strings (cf_IncludeAuthIndices c) (cf_IncludeAuthIndices d) \<and>
           equal_strings (cf_ExcludeAuthIndices c) (cf_ExcludeAuthIndices d))"

record config_summary =
  cs_HostEnabled :: bool
  cs_ScheduleEnabled :: bool
  cs_Timezone :: string
  cs_Times :: "string list"
  cs_Model :: string
  cs_EntryProtocol :: string
  cs_ExitProtocol :: string
  cs_MaxTokens :: int
  cs_Providers :: "string list"
  cs_IncludeAuthIndices :: "string list"
  cs_ExcludeAuthIndices :: "string list"
  cs_PhysicalFilesOnly :: bool
  cs_SkipUnavailable :: bool
  cs_DelayBetweenAuths :: string
  cs_TemporaryPriority :: bool
  cs_PrioritySyncTimeout :: string
  cs_RequestTimeout :: string
  cs_MessageBytes :: int
  cs_MessageSHA256 :: string

definition config_summary_of :: "config \<Rightarrow> config_summary" where
  "config_summary_of c =
     \<lparr> cs_HostEnabled = cf_HostEnabled c, cs_ScheduleEnabled = cf_ScheduleEnabled c,
       cs_Timezone = cf_Timezone c, cs_Times = map dt_Text (cf_Times c), cs_Model = cf_Model c,
       cs_EntryProtocol = cf_EntryProtocol c, cs_ExitProtocol = cf_ExitProtocol c,
       cs_MaxTokens = cf_MaxTokens c, cs_Providers = cf_Providers c,
       cs_IncludeAuthIndices = cf_IncludeAuthIndices c, cs_ExcludeAuthIndices = cf_ExcludeAuthIndices c,
       cs_PhysicalFilesOnly = cf_PhysicalFilesOnly c, cs_SkipUnavailable = cf_SkipUnavailable c,
       cs_DelayBetweenAuths = duration_string (cf_DelayBetweenAuths c),
       cs_TemporaryPriority = cf_TemporaryPriority c,
       cs_PrioritySyncTimeout = duration_string (cf_PrioritySyncTimeout c),
       cs_RequestTimeout = duration_string (cf_RequestTimeout c),
       cs_MessageBytes = int (length (cf_Message c)),
       cs_MessageSHA256 = (if cf_Message c \<noteq> [] then sha256_hex (cf_Message c) else []) \<rparr>"

section \<open>Daily times: what parsing and normalising give\<close>

definition valid_daily_time :: "daily_time \<Rightarrow> bool" where
  "valid_daily_time t \<longleftrightarrow>
     0 \<le> dt_Hour t \<and> dt_Hour t \<le> 23 \<and> 0 \<le> dt_Minute t \<and> dt_Minute t \<le> 59 \<and>
     0 \<le> dt_Second t \<and> dt_Second t \<le> 59 \<and> dt_Text t = daily_text (dt_Hour t) (dt_Minute t) (dt_Second t)"

lemma parse_part_range: "parse_part value name txt lo hi = Inr v \<Longrightarrow> lo \<le> v \<and> v \<le> hi"
  by (auto simp: parse_part_def Let_def split: if_splits option.splits)

lemma parse_daily_time_valid:
  assumes "parse_daily_time value = Inr t"
  shows "valid_daily_time t"
proof -
  from assms obtain h m s p where hms: "parse_part value ''hour'' (p ! 0) 0 23 = Inr h"
      "parse_part value ''minute'' (p ! 1) 0 59 = Inr m"
      "(if length p = 3 then parse_part value ''second'' (p ! 2) 0 59 else Inr 0) = Inr s"
      "t = \<lparr> dt_Hour = h, dt_Minute = m, dt_Second = s, dt_Text = daily_text h m s \<rparr>"
    by (auto simp: parse_daily_time_def Let_def rbind_Inr_iff split: if_splits)
  then show ?thesis
    using parse_part_range [OF hms(1)] parse_part_range [OF hms(2)]
    by (auto simp: valid_daily_time_def dest: parse_part_range split: if_splits)
qed

lemma valid_seconds_range:
  "valid_daily_time t \<Longrightarrow> 0 \<le> secondsSinceMidnight t \<and> secondsSinceMidnight t < 86400"
  by (auto simp: valid_daily_time_def secondsSinceMidnight_def)

lemma hms_unique:
  fixes h m s h' m' s' :: int
  assumes "h * 3600 + m * 60 + s = h' * 3600 + m' * 60 + s'"
    "0 \<le> m" "m \<le> 59" "0 \<le> s" "s \<le> 59" "0 \<le> m'" "m' \<le> 59" "0 \<le> s'" "s' \<le> 59"
  shows "h = h' \<and> m = m' \<and> s = s'"
proof -
  have "h = h'"
  proof (rule ccontr)
    assume "h \<noteq> h'"
    then consider "h + 1 \<le> h'" | "h' + 1 \<le> h" by linarith
    then show False using assms by cases linarith+
  qed
  moreover from this have "m = m'"
  proof -
    consider "m = m'" | "m + 1 \<le> m'" | "m' + 1 \<le> m" by linarith
    then show ?thesis using assms \<open>h = h'\<close> by cases linarith+
  qed
  ultimately show ?thesis using assms(1) by linarith
qed

lemma valid_daily_time_eqI:
  assumes "valid_daily_time t" "valid_daily_time u" "secondsSinceMidnight t = secondsSinceMidnight u"
  shows "t = u"
proof -
  have "dt_Hour t * 3600 + dt_Minute t * 60 + dt_Second t = dt_Hour u * 3600 + dt_Minute u * 60 + dt_Second u"
    using assms(3) by (simp add: secondsSinceMidnight_def)
  then have "dt_Hour t = dt_Hour u \<and> dt_Minute t = dt_Minute u \<and> dt_Second t = dt_Second u"
    using assms(1,2) unfolding valid_daily_time_def by (intro hms_unique) blast+
  with assms(1,2) show ?thesis by (simp add: valid_daily_time_def)
qed

lemma zero_pad_2:
  assumes "0 \<le> n" "n \<le> 99"
  shows "zero_pad 2 n = [digit_char (nat n div 10), digit_char (nat n mod 10)]"
proof (cases "nat n < 10")
  case True
  moreover have "digit_char 0 = CHR ''0''" by code_simp
  ultimately show ?thesis using assms by (simp add: zero_pad_def Let_def nat_digits.simps [of "nat n"])
next
  case False
  moreover have "nat n div 10 < 10" using assms by simp
  ultimately show ?thesis using assms
    by (simp add: zero_pad_def Let_def nat_digits.simps [of "nat n"] nat_digits.simps [of "nat n div 10"])
qed

lemma two_digits:
  assumes "0 \<le> n" "n \<le> 59"
  shows "atoi (zero_pad 2 n) = Some n" "length (zero_pad 2 n) = 2" "list_all is_digit (zero_pad 2 n)"
proof -
  have z: "zero_pad 2 n = [digit_char (nat n div 10), digit_char (nat n mod 10)]"
    using assms by (intro zero_pad_2) simp_all
  have d: "nat n div 10 < 10" "nat n mod 10 < 10" using assms by simp_all
  then have sgn: "digit_char (nat n div 10) \<noteq> CHR ''-''" "digit_char (nat n div 10) \<noteq> CHR ''+''"
    using digit_char_props(1) [OF d(1)] by (auto simp: is_digit_def)
  have "int (10 * (nat n div 10) + nat n mod 10) = n" using assms by simp
  then show "atoi (zero_pad 2 n) = Some n"
    using sgn d assms by (simp add: z atoi_def Let_def digits_val_def digit_char_props int64_min_def int64_max_def)
  show "length (zero_pad 2 n) = 2" "list_all is_digit (zero_pad 2 n)"
    using d by (simp_all add: z digit_char_props)
qed

lemma daily_text_inj:
  assumes "daily_text h m s = daily_text h' m' s'"
    "0 \<le> h" "h \<le> 59" "0 \<le> m" "m \<le> 59" "0 \<le> s" "s \<le> 59"
    "0 \<le> h'" "h' \<le> 59" "0 \<le> m'" "m' \<le> 59" "0 \<le> s'" "s' \<le> 59"
  shows "h = h' \<and> m = m' \<and> s = s'"
proof -
  have "zero_pad 2 h = zero_pad 2 h'" "zero_pad 2 m = zero_pad 2 m'" "zero_pad 2 s = zero_pad 2 s'"
    using assms by (auto simp: daily_text_def two_digits)
  then show ?thesis using assms(2-) two_digits(1) by (metis option.inject)
qed

lemma text_determines:
  assumes "valid_daily_time t" "valid_daily_time u" "dt_Text t = dt_Text u"
  shows "t = u"
proof -
  have "dt_Hour t = dt_Hour u \<and> dt_Minute t = dt_Minute u \<and> dt_Second t = dt_Second u"
    using assms by (intro daily_text_inj) (auto simp: valid_daily_time_def)
  with assms show ?thesis by (simp add: valid_daily_time_def)
qed

lemma normalize_times_loop_props:
  "normalize_times_loop seen values = Inr ts \<Longrightarrow>
     (\<forall>t \<in> set ts. valid_daily_time t) \<and> distinct (map dt_Text ts) \<and>
     set (map dt_Text ts) \<inter> set seen = {} \<and> length ts \<le> length values \<and>
     (\<forall>v \<in> set values. \<exists>t. parse_daily_time v = Inr t \<and> (dt_Text t \<in> set seen \<or> t \<in> set ts)) \<and>
     (\<forall>t \<in> set ts. \<exists>v \<in> set values. parse_daily_time v = Inr t)"
proof (induction seen "values" arbitrary: ts rule: normalize_times_loop.induct)
  case (1 seen)
  then show ?case by simp
next
  case (2 seen v vs)
  from "2.prems" obtain t where t: "parse_daily_time v = Inr t"
    by (auto simp: rbind_Inr_iff)
  note valid = parse_daily_time_valid [OF t]
  show ?case
  proof (cases "dt_Text t \<in> set seen")
    case True
    with "2.prems" t have "normalize_times_loop seen vs = Inr ts" by simp
    from "2.IH"(1) [OF True this] True t show ?thesis by (auto intro: le_SucI)
  next
    case False
    with "2.prems" t obtain ts' where ts': "normalize_times_loop (dt_Text t # seen) vs = Inr ts'" "ts = t # ts'"
      by (auto simp: rbind_Inr_iff)
    have eq: "u = t" if "parse_daily_time w = Inr u" "dt_Text u = dt_Text t" for u w
      using parse_daily_time_valid [OF that(1)] valid that(2) by (rule text_determines)
    have cover: "\<exists>u. parse_daily_time w = Inr u \<and> (dt_Text u \<in> set seen \<or> u \<in> set ts)" if "w \<in> set vs" for w
      using "2.IH"(2) [OF False ts'(1)] ts'(2) that eq by (metis list.set_intros set_ConsD)
    from "2.IH"(2) [OF False ts'(1)] ts'(2) valid t False cover show ?thesis by auto
  qed
qed

lemma normalize_times_loop_distinct_seconds:
  assumes "normalize_times_loop seen values = Inr ts"
  shows "distinct (map secondsSinceMidnight ts)"
proof -
  have "inj_on secondsSinceMidnight (set ts)"
    using normalize_times_loop_props [OF assms] by (auto intro!: inj_onI valid_daily_time_eqI)
  moreover have "distinct ts"
    using normalize_times_loop_props [OF assms] distinct_map by blast
  ultimately show ?thesis by (simp add: distinct_map)
qed

lemma strict_sorted_keys:
  "sorted (map f xs) \<Longrightarrow> distinct (map f xs) \<Longrightarrow> sorted_wrt (<) (map f xs)"
  by (simp add: strict_sorted_iff)

lemma normalize_times_props:
  assumes "normalize_times values = Inr ts"
  shows "sorted_wrt (<) (map secondsSinceMidnight ts)"
    "\<And>t. t \<in> set ts \<Longrightarrow> valid_daily_time t"
    "set ts = {t. \<exists>v \<in> set values. parse_daily_time v = Inr t}"
    "length ts \<le> maxTimePoints"
proof -
  from assms obtain us where us: "normalize_times_loop [] values = Inr us"
      "ts = sort_key secondsSinceMidnight us" "length values \<le> maxTimePoints"
    by (auto simp: normalize_times_def rbind_Inr_iff split: if_splits)
  note p = normalize_times_loop_props [OF us(1)]
  have "distinct (map secondsSinceMidnight ts)"
    using normalize_times_loop_distinct_seconds [OF us(1)] us(2) by (simp add: distinct_map)
  then show "sorted_wrt (<) (map secondsSinceMidnight ts)"
    using us(2) by (intro strict_sorted_keys) simp_all
  show "\<And>t. t \<in> set ts \<Longrightarrow> valid_daily_time t" using p us(2) by auto
  show "set ts = {t. \<exists>v \<in> set values. parse_daily_time v = Inr t}"
    using p us(2) by (auto; metis sum.inject(2))
  show "length ts \<le> maxTimePoints" using p us by simp
qed

lemma split_on_append:
  "sep \<notin> set a \<Longrightarrow> split_on sep (a @ sep # b) = a # split_on sep b"
  by (induction a) auto

lemma split_on_none: "sep \<notin> set a \<Longrightarrow> split_on sep a = [a]"
  by (induction a) auto

lemma join_split: "join_with [sep] (split_on sep s) = s"
proof (induction s)
  case (Cons c cs)
  show ?case
  proof (cases "split_on sep cs")
    case Nil
    then show ?thesis using split_on_nonempty by blast
  next
    case (Cons p ps)
    with Cons.IH show ?thesis by (cases ps) auto
  qed
qed simp

lemma split_on_parts: "p \<in> set (split_on sep s) \<Longrightarrow> sep \<notin> set p"
proof (induction s arbitrary: p)
  case (Cons c cs)
  then show ?case by (cases "split_on sep cs") (auto split: if_splits)
qed simp

lemma digit_not_space: "is_digit c \<Longrightarrow> \<not> digit7 c \<and> \<not> ascii_space c"
proof -
  assume "is_digit c"
  then have n: "48 \<le> (of_char c :: nat)" "(of_char c :: nat) \<le> 57" by (auto simp: is_digit_def)
  have "\<not> digit7 c"
  proof
    assume "digit7 c"
    then have "128 \<le> (of_char c :: nat)" by (cases c) simp
    with n show False by simp
  qed
  moreover have "\<not> ascii_space c" using n by (auto simp: ascii_space_def)
  ultimately show ?thesis by simp
qed

lemma trim_front_digit: "is_digit c \<Longrightarrow> trim_front ws (c # s) = c # s"
  using digit_not_space [of c] by (simp add: trim_front_fix space_len_def)

lemma trim_space_digits:
  assumes "is_digit c" "is_digit d" "s = c # t" "s = u @ [d]"
  shows "trim_space s = s"
proof -
  have "trim_left s = s" using assms(1,3) by (simp add: trim_left_def trim_front_digit)
  moreover have "trim_right s = s" using assms(2,4) by (simp add: trim_right_def trim_front_digit)
  ultimately show ?thesis by (simp add: trim_space_def)
qed

lemma colon_not_digit: "list_all is_digit s \<Longrightarrow> CHR '':'' \<notin> set s"
  by (auto simp: list_all_iff is_digit_def)

lemma two_digits_ends:
  assumes "0 \<le> n" "n \<le> 59"
  obtains c d where "zero_pad 2 n = [c, d]" "is_digit c" "is_digit d"
proof -
  from two_digits(2) [OF assms] obtain c d where "zero_pad 2 n = [c, d]"
    by (auto simp: length_Suc_conv numeral_2_eq_2)
  with two_digits(3) [OF assms] that show ?thesis by simp
qed

lemma parse_daily_text:
  assumes "0 \<le> h" "h \<le> 23" "0 \<le> m" "m \<le> 59" "0 \<le> s" "s \<le> 59"
  shows "parse_daily_time (daily_text h m s)
       = Inr \<lparr> dt_Hour = h, dt_Minute = m, dt_Second = s, dt_Text = daily_text h m s \<rparr>"
proof -
  have h: "0 \<le> h" "h \<le> 59" using assms by auto
  obtain a b where hd: "zero_pad 2 h = [a, b]" "is_digit a" "is_digit b" by (rule two_digits_ends [OF h])
  obtain c d where md: "zero_pad 2 m = [c, d]" "is_digit c" "is_digit d" by (rule two_digits_ends [OF assms(3,4)])
  obtain e f where sd: "zero_pad 2 s = [e, f]" "is_digit e" "is_digit f" by (rule two_digits_ends [OF assms(5,6)])
  have ne: "CHR '':'' \<noteq> x" if "is_digit x" for x using that by (auto simp: is_digit_def)
  have "trim_space (daily_text h m s) = daily_text h m s"
    by (rule trim_space_digits [of a f _ "b # '':'' @ [c, d] @ '':'' @ [e, f]" "[a, b] @ '':'' @ [c, d] @ '':'' @ [e]"])
      (simp_all add: daily_text_def hd md sd)
  moreover have "split_on (CHR '':'') (daily_text h m s) = [zero_pad 2 h, zero_pad 2 m, zero_pad 2 s]"
    using ne [OF hd(2)] ne [OF hd(3)] ne [OF md(2)] ne [OF md(3)] ne [OF sd(2)] ne [OF sd(3)]
    by (simp add: daily_text_def hd(1) md(1) sd(1))
  ultimately show ?thesis
    using two_digits [OF h] two_digits [OF assms(3,4)] two_digits [OF assms(5,6)] assms
    by (simp add: parse_daily_time_def parse_part_def Let_def)
qed

section \<open>What a parsed configuration guarantees\<close>

definition filter_list_ok :: "string list \<Rightarrow> bool" where
  "filter_list_ok xs \<longleftrightarrow> distinct xs \<and> [] \<notin> set xs"

definition config_ok :: "config \<Rightarrow> bool" where
  "config_ok c \<longleftrightarrow>
     cf_Location c \<noteq> None \<and> cf_Timezone c \<noteq> [] \<and>
     1 \<le> cf_MaxTokens c \<and> cf_MaxTokens c \<le> 4096 \<and>
     0 \<le> cf_DelayBetweenAuths c \<and> cf_DelayBetweenAuths c \<le> hour \<and>
     100 * millisecond \<le> cf_PrioritySyncTimeout c \<and> cf_PrioritySyncTimeout c \<le> minute \<and>
     second \<le> cf_RequestTimeout c \<and> cf_RequestTimeout c \<le> 30 * minute \<and>
     (\<forall>t \<in> set (cf_Times c). valid_daily_time t) \<and>
     sorted_wrt (<) (map secondsSinceMidnight (cf_Times c)) \<and> length (cf_Times c) \<le> maxTimePoints \<and>
     int (length (cf_Message c)) \<le> maxMessageBytes \<and>
     trim_space (cf_Model c) = cf_Model c \<and>
     cf_EntryProtocol c = ''openai'' \<and> supported_exit_protocol (cf_ExitProtocol c) \<and>
     filter_list_ok (cf_Providers c) \<and> filter_list_ok (cf_IncludeAuthIndices c) \<and>
     filter_list_ok (cf_ExcludeAuthIndices c) \<and>
     (cf_ScheduleEnabled c \<longrightarrow> cf_Times c \<noteq> [] \<and> cf_Model c \<noteq> [] \<and> trim_space (cf_Message c) \<noteq> [])"

definition norm_string :: "bool \<Rightarrow> string \<Rightarrow> string" where
  "norm_string lower v = (if lower then to_lower (trim_space v) else trim_space v)"

lemma normalize_strings_loop_eq:
  "normalize_strings_loop seen lower vs = dedup seen (filter (\<lambda>v. v \<noteq> []) (map (norm_string lower) vs))"
  by (induction seen lower vs rule: normalize_strings_loop.induct) (simp_all add: Let_def norm_string_def)

lemma normalize_strings_eq:
  "normalize_strings vs lower = dedup [] (filter (\<lambda>v. v \<noteq> []) (map (norm_string lower) vs))"
  by (simp add: normalize_strings_def normalize_strings_loop_eq)

lemma normalize_filter_strings_ok:
  "normalize_filter_strings name vs lower = Inr ws \<Longrightarrow> filter_list_ok ws"
  by (auto simp: normalize_filter_strings_def normalize_strings_eq filter_list_ok_def Let_def
      distinct_dedup set_dedup split: if_splits)

lemma check_schedule_ok:
  "check_schedule en tms model message = Inr u \<Longrightarrow> en \<Longrightarrow> tms \<noteq> [] \<and> model \<noteq> [] \<and> trim_space message \<noteq> []"
  by (auto simp: check_schedule_def split: if_splits)

lemma validate_config_enabled:
  assumes "validate_config load loc raw = Inr c" "cf_HostEnabled c"
  shows "default_bool (rc_HostEnabled raw) True"
proof (rule ccontr)
  assume "\<not> default_bool (rc_HostEnabled raw) True"
  with assms show False by (auto simp: validate_config_def zero_config_def)
qed

lemma validate_config_ok:
  assumes "validate_config load loc raw = Inr c" "cf_HostEnabled c"
  shows "config_ok c"
  using assms(1) validate_config_enabled [OF assms]
  unfolding validate_config_def Let_def not_not if_not_P
  apply (simp only: if_True if_False simp_thms rbind_Inr_iff guard_err_Inr sum.inject)
  apply (elim exE conjE)
  apply hypsubst
  apply (simp only: config_ok_def config.simps option.distinct option.simps not_False_eq_True simp_thms)
  apply (intro conjI impI)
  apply (auto dest: normalize_filter_strings_ok normalize_times_props check_schedule_ok)
  done

section \<open>Comparison\<close>

lemma equal_strings_iff: "equal_strings l r \<longleftrightarrow> l = r"
  by (auto simp: equal_strings_def list_all_iff intro: nth_equalityI)

lemma daily_times_compare:
  "(length ts = length us \<and> list_all (\<lambda>i. ts ! i = us ! i) [0..<length ts]) \<longleftrightarrow> ts = us"
  by (auto simp: list_all_iff intro: nth_equalityI)

lemma config_equivalentD:
  assumes "config_equivalent c d"
  shows "c\<lparr>cf_Location := None\<rparr> = d\<lparr>cf_Location := None\<rparr>"
proof -
  have "cf_Times c = cf_Times d"
    using assms unfolding daily_times_compare [symmetric] by (simp add: config_equivalent_def split: if_splits)
  then show ?thesis
    using assms by (intro config.equality) (simp_all add: config_equivalent_def equal_strings_iff split: if_splits)
qed

lemma config_equivalent_location: "config_equivalent c (c\<lparr>cf_Location := l\<rparr>)"
  by (simp add: config_equivalent_def equal_strings_iff list_all_iff)

lemma config_equivalent_iff:
  "config_equivalent c d \<longleftrightarrow> c\<lparr>cf_Location := None\<rparr> = d\<lparr>cf_Location := None\<rparr>"
proof
  assume eq: "c\<lparr>cf_Location := None\<rparr> = d\<lparr>cf_Location := None\<rparr>"
  have "d = (d\<lparr>cf_Location := None\<rparr>)\<lparr>cf_Location := cf_Location d\<rparr>" by simp
  also have "\<dots> = c\<lparr>cf_Location := cf_Location d\<rparr>" by (simp only: eq [symmetric] config.update_convs) simp
  finally show "config_equivalent c d" by (metis config_equivalent_location)
qed (rule config_equivalentD)

lemma config_clone_id [simp]: "config_clone c = c"
  by (simp add: config_clone_def)

section \<open>Normal forms of the filter lists\<close>

lemma norm_string_idem: "norm_string False (norm_string False v) = norm_string False v"
  by (simp add: norm_string_def)

lemma normalize_strings_idem:
  "normalize_strings (normalize_strings vs False) False = normalize_strings vs False"
proof -
  let ?ws = "filter (\<lambda>v. v \<noteq> []) (map (norm_string False) vs)"
  have "map (norm_string False) (dedup [] ?ws) = dedup [] ?ws"
    by (rule map_idI) (auto simp: set_dedup norm_string_idem)
  moreover have "filter (\<lambda>v. v \<noteq> []) (dedup [] ?ws) = dedup [] ?ws"
    by (rule filter_True) (auto simp: set_dedup)
  ultimately show ?thesis by (simp add: normalize_strings_eq)
qed

lemma set_normalize_strings:
  "set (normalize_strings vs lower) = norm_string lower ` set vs - {[]}"
  by (auto simp: normalize_strings_eq set_dedup)

section \<open>Properties\<close>

lemma normalize_times_loop_total:
  "(\<And>v. v \<in> set vs \<Longrightarrow> \<exists>t. parse_daily_time v = Inr t) \<Longrightarrow> \<exists>ts. normalize_times_loop seen vs = Inr ts"
proof (induction vs arbitrary: seen)
  case (Cons v vs)
  from Cons.prems obtain t where t: "parse_daily_time v = Inr t" by force
  have "\<exists>ts. normalize_times_loop s vs = Inr ts" for s using Cons by simp
  then show ?case using t by (cases "dt_Text t \<in> set seen") (simp_all, metis rbind_simps(2))
qed simp

lemma normalize_times_total:
  assumes "length vs \<le> maxTimePoints" "\<And>v. v \<in> set vs \<Longrightarrow> \<exists>t. parse_daily_time v = Inr t"
  shows "\<exists>ts. normalize_times vs = Inr ts"
  using normalize_times_loop_total [OF assms(2)] assms(1)
  by (metis normalize_times_def not_less rbind_simps(2))

lemma strictly_sorted_set_unique:
  fixes f :: "'a \<Rightarrow> 'b::linorder"
  assumes "set xs = set ys" "sorted_wrt (<) (map f xs)" "sorted_wrt (<) (map f ys)"
  shows "xs = ys"
proof -
  have "sorted (map f xs)" "distinct (map f xs)" "sorted (map f ys)" "distinct (map f ys)"
    using assms(2,3) by (simp_all add: strict_sorted_iff)
  then show ?thesis using assms(1)
    by (intro sorted_key_unique [of f]) (simp_all add: set_eq_iff_mset_eq_distinct [symmetric] distinct_map)
qed

lemma collect_parsed:
  fixes f :: "'a \<Rightarrow> 'e + 'b"
  assumes all: "\<forall>v \<in> S. \<exists>t. f v = Inr t"
  shows "Inr ` {t. \<exists>v \<in> S. f v = Inr t} = f ` S"
proof (intro equalityI subsetI)
  fix x :: "'e + 'b" assume "x \<in> Inr ` {t. \<exists>v \<in> S. f v = Inr t}"
  then obtain t v where "x = Inr t" "v \<in> S" "f v = Inr t" by blast
  then show "x \<in> f ` S" by (metis image_eqI)
next
  fix x :: "'e + 'b" assume "x \<in> f ` S"
  then obtain v where v: "v \<in> S" "x = f v" by blast
  with all obtain t where "f v = Inr t" by blast
  with v show "x \<in> Inr ` {t. \<exists>v \<in> S. f v = Inr t}" by auto
qed

text \<open>C30. Every configuration \<^verbatim>\<open>ParseConfig\<close> accepts for an enabled host is within all the documented bounds:
  the location is resolved, the durations and the token count are in range, the daily times are
  valid and strictly increasing, the protocols are supported, the filter lists have no blank and
  no repeated entry, and a schedule that is on has times, a model and a message.\<close>

theorem parse_config_sound:
  assumes "parse_config yaml load_location time_local raw = Inr c" "cf_HostEnabled c"
  shows "config_ok c"
  using assms by (auto simp: parse_config_def rbind_Inr_iff intro: validate_config_ok)

text \<open>\<^verbatim>\<open>normalizeTimes\<close> accepts exactly the lists of at most 64 entries that all parse, and returns
  the parsed times without repetition in ascending order.\<close>

theorem normalize_times_spec:
  "normalize_times vs = Inr ts \<longleftrightarrow>
     length vs \<le> maxTimePoints \<and> Inr ` set ts = parse_daily_time ` set vs \<and>
     sorted_wrt (<) (map secondsSinceMidnight ts)" (is "?L \<longleftrightarrow> ?R")
proof
  assume L: ?L
  note p = normalize_times_props [OF L]
  have "normalize_times_loop [] vs \<noteq> Inl e" for e using L by (auto simp: normalize_times_def split: if_splits)
  with L obtain us where us: "normalize_times_loop [] vs = Inr us" "length vs \<le> maxTimePoints"
    by (auto simp: normalize_times_def rbind_Inr_iff split: if_splits)
  have "\<forall>v \<in> set vs. \<exists>t. parse_daily_time v = Inr t" using normalize_times_loop_props [OF us(1)] by blast
  then have "Inr ` set ts = parse_daily_time ` set vs" unfolding p(3) by (rule collect_parsed)
  with p(1) us(2) show ?R by simp
next
  assume R: ?R
  have parses: "\<exists>t. parse_daily_time v = Inr t" if "v \<in> set vs" for v
  proof -
    have "parse_daily_time v \<in> Inr ` set ts" using R that by (metis imageI)
    then show ?thesis by (elim imageE) simp
  qed
  have "length vs \<le> maxTimePoints" using R by (rule conjunct1)
  then obtain us where us: "normalize_times vs = Inr us" using normalize_times_total [OF _ parses] by metis
  note p = normalize_times_props [OF us]
  have "Inr ` set us = parse_daily_time ` set vs" unfolding p(3) using parses by (intro collect_parsed) blast
  with R have "set ts = set us" by (metis inj_Inr inj_image_eq_iff)
  then have "ts = us" using R p(1) by (intro strictly_sorted_set_unique [of _ _ secondsSinceMidnight]) simp_all
  with us show ?L by simp
qed

text \<open>\<^verbatim>\<open>parseDailyTime\<close> is canonical: what it accepts is a time of day whose text parses back to itself,
  and two inputs with the same text are the same time.\<close>

theorem parse_daily_time_canonical:
  assumes "parse_daily_time v = Inr t"
  shows "valid_daily_time t \<and> parse_daily_time (dt_Text t) = Inr t \<and>
         (parse_daily_time w = Inr u \<and> dt_Text u = dt_Text t \<longrightarrow> u = t)"
proof -
  have v: "valid_daily_time t" by (rule parse_daily_time_valid [OF assms])
  then have "parse_daily_time (dt_Text t) = Inr t"
    using parse_daily_text [of "dt_Hour t" "dt_Minute t" "dt_Second t"] by (simp add: valid_daily_time_def)
  with v show ?thesis using parse_daily_time_valid text_determines by blast
qed

text \<open>\<^verbatim>\<open>Equivalent\<close> holds exactly when the two configurations agree in every field but the resolved
  location, so a reload that changes nothing else keeps the scheduler.\<close>

theorem config_equivalent_exact:
  "config_equivalent c d \<longleftrightarrow> c\<lparr>cf_Location := None\<rparr> = d\<lparr>cf_Location := None\<rparr>"
  by (rule config_equivalent_iff)

text \<open>\<^verbatim>\<open>normalizeFilterStrings\<close> fails exactly when a list is given whose entries are all blank, and
  otherwise returns the set of the trimmed non-blank entries, each once.\<close>

theorem normalize_filter_strings_spec:
  "normalize_filter_strings name vs lower =
     (if vs \<noteq> [] \<and> norm_string lower ` set vs = {[]}
      then Inl (ErrNew (name @ '' must contain at least one non-empty value when specified''))
      else Inr (normalize_strings vs lower)) \<and>
   set (normalize_strings vs lower) = norm_string lower ` set vs - {[]} \<and>
   distinct (normalize_strings vs lower)"
proof -
  have "normalize_strings vs lower = [] \<longleftrightarrow> norm_string lower ` set vs \<subseteq> {[]}"
    using set_normalize_strings [of vs lower] by (metis Diff_eq_empty_iff set_empty)
  then have "vs \<noteq> [] \<and> normalize_strings vs lower = [] \<longleftrightarrow> vs \<noteq> [] \<and> norm_string lower ` set vs = {[]}"
    by (cases vs) auto
  moreover have "distinct (normalize_strings vs lower)" by (simp add: normalize_strings_eq distinct_dedup)
  ultimately show ?thesis
    by (simp add: normalize_filter_strings_def Let_def set_normalize_strings)
qed

section \<open>Examples\<close>

definition sample_raw :: raw_config where
  "sample_raw = zero_raw_config\<lparr> rc_ScheduleEnabled := True, rc_Times := [''08:30:00'', ''07:05:00''],
     rc_Model := ''m'', rc_Message := ''hi'' \<rparr>"

definition sample_location :: location where
  "sample_location = fixed_zone ''UTC'' 0"

definition sample_parse :: "err + config" where
  "sample_parse = parse_config (\<lambda>_. (Inr sample_raw, YamlEOF)) (\<lambda>_. Inl ErrStopped) sample_location ''x''"

lemma sample_times:
  "normalize_times [''08:30:00'', ''07:05:00''] =
     Inr [\<lparr>dt_Hour = 7, dt_Minute = 5, dt_Second = 0, dt_Text = ''07:05:00''\<rparr>,
          \<lparr>dt_Hour = 8, dt_Minute = 30, dt_Second = 0, dt_Text = ''08:30:00''\<rparr>]"
  by code_simp

lemma sample_fields:
  "equal_fold_ascii ''Local'' ''local''" "trim_space ''m'' = ''m''" "trim_space ''hi'' = ''hi''" "trim_space ''x'' = ''x''"
  "protocol_or_default [] = ''openai''" "trim_space [] = []" "normalize_filter_strings nm [] lower = Inr []"
  by code_simp+

lemma sample_parse_enabled: "\<exists>c. sample_parse = Inr c \<and> cf_HostEnabled c \<and> length (cf_Times c) = 2"
  by (simp add: sample_parse_def parse_config_def decode_raw_config_def sample_raw_def zero_raw_config_def
      validate_config_def default_bool_def sample_fields resolve_location_def duration_field_def Let_def
      sample_times check_schedule_def supported_exit_protocol_def config_constants go_simps
      nanosecond_def microsecond_def millisecond_def second_def minute_def hour_def)

lemma parse_config_sound_witness: "\<exists>c. sample_parse = Inr c \<and> config_ok c \<and> length (cf_Times c) = 2"
  using sample_parse_enabled parse_config_sound unfolding sample_parse_def by blast

lemma parse_daily_time_canonical_witness:
  "valid_daily_time \<lparr>dt_Hour = 7, dt_Minute = 5, dt_Second = 0, dt_Text = ''07:05:00''\<rparr>"
proof -
  have "parse_daily_time ''7:05'' = Inr \<lparr>dt_Hour = 7, dt_Minute = 5, dt_Second = 0, dt_Text = ''07:05:00''\<rparr>"
    by code_simp
  then show ?thesis by (rule parse_daily_time_canonical [THEN conjunct1])
qed

end
