(* ===== verification/Schedule.thy ===== *)
theory Schedule imports Plugin_Config begin

text \<open>
  \<^verbatim>\<open>internal/refreshquota/schedule.go\<close>: the next daily occurrence in a location and the key that
  identifies an occurrence. The location is any value of \<open>location\<close>; \<open>zone_ok\<close> states what a zone
  table promises (spans, bounded offsets, transitions apart), and the theory shows for which
  wall-clock times the scheduler then finds an instant.
\<close>

section \<open>Definitions\<close>

definition item_candidate :: "location \<Rightarrow> wall_clock \<Rightarrow> daily_time \<Rightarrow> instant" where
  "item_candidate l day item =
     go_date (wc_year day) (wc_month day) (wc_day day) (dt_Hour item) (dt_Minute item) (dt_Second item) 0 l"

definition wall_matches :: "wall_clock \<Rightarrow> wall_clock \<Rightarrow> daily_time \<Rightarrow> bool" where
  "wall_matches wall day item \<longleftrightarrow>
     \<not> (wc_year wall \<noteq> wc_year day \<or> wc_month wall \<noteq> wc_month day \<or> wc_day wall \<noteq> wc_day day \<or>
        wc_hour wall \<noteq> dt_Hour item \<or> wc_minute wall \<noteq> dt_Minute item \<or> wc_second wall \<noteq> dt_Second item)"

fun best_of_day :: "instant \<Rightarrow> location \<Rightarrow> wall_clock \<Rightarrow> daily_time list \<Rightarrow> instant \<Rightarrow> string \<Rightarrow> instant \<times> string" where
  "best_of_day now l day [] best bestLabel = (best, bestLabel)"
| "best_of_day now l day (item # items) best bestLabel =
     (let candidate = item_candidate l day item; wall = wall_in l candidate
      in if \<not> wall_matches wall day item then best_of_day now l day items best bestLabel
         else if candidate > now \<and> (best = zero_time \<or> candidate < best)
         then best_of_day now l day items candidate (dt_Text item)
         else best_of_day now l day items best bestLabel)"

fun next_day_loop :: "instant \<Rightarrow> location \<Rightarrow> daily_time list \<Rightarrow> nat \<Rightarrow> nat \<Rightarrow> (instant \<times> string) option" where
  "next_day_loop now l items dayOffset 0 = None"
| "next_day_loop now l items dayOffset (Suc left) =
     (let day = wall_in l (add_days l now (int dayOffset));
          (best, bestLabel) = best_of_day now l day items zero_time []
      in if best \<noteq> zero_time then Some (best, bestLabel)
         else next_day_loop now l items (dayOffset + 1) left)"

definition next_occurrence :: "instant \<Rightarrow> location option \<Rightarrow> daily_time list \<Rightarrow> (instant \<times> string) option" where
  "next_occurrence now lo items =
     (case lo of None \<Rightarrow> None
      | Some l \<Rightarrow> if items = [] then None else next_day_loop now l items 0 370)"

definition occurrence_id :: "location \<Rightarrow> instant \<Rightarrow> location option \<Rightarrow> string \<Rightarrow> string" where
  "occurrence_id time_local at lo label =
     (let l = (case lo of None \<Rightarrow> time_local | Some l \<Rightarrow> l);
          w = wall_in l at
      in zero_pad 4 (wc_year w) @ ''-'' @ zero_pad 2 (wc_month w) @ ''-'' @ zero_pad 2 (wc_day w) @ ''|'' @
         label @ ''|'' @ loc_name l)"

section \<open>Wall clocks and local seconds\<close>

lemma wall_in_fields:
  "civil_from_days (local_seconds l t div 86400) = (wc_year (wall_in l t), wc_month (wall_in l t), wc_day (wall_in l t))"
  "wc_hour (wall_in l t) * 3600 + wc_minute (wall_in l t) * 60 + wc_second (wall_in l t) = local_seconds l t mod 86400"
  by (auto simp: wall_in_def Let_def time_of_day_split split: prod.splits)

lemma wall_days: "days_from_civil (wc_year (wall_in l t)) (wc_month (wall_in l t)) (wc_day (wall_in l t)) = local_seconds l t div 86400"
  by (rule days_from_civil_from_days, rule wall_in_fields)

lemma minute_second_range:
  "0 \<le> wc_minute (wall_in l t) \<and> wc_minute (wall_in l t) \<le> 59 \<and> 0 \<le> wc_second (wall_in l t) \<and> wc_second (wall_in l t) \<le> 59"
proof -
  have "x mod 60 \<le> 59" for x :: int using pos_mod_bound [of 60 x] by simp
  then show ?thesis by (simp add: wall_in_def Let_def split: prod.splits)
qed

lemma wall_matches_iff:
  assumes "valid_daily_time item"
  shows "wall_matches (wall_in l t) (wall_in l' u) item \<longleftrightarrow>
         local_seconds l t = local_seconds l' u div 86400 * 86400 + secondsSinceMidnight item" (is "?L \<longleftrightarrow> ?R")
proof
  assume L: ?L
  then have "local_seconds l t div 86400 = local_seconds l' u div 86400"
    using wall_days [of l t] wall_days [of l' u] by (simp add: wall_matches_def)
  moreover have "local_seconds l t mod 86400 = secondsSinceMidnight item"
    using L wall_in_fields(2) [of l t] by (simp add: wall_matches_def secondsSinceMidnight_def)
  ultimately show ?R by (metis div_mult_mod_eq)
next
  assume R: ?R
  have s: "0 \<le> secondsSinceMidnight item" "secondsSinceMidnight item < 86400"
    using valid_seconds_range [OF assms] by simp_all
  have d: "local_seconds l t div 86400 = local_seconds l' u div 86400"
    and m: "local_seconds l t mod 86400 = secondsSinceMidnight item"
    using s by (simp_all add: R)
  have "wc_hour (wall_in l t) = dt_Hour item \<and> wc_minute (wall_in l t) = dt_Minute item \<and> wc_second (wall_in l t) = dt_Second item"
    using wall_in_fields(2) [of l t] m assms minute_second_range [of l t]
    by (intro hms_unique) (auto simp: secondsSinceMidnight_def valid_daily_time_def)
  then show ?L using wall_in_fields(1) [of l t] wall_in_fields(1) [of l' u] d by (simp add: wall_matches_def)
qed

definition day_number :: "location \<Rightarrow> instant \<Rightarrow> int" where
  "day_number l t = local_seconds l t div 86400"

text \<open>The wall-clock seconds an item names on a day.\<close>

definition item_seconds :: "int \<Rightarrow> daily_time \<Rightarrow> int" where
  "item_seconds z item = z * 86400 + secondsSinceMidnight item"

definition resolve_seconds :: "location \<Rightarrow> int \<Rightarrow> int" where
  "resolve_seconds l unix =
     (let (off, st, en) = loc_lookup l unix; utc = unix - off
      in if off = 0 \<or> (st \<le> utc \<and> utc < en) then utc else unix - loc_offset l utc)"

lemma go_date_wall:
  assumes "day = wall_in l u"
  shows "go_date (wc_year day) (wc_month day) (wc_day day + n) h mi s ns l'
       = resolve_seconds l' ((day_number l u + n) * 86400 + h * 3600 + mi * 60 + s) * nanos + ns"
proof -
  have "1 \<le> wc_month day \<and> wc_month day \<le> 12"
    using civil_month_range [OF wall_in_fields(1) [of l u]] assms by simp
  then have "(wc_month day - 1) div 12 = 0" "(wc_month day - 1) mod 12 = wc_month day - 1" by simp_all
  moreover have "days_from_civil (wc_year day) (wc_month day) (wc_day day) = day_number l u"
    using assms by (simp add: wall_days day_number_def)
  ultimately show ?thesis
    by (simp add: go_date_def Let_def days_from_civil_shift resolve_seconds_def split: prod.splits)
qed

lemma item_candidate_eq:
  "item_candidate l (wall_in l u) item = resolve_seconds l (item_seconds (day_number l u) item) * nanos"
  using go_date_wall [OF refl, of l u 0]
  by (simp add: item_candidate_def item_seconds_def secondsSinceMidnight_def algebra_simps)

lemma local_seconds_whole: "local_seconds l (t * nanos) = t + loc_offset l t"
  by (simp add: local_seconds_def nanos_def)

definition accepted :: "location \<Rightarrow> int \<Rightarrow> daily_time \<Rightarrow> bool" where
  "accepted l z item \<longleftrightarrow>
     (let t = resolve_seconds l (item_seconds z item) in t + loc_offset l t = item_seconds z item)"

lemma wall_matches_accepted:
  assumes "valid_daily_time item"
  shows "wall_matches (wall_in l (item_candidate l (wall_in l u) item)) (wall_in l u) item
     \<longleftrightarrow> accepted l (day_number l u) item"
  unfolding wall_matches_iff [OF assms] item_candidate_eq local_seconds_whole
  by (simp add: accepted_def Let_def item_seconds_def day_number_def)

section \<open>Zone tables\<close>

text \<open>
  What a zone's \<^verbatim>\<open>lookup\<close> promises on a range of instants: the returned span contains the instant
  and has one offset, offsets are bounded, and inner spans are longer than twice that bound.
\<close>

locale zone_rules =
  fixes look :: "int \<Rightarrow> int \<times> int \<times> int" and lo hi bound :: int
  assumes bound_nonneg: "0 \<le> bound"
    and span_at: "lo \<le> t \<Longrightarrow> t < hi \<Longrightarrow> look t = (off, st, en) \<Longrightarrow> st \<le> t \<and> t < en \<and> \<bar>off\<bar> \<le> bound"
    and span_const: "lo \<le> t \<Longrightarrow> t < hi \<Longrightarrow> lo \<le> u \<Longrightarrow> u < hi \<Longrightarrow>
      look t = (off, st, en) \<Longrightarrow> st \<le> u \<Longrightarrow> u < en \<Longrightarrow> look u = look t"
    and span_long: "lo \<le> t \<Longrightarrow> t < hi \<Longrightarrow> look t = (off, st, en) \<Longrightarrow> st \<le> lo \<or> hi \<le> en \<or> 2 * bound < en - st"
begin

lemma middle_span:
  assumes "lo \<le> a" "a \<le> m" "m \<le> b" "b < hi" "b - a \<le> 2 * bound"
  shows "look m = look a \<or> look m = look b"
proof -
  obtain off st en where m: "look m = (off, st, en)" by (cases "look m")
  have at: "st \<le> m" "m < en" using span_at [OF _ _ m] assms by auto
  consider "st \<le> a" | "b < en" | "a < st" "en \<le> b" by linarith
  then show ?thesis
  proof cases
    case 1
    then have "look a = look m" using span_const [OF _ _ _ _ m, of a] assms at by simp
    then show ?thesis by simp
  next
    case 2
    then have "look b = look m" using span_const [OF _ _ _ _ m, of b] assms at by simp
    then show ?thesis by simp
  next
    case 3
    with span_long [OF _ _ m] assms show ?thesis by auto
  qed
qed

lemma middle_triple:
  assumes "lo \<le> x" "x < hi" "lo \<le> y" "y < hi" "lo \<le> z" "z < hi"
    "\<bar>x - y\<bar> \<le> 2 * bound" "\<bar>x - z\<bar> \<le> bound" "\<bar>y - z\<bar> \<le> bound"
  shows "look x = look y \<or> look z = look x \<or> look z = look y"
proof -
  have close: "x - y \<le> 2 * bound" "y - x \<le> 2 * bound" "x - z \<le> 2 * bound" "z - x \<le> 2 * bound"
      "y - z \<le> 2 * bound" "z - y \<le> 2 * bound"
    using assms(7-9) by linarith+
  consider "x \<le> y" "y \<le> z" | "y \<le> x" "x \<le> z" | "z \<le> x" "x \<le> y" | "z \<le> y" "y \<le> x"
      | "x \<le> z" "z \<le> y" | "y \<le> z" "z \<le> x" by linarith
  then show ?thesis
  proof cases
    case 1 then show ?thesis using middle_span [of x y z] assms close by metis
  next
    case 2 then show ?thesis using middle_span [of y x z] assms close by metis
  next
    case 3 then show ?thesis using middle_span [of z x y] assms close by metis
  next
    case 4 then show ?thesis using middle_span [of z y x] assms close by metis
  next
    case 5 then show ?thesis using middle_span [of x z y] assms close by metis
  next
    case 6 then show ?thesis using middle_span [of y z x] assms close by metis
  qed
qed

lemma resolve_range:
  assumes range: "lo + bound \<le> unix" "unix < hi - bound" and l: "loc_lookup l = look"
  shows "lo \<le> resolve_seconds l unix \<and> resolve_seconds l unix < hi"
proof -
  obtain off st en where un: "look unix = (off, st, en)" by (cases "look unix")
  have in_range: "lo \<le> unix" "unix < hi" using range bound_nonneg by auto
  have off: "\<bar>off\<bar> \<le> bound" using span_at [OF in_range un] by simp
  then have utc: "lo \<le> unix - off" "unix - off < hi" using range by auto
  have "\<bar>fst (look (unix - off))\<bar> \<le> bound" using span_at [OF utc] by (cases "look (unix - off)") auto
  then show ?thesis using utc range by (auto simp: resolve_seconds_def l un loc_offset_def Let_def)
qed

lemma resolve_existing:
  assumes range: "lo + bound \<le> unix" "unix < hi - bound" and u: "lo \<le> u" "u < hi" "u + fst (look u) = unix"
    and l: "loc_lookup l = look"
  shows "resolve_seconds l unix + fst (look (resolve_seconds l unix)) = unix"
proof -
  obtain off st en where un: "look unix = (off, st, en)" by (cases "look unix")
  obtain offu stu enu where uu: "look u = (offu, stu, enu)" by (cases "look u")
  have ub: "\<bar>offu\<bar> \<le> bound" using span_at [OF u(1,2) uu] by simp
  then have in_range: "lo \<le> unix" "unix < hi" using range by auto
  have at: "st \<le> unix" "unix < en" "\<bar>off\<bar> \<le> bound" using span_at [OF in_range un] by auto
  define utc where "utc = unix - off"
  have utc: "lo \<le> utc" "utc < hi" using at range by (auto simp: utc_def)
  show ?thesis
  proof (cases "off = 0 \<or> (st \<le> utc \<and> utc < en)")
    case True
    then have "resolve_seconds l unix = utc" by (simp add: resolve_seconds_def l un utc_def)
    moreover have "look utc = look unix"
      using True span_const [OF in_range utc un] by (auto simp: utc_def)
    ultimately show ?thesis by (simp add: un utc_def)
  next
    case False
    have away: "look utc \<noteq> look unix" using span_at [OF utc, of off st en] un False by auto
    have u_off: "u = unix - offu" using u(3) uu by simp
    have far: "look u \<noteq> look unix"
    proof
      assume e: "look u = look unix"
      with uu un have "utc = u" using u_off by (simp add: utc_def)
      with away e show False by simp
    qed
    have near: "\<bar>utc - unix\<bar> \<le> bound" "\<bar>u - unix\<bar> \<le> bound" "\<bar>u - utc\<bar> \<le> 2 * bound"
      using at(3) ub u_off by (auto simp: utc_def)
    have "look u = look utc"
      using away far middle_triple [OF u(1,2) utc in_range near(3,2,1)] by metis
    then have "look utc = (offu, stu, enu)" using uu by simp
    then have "loc_offset l utc = offu" by (simp add: loc_offset_def l)
    then have "resolve_seconds l unix = u"
      using False u_off by (auto simp: resolve_seconds_def l un utc_def Let_def)
    with u(3) show ?thesis by simp
  qed
qed

end

text \<open>A zone that changes its offset once, such as one side of a daylight saving transition.\<close>

definition switch_zone :: "string \<Rightarrow> int \<Rightarrow> int \<Rightarrow> int \<Rightarrow> location" where
  "switch_zone name at before after = \<lparr> loc_name = name,
     loc_lookup = (\<lambda>t. if t < at then (before, int64_min, at) else (after, at, int64_max)) \<rparr>"

interpretation fixed: zone_rules "loc_lookup (fixed_zone nm off)" int64_min int64_max "\<bar>off\<bar>" for nm off
  by unfold_locales (auto simp: loc_lookup_fixed)

interpretation switch: zone_rules "loc_lookup (switch_zone nm at b a)" int64_min int64_max "max \<bar>b\<bar> \<bar>a\<bar>" for nm at b a
  by unfold_locales (auto simp: switch_zone_def split: if_splits)


section \<open>One day, and the first day\<close>

definition due :: "instant \<Rightarrow> location \<Rightarrow> wall_clock \<Rightarrow> daily_time \<Rightarrow> bool" where
  "due now l day item \<longleftrightarrow>
     wall_matches (wall_in l (item_candidate l day item)) day item \<and> now < item_candidate l day item"

lemma best_of_day_spec:
  assumes "best_of_day now l day items best bestLabel = (b, lb)" "zero_time \<le> now" "best = zero_time \<or> now < best"
  shows "((b, lb) = (best, bestLabel) \<or>
          (\<exists>item \<in> set items. due now l day item \<and> b = item_candidate l day item \<and> lb = dt_Text item)) \<and>
         (\<forall>item \<in> set items. due now l day item \<longrightarrow> b \<noteq> zero_time \<and> b \<le> item_candidate l day item) \<and>
         (best \<noteq> zero_time \<longrightarrow> b \<noteq> zero_time \<and> b \<le> best)"
  using assms
proof (induction now l day items best bestLabel rule: best_of_day.induct)
  case (2 now l day item items best bestLabel)
  note prems = "2.prems"(1) [unfolded best_of_day.simps Let_def]
  show ?case
  proof (cases "wall_matches (wall_in l (item_candidate l day item)) day item")
    case False
    with prems have r: "best_of_day now l day items best bestLabel = (b, lb)" by simp
    from "2.IH"(1) [OF refl refl False r "2.prems"(2,3)] False show ?thesis by (auto simp: due_def)
  next
    case True
    show ?thesis
    proof (cases "item_candidate l day item > now \<and> (best = zero_time \<or> item_candidate l day item < best)")
      case better: True
      with prems True have r: "best_of_day now l day items (item_candidate l day item) (dt_Text item) = (b, lb)" by simp
      have "item_candidate l day item \<noteq> zero_time" using better "2.prems"(2) by auto
      with "2.IH"(2) [OF refl refl _ better r "2.prems"(2)] True better show ?thesis by (auto simp: due_def)
    next
      case worse: False
      with prems True have r: "best_of_day now l day items best bestLabel = (b, lb)" by simp
      from "2.IH"(3) [OF refl refl _ worse r "2.prems"(2,3)] True worse show ?thesis by (auto simp: due_def)
    qed
  qed
qed simp

definition day_at :: "location \<Rightarrow> instant \<Rightarrow> nat \<Rightarrow> wall_clock" where
  "day_at l now k = wall_in l (add_days l now (int k))"

definition first_due :: "instant \<Rightarrow> location \<Rightarrow> daily_time list \<Rightarrow> nat \<Rightarrow> instant \<Rightarrow> string \<Rightarrow> bool" where
  "first_due now l items k at label \<longleftrightarrow>
     (\<forall>j < k. \<forall>item \<in> set items. \<not> due now l (day_at l now j) item) \<and>
     (\<exists>item \<in> set items. due now l (day_at l now k) item \<and> at = item_candidate l (day_at l now k) item \<and>
        label = dt_Text item) \<and>
     (\<forall>item \<in> set items. due now l (day_at l now k) item \<longrightarrow> at \<le> item_candidate l (day_at l now k) item)"

lemma best_of_day_zero:
  assumes "best_of_day now l day items zero_time [] = (b, lb)" "zero_time \<le> now"
  shows "b = zero_time \<longleftrightarrow> (\<forall>item \<in> set items. \<not> due now l day item)"
    "b \<noteq> zero_time \<Longrightarrow> (\<exists>item \<in> set items. due now l day item \<and> b = item_candidate l day item \<and> lb = dt_Text item) \<and>
        (\<forall>item \<in> set items. due now l day item \<longrightarrow> b \<le> item_candidate l day item)"
proof -
  note spec = best_of_day_spec [OF assms]
  show "b = zero_time \<longleftrightarrow> (\<forall>item \<in> set items. \<not> due now l day item)"
    using spec assms(2) by (auto simp: due_def)
  show "b \<noteq> zero_time \<Longrightarrow> (\<exists>item \<in> set items. due now l day item \<and> b = item_candidate l day item \<and> lb = dt_Text item) \<and>
        (\<forall>item \<in> set items. due now l day item \<longrightarrow> b \<le> item_candidate l day item)"
    using spec by blast
qed

lemma next_day_loop_spec:
  assumes "zero_time \<le> now" "\<forall>j < offset. \<forall>item \<in> set items. \<not> due now l (day_at l now j) item"
  shows "(case next_day_loop now l items offset left of
            None \<Rightarrow> \<forall>j < offset + left. \<forall>item \<in> set items. \<not> due now l (day_at l now j) item
          | Some (at, label) \<Rightarrow> \<exists>k < offset + left. first_due now l items k at label)"
  using assms
proof (induction left arbitrary: offset)
  case (Suc left)
  obtain b lb where b: "best_of_day now l (day_at l now offset) items zero_time [] = (b, lb)" by fastforce
  note z = best_of_day_zero [OF b Suc.prems(1)]
  show ?case
  proof (cases "b = zero_time")
    case True
    with z(1) Suc.prems(2) have "\<forall>j < offset + 1. \<forall>item \<in> set items. \<not> due now l (day_at l now j) item"
      by (auto simp: less_Suc_eq)
    from Suc.IH [OF Suc.prems(1) this]
    have "case next_day_loop now l items (offset + 1) left of
        None \<Rightarrow> \<forall>j < offset + Suc left. \<forall>item \<in> set items. \<not> due now l (day_at l now j) item
      | Some (at, label) \<Rightarrow> \<exists>k < offset + Suc left. first_due now l items k at label"
      by (simp only: add_Suc_right add_0_right One_nat_def add_Suc)
    then show ?thesis using b True by (simp add: day_at_def [symmetric] del: add_Suc_right)
  next
    case False
    then have "first_due now l items offset b lb" using z(2) Suc.prems(2) by (simp add: first_due_def)
    then show ?thesis using b False by (auto simp: day_at_def intro!: exI [of _ offset])
  qed
qed simp

section \<open>A constant offset\<close>

lemma resolve_fixed: "resolve_seconds (fixed_zone nm off) unix = unix - off"
  by (simp add: resolve_seconds_def loc_lookup_fixed Let_def)

lemma day_number_add:
  "day_number (fixed_zone nm off) (add_days (fixed_zone nm off) now (int k)) = day_number (fixed_zone nm off) now + int k"
proof -
  let ?l = "fixed_zone nm off"
  have "add_days ?l now (int k) div nanos = (day_number ?l now + int k) * 86400 + local_seconds ?l now mod 86400 - off"
    unfolding add_days_def Let_def
    by (simp only: go_date_wall [OF refl] add.assoc [of _ "wc_hour (wall_in ?l now) * 3600"]
          add.assoc [of _ "wc_hour (wall_in ?l now) * 3600 + wc_minute (wall_in ?l now) * 60"] wall_in_fields resolve_fixed)
      (simp add: nanos_def wall_in_fields add.assoc)
  then show ?thesis by (simp add: day_number_def local_seconds_def)
qed

lemma due_fixed:
  assumes "valid_daily_time item"
  shows "item_candidate (fixed_zone nm off) (day_at (fixed_zone nm off) now k) item =
           (item_seconds (day_number (fixed_zone nm off) now + int k) item - off) * nanos"
    "due now (fixed_zone nm off) (day_at (fixed_zone nm off) now k) item \<longleftrightarrow>
       now < (item_seconds (day_number (fixed_zone nm off) now + int k) item - off) * nanos"
proof -
  show c: "item_candidate (fixed_zone nm off) (day_at (fixed_zone nm off) now k) item =
           (item_seconds (day_number (fixed_zone nm off) now + int k) item - off) * nanos"
    by (simp add: day_at_def item_candidate_eq day_number_add resolve_fixed)
  show "due now (fixed_zone nm off) (day_at (fixed_zone nm off) now k) item \<longleftrightarrow>
       now < (item_seconds (day_number (fixed_zone nm off) now + int k) item - off) * nanos"
    unfolding due_def c
    by (simp add: day_at_def wall_matches_iff [OF assms] local_seconds_whole day_number_add
          day_number_def [symmetric]) (simp add: item_seconds_def)
qed

lemma fixed_existing:
  assumes "valid_daily_time item" "t mod nanos = 0" "local_seconds (fixed_zone nm off) t mod 86400 = secondsSinceMidnight item"
  shows "t = (item_seconds (day_number (fixed_zone nm off) t) item - off) * nanos"
proof -
  have "local_seconds (fixed_zone nm off) t = item_seconds (day_number (fixed_zone nm off) t) item"
    using assms(3) div_mult_mod_eq [of "local_seconds (fixed_zone nm off) t" 86400]
    by (simp add: item_seconds_def day_number_def)
  then have "t div nanos = item_seconds (day_number (fixed_zone nm off) t) item - off"
    by (simp add: local_seconds_def)
  then show ?thesis using assms(2) div_mult_mod_eq [of t nanos] by simp
qed

lemma item_seconds_mod: "valid_daily_time i \<Longrightarrow> item_seconds z i mod 86400 = secondsSinceMidnight i"
  using valid_seconds_range [of i] unfolding item_seconds_def by (subst mod_mult_self3) simp

lemma item_seconds_mono:
  assumes "valid_daily_time i" "valid_daily_time i'" "z < z'"
  shows "item_seconds z i < item_seconds z' i'"
  using assms valid_seconds_range [of i] valid_seconds_range [of i'] by (simp add: item_seconds_def)

lemma next_day_is_due:
  assumes "valid_daily_time item"
  shows "now < (item_seconds (day_number (fixed_zone nm off) now + 1) item - off) * nanos"
proof -
  have "local_seconds (fixed_zone nm off) now < (day_number (fixed_zone nm off) now + 1) * 86400"
    unfolding day_number_def by (simp add: dividend_less_div_times algebra_simps; linarith?)
  then have "now div nanos < item_seconds (day_number (fixed_zone nm off) now + 1) item - off"
    using valid_seconds_range [OF assms] by (simp add: local_seconds_def item_seconds_def)
  then show ?thesis by (simp add: nanos_def)
qed

lemma first_due_fixed:
  assumes v: "\<forall>item \<in> set items. valid_daily_time item"
    and f: "first_due now (fixed_zone nm off) items k at label"
    and t: "now < t" "item \<in> set items" "t mod nanos = 0"
      "local_seconds (fixed_zone nm off) t mod 86400 = secondsSinceMidnight item"
  shows "at \<le> t"
proof -
  let ?l = "fixed_zone nm off" and ?z = "day_number (fixed_zone nm off)"
  note te = fixed_existing [OF bspec [OF v t(2)] t(3,4)]
  have "now div nanos \<le> t div nanos" using t(1) by (intro zdiv_mono1) (simp_all add: nanos_def)
  then have "?z now \<le> ?z t" by (simp add: day_number_def local_seconds_def zdiv_mono1)
  then obtain j where j: "?z t = ?z now + int j" by (metis zle_iff_zadd)
  have dt: "due now ?l (day_at ?l now j) item" "item_candidate ?l (day_at ?l now j) item = t"
    using due_fixed [OF bspec [OF v t(2)], where now = now and nm = nm and off = off and k = j] te t(1) j by simp_all
  from f obtain i where i: "i \<in> set items" "at = item_candidate ?l (day_at ?l now k) i"
    by (auto simp: first_due_def)
  consider "j < k" | "j = k" | "k < j" by linarith
  then show ?thesis
  proof cases
    case 1
    with f dt t(2) show ?thesis by (auto simp: first_due_def)
  next
    case 2
    with f dt t(2) show ?thesis by (auto simp: first_due_def)
  next
    case 3
    then have "item_seconds (?z now + int k) i < item_seconds (?z t) item"
      using v i(1) t(2) j by (intro item_seconds_mono) auto
    then show ?thesis using te due_fixed(1) [OF bspec [OF v i(1)]] i(2) by (simp add: nanos_def)
  qed
qed

section \<open>Occurrence keys\<close>

lemma digits_val_zeros: "digits_val (replicate k (CHR ''0'') @ s) = digits_val s"
proof (induction k)
  case (Suc k)
  have "digit_val (CHR ''0'') = 0" by (simp add: digit_val_def)
  then show ?case using Suc by (simp add: digits_val_def)
qed simp

lemma zero_pad_digits:
  assumes "0 \<le> n"
  shows "list_all is_digit (zero_pad w n)" "int (digits_val (zero_pad w n)) = n"
  using assms nat_digits_props [of "nat n"]
  by (auto simp: zero_pad_def Let_def digits_val_zeros list_all_iff is_digit_def)

lemma digits_prefix:
  assumes "a @ c # r = b @ c # r'" "c \<notin> set a" "c \<notin> set b"
  shows "a = b \<and> r = r'"
  using assms by (induction a arbitrary: b) (auto simp: Cons_eq_append_conv append_eq_Cons_conv)

lemma zero_pad_prefix:
  assumes "zero_pad w n @ c # r = zero_pad w n' @ c # r'" "0 \<le> n" "0 \<le> n'" "\<not> is_digit c"
  shows "n = n' \<and> r = r'"
proof -
  have "c \<notin> set (zero_pad w n)" "c \<notin> set (zero_pad w n')"
    using zero_pad_digits(1) [OF assms(2)] zero_pad_digits(1) [OF assms(3)] assms(4) by (auto simp: list_all_iff)
  then have "zero_pad w n = zero_pad w n'" "r = r'" using digits_prefix [OF assms(1)] by auto
  with zero_pad_digits(2) [OF assms(2)] zero_pad_digits(2) [OF assms(3)] show ?thesis by metis
qed

lemma wall_day_range: "0 \<le> wc_day (wall_in l t)"
proof -
  define z where "z = local_seconds l t div 86400"
  define doe where "doe = (z + 719468) mod 146097"
  have doe: "0 \<le> doe" "doe < 146097" by (simp_all add: doe_def)
  define doy where "doy = doe - year_start (year_of_era doe)"
  have doy: "0 \<le> doy" "doy \<le> 365" using year_of_era_bounds [OF doe] unfolding doy_def by linarith+
  define mp where "mp = (5 * doy + 2) div 153"
  have "5 * doy + 2 \<ge> 153 * mp" unfolding mp_def by simp
  then have "(153 * mp + 2) div 5 \<le> (5 * doy + 4) div 5" by (intro zdiv_mono1) simp_all
  then have "(153 * mp + 2) div 5 \<le> doy" by simp
  moreover have "wc_day (wall_in l t) = doy - (153 * mp + 2) div 5 + 1"
    using wall_in_fields(1) [of l t, unfolded civil_from_days_def Let_def, folded z_def, folded doe_def, folded doy_def,
      folded mp_def, unfolded prod.inject] by simp
  ultimately show ?thesis by simp
qed

lemma id_text_unique:
  assumes "label @ ''|'' @ r = label' @ ''|'' @ r'" "CHR ''|'' \<notin> set label" "CHR ''|'' \<notin> set label'"
  shows "label = label'"
  using digits_prefix [of label "CHR ''|''" r label' r'] assms by simp

lemma not_digits: "\<not> is_digit (CHR ''-'')" "\<not> is_digit (CHR ''|'')" "CHR ''|'' \<noteq> CHR '':''"
  by (simp_all add: is_digit_def)

lemma valid_text_no_bar: "valid_daily_time t \<Longrightarrow> CHR ''|'' \<notin> set (dt_Text t)"
  using two_digits(3) [of "dt_Hour t"] two_digits(3) [of "dt_Minute t"] two_digits(3) [of "dt_Second t"]
  by (auto simp: valid_daily_time_def daily_text_def list_all_iff not_digits)

lemma month_range: "1 \<le> wc_month (wall_in l t)"
  using civil_month_range [OF wall_in_fields(1) [of l t]] by simp

lemma wall_in_eqI: "local_seconds l t = local_seconds l' u \<Longrightarrow> wall_in l t = wall_in l' u"
  by (simp add: wall_in_def)

section \<open>Properties\<close>

lemma next_occurrence_spec_loop:
  assumes "zero_time \<le> now" "items \<noteq> []"
  shows "(case next_occurrence now (Some l) items of
            None \<Rightarrow> \<forall>j < 370. \<forall>item \<in> set items. \<not> due now l (day_at l now j) item
          | Some (at, label) \<Rightarrow> now < at \<and> (\<exists>k < 370. first_due now l items k at label))"
  using next_day_loop_spec [OF assms(1), of 0 items l 370] assms(2)
  by (auto simp: next_occurrence_def first_due_def due_def split: option.splits)

text \<open>C29. In any location \<^verbatim>\<open>NextOccurrence\<close> returns an instant strictly after now: on the first of the 370
  days from today on which a configured time exists and is still ahead, the earliest such time with
  its label. It returns nothing only if no configured time is due on any of those days.\<close>

theorem next_occurrence_spec:
  assumes "zero_time \<le> now" "items \<noteq> []"
  shows "(case next_occurrence now (Some l) items of
            None \<Rightarrow> \<forall>j < 370. \<forall>item \<in> set items. \<not> due now l (day_at l now j) item
          | Some (at, label) \<Rightarrow> now < at \<and> (\<exists>k < 370. first_due now l items k at label))"
  using assms by (rule next_occurrence_spec_loop)

text \<open>Under the promises of a zone table, the instant computed for a configured time on a day shows that
  very time on that day's clock exactly when the clock shows it at all, so a wall-clock time that a
  daylight saving change skips is left out and no other is.\<close>

theorem wall_time_skipped_iff_absent:
  assumes "zone_rules (loc_lookup l) lo hi bound" "valid_daily_time item"
    "lo + bound \<le> item_seconds (day_number l u) item" "item_seconds (day_number l u) item < hi - bound"
  shows "wall_matches (wall_in l (item_candidate l (wall_in l u) item)) (wall_in l u) item \<longleftrightarrow>
         (\<exists>t. lo \<le> t \<and> t < hi \<and> wall_matches (wall_in l (t * nanos)) (wall_in l u) item)" (is "?L \<longleftrightarrow> ?R")
proof -
  let ?unix = "item_seconds (day_number l u) item"
  have matches: "wall_matches (wall_in l (t * nanos)) (wall_in l u) item \<longleftrightarrow> t + loc_offset l t = ?unix" for t
    unfolding wall_matches_iff [OF assms(2)] local_seconds_whole by (simp add: item_seconds_def day_number_def)
  show ?thesis
    unfolding item_candidate_eq matches
    using zone_rules.resolve_range [OF assms(1,3,4) refl] zone_rules.resolve_existing [OF assms(1,3,4) _ _ _ refl]
    by (auto simp: loc_offset_def)
qed

text \<open>With a constant offset, such as UTC, there is always a next occurrence, within a day, and it is the
  least instant after now whose clock shows a configured time.\<close>

theorem next_occurrence_fixed_least:
  assumes "zero_time \<le> now" "items \<noteq> []" "\<forall>item \<in> set items. valid_daily_time item"
  shows "\<exists>at label. next_occurrence now (Some (fixed_zone nm off)) items = Some (at, label) \<and>
           now < at \<and> (\<exists>item \<in> set items. label = dt_Text item \<and>
             local_seconds (fixed_zone nm off) at mod 86400 = secondsSinceMidnight item) \<and>
           (\<forall>t. now < t \<and> t mod nanos = 0 \<and>
              local_seconds (fixed_zone nm off) t mod 86400 \<in> secondsSinceMidnight ` set items \<longrightarrow> at \<le> t)"
proof -
  let ?l = "fixed_zone nm off"
  note spec = next_occurrence_spec_loop [OF assms(1,2), of ?l]
  from assms(2) obtain i where i: "i \<in> set items" by (cases items) auto
  have "due now ?l (day_at ?l now 1) i"
    using due_fixed(2) [OF bspec [OF assms(3) i]] next_day_is_due [OF bspec [OF assms(3) i]] by simp
  with spec i obtain at label k where a: "next_occurrence now (Some ?l) items = Some (at, label)" "now < at"
      "first_due now ?l items k at label"
    by (cases "next_occurrence now (Some ?l) items") fastforce+
  from a(3) obtain j where j: "j \<in> set items" "label = dt_Text j" "at = item_candidate ?l (day_at ?l now k) j"
    by (auto simp: first_due_def)
  have "local_seconds ?l at = item_seconds (day_number ?l now + int k) j"
    using due_fixed(1) [OF bspec [OF assms(3) j(1)]] j(3) by (simp add: local_seconds_whole)
  then have m: "local_seconds ?l at mod 86400 = secondsSinceMidnight j"
    using item_seconds_mod [OF bspec [OF assms(3) j(1)]] by simp
  have least: "\<forall>t. now < t \<and> t mod nanos = 0 \<and> local_seconds ?l t mod 86400 \<in> secondsSinceMidnight ` set items \<longrightarrow> at \<le> t"
    by (auto intro: first_due_fixed [OF assms(3) a(3)])
  show ?thesis
    by (rule exI [of _ at], rule exI [of _ label], intro conjI a(1,2) bexI [OF _ j(1)] j(2) m least)
qed

text \<open>Two occurrences in one location have the same key exactly when they show the same wall clock: the two
  instants of a repeated wall-clock time are one occurrence, and no other two are confused.\<close>

theorem occurrence_id_exact:
  assumes "valid_daily_time i" "valid_daily_time j" "wall_matches (wall_in l t) (wall_in l t) i"
    "wall_matches (wall_in l u) (wall_in l u) j" "0 \<le> wc_year (wall_in l t)" "0 \<le> wc_year (wall_in l u)"
  shows "occurrence_id local t (Some l) (dt_Text i) = occurrence_id local u (Some l) (dt_Text j) \<longleftrightarrow>
         wall_in l t = wall_in l u" (is "?L \<longleftrightarrow> ?R")
proof
  assume L: ?L
  note same = L [unfolded occurrence_id_def Let_def option.case append_Cons append_Nil]
  from zero_pad_prefix [OF same assms(5,6) not_digits(1)] have y: "wc_year (wall_in l t) = wc_year (wall_in l u)"
    and s2: "zero_pad 2 (wc_month (wall_in l t)) @ CHR ''-'' # zero_pad 2 (wc_day (wall_in l t)) @ CHR ''|'' # dt_Text i @ CHR ''|'' # loc_name l =
      zero_pad 2 (wc_month (wall_in l u)) @ CHR ''-'' # zero_pad 2 (wc_day (wall_in l u)) @ CHR ''|'' # dt_Text j @ CHR ''|'' # loc_name l"
    by blast+
  from zero_pad_prefix [OF s2 _ _ not_digits(1)] month_range [of l t] month_range [of l u]
  have m: "wc_month (wall_in l t) = wc_month (wall_in l u)"
    and s3: "zero_pad 2 (wc_day (wall_in l t)) @ CHR ''|'' # dt_Text i @ CHR ''|'' # loc_name l =
      zero_pad 2 (wc_day (wall_in l u)) @ CHR ''|'' # dt_Text j @ CHR ''|'' # loc_name l"
    by auto
  from zero_pad_prefix [OF s3 wall_day_range wall_day_range not_digits(2)]
  have d: "wc_day (wall_in l t) = wc_day (wall_in l u)" and s4: "dt_Text i @ CHR ''|'' # loc_name l = dt_Text j @ CHR ''|'' # loc_name l"
    by blast+
  have "i = j" using s4 assms(1,2) by (intro text_determines) simp_all
  with assms(3,4) y m d show ?R by (intro wall_clock.equality) (simp_all add: wall_matches_def)
next
  assume R: ?R
  have "secondsSinceMidnight i = secondsSinceMidnight j"
    using assms(3,4) R by (simp add: wall_matches_def secondsSinceMidnight_def)
  then have "i = j" using assms(1,2) by (rule valid_daily_time_eqI [rotated 2])
  with R show ?L by (simp add: occurrence_id_def)
qed

section \<open>Examples\<close>

definition seven_five :: daily_time where
  "seven_five = \<lparr>dt_Hour = 7, dt_Minute = 5, dt_Second = 0, dt_Text = ''07:05:00''\<rparr>"

lemma seven_five_valid: "valid_daily_time seven_five"
  by code_simp

lemma next_occurrence_spec_witness:
  "next_occurrence 0 (Some sample_location) [seven_five] = Some (25500 * nanos, ''07:05:00'') \<and>
   (\<exists>k < 370. first_due 0 sample_location [seven_five] k (25500 * nanos) ''07:05:00'')"
proof -
  have e: "next_occurrence 0 (Some sample_location) [seven_five] = Some (25500 * nanos, ''07:05:00'')" by code_simp
  with next_occurrence_spec [of 0 "[seven_five]" sample_location] show ?thesis
    by (simp add: zero_time_def nanos_def)
qed

lemma next_occurrence_fixed_least_witness:
  "\<exists>at label. next_occurrence 0 (Some (fixed_zone ''UTC'' 0)) [seven_five] = Some (at, label) \<and> 0 < at"
  using next_occurrence_fixed_least [of 0 "[seven_five]" "''UTC''" 0] seven_five_valid
  by (auto simp: zero_time_def nanos_def)

lemma wall_time_skipped_iff_absent_witness:
  "wall_matches (wall_in (switch_zone ''X'' 3600 0 3600) (item_candidate (switch_zone ''X'' 3600 0 3600)
     (wall_in (switch_zone ''X'' 3600 0 3600) 0) seven_five)) (wall_in (switch_zone ''X'' 3600 0 3600) 0) seven_five"
proof -
  have "\<exists>t. int64_min \<le> t \<and> t < int64_max \<and>
      wall_matches (wall_in (switch_zone ''X'' 3600 0 3600) (t * nanos)) (wall_in (switch_zone ''X'' 3600 0 3600) 0) seven_five"
    by (intro exI [of _ 21900]) code_simp
  then show ?thesis
    using wall_time_skipped_iff_absent [where l = "switch_zone ''X'' 3600 0 3600" and u = 0,
        OF switch.zone_rules_axioms seven_five_valid]
    by (simp add: day_number_def local_seconds_def item_seconds_def seven_five_def secondsSinceMidnight_def
        loc_offset_def switch_zone_def int64_min_def int64_max_def nanos_def)
qed

lemma occurrence_id_exact_witness:
  "occurrence_id sample_location (25500 * nanos) (Some sample_location) ''07:05:00'' \<noteq>
   occurrence_id sample_location (111900 * nanos) (Some sample_location) ''07:05:00''"
proof -
  let ?t = "25500 * nanos" and ?u = "111900 * nanos"
  have m: "wall_matches (wall_in sample_location ?t) (wall_in sample_location ?t) seven_five"
      "wall_matches (wall_in sample_location ?u) (wall_in sample_location ?u) seven_five"
      "0 \<le> wc_year (wall_in sample_location ?t)" "0 \<le> wc_year (wall_in sample_location ?u)"
      "wall_in sample_location ?t \<noteq> wall_in sample_location ?u"
    by code_simp+
  have "dt_Text seven_five = ''07:05:00''" by (simp add: seven_five_def)
  with occurrence_id_exact [OF seven_five_valid seven_five_valid m(1-4), of sample_location] m(5) show ?thesis by simp
qed

end
