(* ===== verification/Auth_Filter.thy ===== *)
theory Auth_Filter imports Plugin_Config "HOL-Library.Product_Lexorder" begin

text \<open>
  \<^verbatim>\<open>internal/refreshquota/filter.go\<close>: which listed credentials a run targets, in which order, and
  whether their identities are unambiguous. \<^verbatim>\<open>sort.Slice\<close> promises a sorted permutation only;
  the model sorts stably, and \<open>filter_auths_order_unique\<close> shows that the choice is not
  observable on a target list a run goes on with.
\<close>

section \<open>Definitions\<close>

definition string_set :: "string list \<Rightarrow> bool \<Rightarrow> string set" where
  "string_set vs lower = set (filter (\<lambda>v. v \<noteq> []) (map (norm_string lower) vs))"

definition auth_eligible :: "config \<Rightarrow> auth \<Rightarrow> bool \<times> string" where
  "auth_eligible cfg a =
     (let authID = trim_space (au_ID a);
          authIndex = trim_space (au_AuthIndex a);
          provider = to_lower (trim_space (au_Provider a));
          status = to_lower (trim_space (au_Status a))
      in if authID = [] then (False, ''missing_auth_id'')
         else if authIndex = [] then (False, ''missing_auth_index'')
         else if au_Disabled a \<or> status = ''disabled'' then (False, ''disabled'')
         else if cf_SkipUnavailable cfg \<and> au_Unavailable a then (False, ''unavailable'')
         else if cf_PhysicalFilesOnly cfg \<and> au_RuntimeOnly a then (False, ''not_physical_file'')
         else if string_set (cf_Providers cfg) True \<noteq> {} \<and> provider \<notin> string_set (cf_Providers cfg) True
         then (False, ''provider_not_selected'')
         else if string_set (cf_IncludeAuthIndices cfg) False \<noteq> {} \<and>
                 authIndex \<notin> string_set (cf_IncludeAuthIndices cfg) False
         then (False, ''auth_not_included'')
         else if string_set (cf_ExcludeAuthIndices cfg) False \<noteq> {} \<and>
                 authIndex \<in> string_set (cf_ExcludeAuthIndices cfg) False
         then (False, ''auth_excluded'')
         else (True, []))"

definition auth_less :: "auth \<Rightarrow> auth \<Rightarrow> bool" where
  "auth_less a b \<longleftrightarrow>
     (let leftProvider = to_lower (trim_space (au_Provider a));
          rightProvider = to_lower (trim_space (au_Provider b))
      in if leftProvider \<noteq> rightProvider then leftProvider < rightProvider
         else au_AuthIndex a < au_AuthIndex b)"

definition auth_key :: "auth \<Rightarrow> string \<times> string" where
  "auth_key a = (to_lower (trim_space (au_Provider a)), au_AuthIndex a)"

definition auth_requested :: "string set \<Rightarrow> auth \<Rightarrow> bool" where
  "auth_requested requested a \<longleftrightarrow> (requested \<noteq> {} \<longrightarrow> trim_space (au_AuthIndex a) \<in> requested)"

definition filter_auths :: "config \<Rightarrow> auth list \<Rightarrow> string list \<Rightarrow> auth list" where
  "filter_auths cfg auths requestedAuthIndices =
     (let requested = string_set requestedAuthIndices False
      in sort_key auth_key (filter (\<lambda>a. auth_requested requested a \<and> fst (auth_eligible cfg a)) auths))"

fun duplicate_loop :: "string set \<Rightarrow> string set \<Rightarrow> auth list \<Rightarrow> bool" where
  "duplicate_loop seenIDs seenIndices [] = False"
| "duplicate_loop seenIDs seenIndices (a # auths) =
     (if trim_space (au_ID a) \<in> seenIDs then True
      else if trim_space (au_AuthIndex a) \<in> seenIndices then True
      else duplicate_loop (insert (trim_space (au_ID a)) seenIDs)
                          (insert (trim_space (au_AuthIndex a)) seenIndices) auths)"

definition has_duplicate_auth_identity :: "auth list \<Rightarrow> bool" where
  "has_duplicate_auth_identity auths = duplicate_loop {} {} auths"

section \<open>Facts\<close>

lemma auth_less_key: "auth_less a b \<longleftrightarrow> auth_key a < auth_key b"
  by (auto simp: auth_less_def auth_key_def Let_def less_prod_def)

lemma string_set_norm: "string_set vs lower = set (normalize_strings vs lower)"
  by (simp add: string_set_def normalize_strings_eq set_dedup)

lemma auth_eligible_reason: "fst (auth_eligible cfg a) \<longleftrightarrow> snd (auth_eligible cfg a) = []"
  by (simp add: auth_eligible_def Let_def)

lemma eligible_identity:
  assumes "fst (auth_eligible cfg a)"
  shows "trim_space (au_ID a) \<noteq> []" "trim_space (au_AuthIndex a) \<noteq> []" "\<not> au_Disabled a"
  using assms by (auto simp: auth_eligible_def Let_def split: if_splits)

lemma auth_eligible_iff:
  "fst (auth_eligible cfg a) \<longleftrightarrow>
     trim_space (au_ID a) \<noteq> [] \<and> trim_space (au_AuthIndex a) \<noteq> [] \<and>
     \<not> au_Disabled a \<and> to_lower (trim_space (au_Status a)) \<noteq> ''disabled'' \<and>
     (cf_SkipUnavailable cfg \<longrightarrow> \<not> au_Unavailable a) \<and>
     (cf_PhysicalFilesOnly cfg \<longrightarrow> \<not> au_RuntimeOnly a) \<and>
     (string_set (cf_Providers cfg) True = {} \<or> norm_string True (au_Provider a) \<in> string_set (cf_Providers cfg) True) \<and>
     (string_set (cf_IncludeAuthIndices cfg) False = {} \<or>
        norm_string False (au_AuthIndex a) \<in> string_set (cf_IncludeAuthIndices cfg) False) \<and>
     norm_string False (au_AuthIndex a) \<notin> string_set (cf_ExcludeAuthIndices cfg) False"
  by (auto simp: auth_eligible_def Let_def norm_string_def)

lemma set_filter_auths:
  "set (filter_auths cfg auths req) =
     {a \<in> set auths. auth_requested (string_set req False) a \<and> fst (auth_eligible cfg a)}"
  by (simp add: filter_auths_def Let_def)

lemma mset_filter_auths:
  "mset (filter_auths cfg auths req) =
     filter_mset (\<lambda>a. auth_requested (string_set req False) a \<and> fst (auth_eligible cfg a)) (mset auths)"
  by (simp add: filter_auths_def Let_def)

lemma sorted_filter_auths: "sorted (map auth_key (filter_auths cfg auths req))"
  by (simp add: filter_auths_def Let_def)

lemma duplicate_loop_iff:
  "duplicate_loop I X auths \<longleftrightarrow>
     \<not> (distinct (map (\<lambda>a. trim_space (au_ID a)) auths) \<and>
        distinct (map (\<lambda>a. trim_space (au_AuthIndex a)) auths) \<and>
        (\<lambda>a. trim_space (au_ID a)) ` set auths \<inter> I = {} \<and>
        (\<lambda>a. trim_space (au_AuthIndex a)) ` set auths \<inter> X = {})"
proof (induction I X auths rule: duplicate_loop.induct)
  case (2 I X a auths)
  have split_int: "A \<inter> insert x B = {} \<longleftrightarrow> x \<notin> A \<and> A \<inter> B = {}" for x :: string and A B by blast
  have split_ins: "insert x A \<inter> B = {} \<longleftrightarrow> x \<notin> B \<and> A \<inter> B = {}" for x :: string and A B by blast
  show ?case
    by (cases "trim_space (au_ID a) \<in> I"; cases "trim_space (au_AuthIndex a) \<in> X")
      (simp_all only: duplicate_loop.simps if_True if_False 2 list.map list.set set_map image_insert
        distinct.simps split_int split_ins simp_thms, blast)
qed simp

lemma has_duplicate_iff:
  "has_duplicate_auth_identity auths \<longleftrightarrow>
     \<not> (distinct (map (\<lambda>a. trim_space (au_ID a)) auths) \<and>
        distinct (map (\<lambda>a. trim_space (au_AuthIndex a)) auths))"
  by (simp add: has_duplicate_auth_identity_def duplicate_loop_iff)

lemma no_duplicate_keys:
  assumes "\<not> has_duplicate_auth_identity auths"
  shows "distinct (map auth_key auths)"
proof -
  have "distinct (map (\<lambda>a. trim_space (au_AuthIndex a)) auths)"
    using assms by (simp add: has_duplicate_iff)
  then have "distinct (map ((\<lambda>k. trim_space (snd k)) \<circ> auth_key) auths)"
    by (simp add: auth_key_def comp_def)
  then show ?thesis by (metis distinct_map map_map)
qed

section \<open>Properties\<close>


text \<open>C38. Any list the unstable \<^verbatim>\<open>sort.Slice\<close> may produce from the selected credentials is the one
  the model computes, unless the run is refused for duplicate identities.\<close>

theorem filter_auths_order_unique:
  assumes "mset ys = mset (filter_auths cfg auths req)"
    and "sorted_wrt (\<lambda>a b. \<not> auth_less b a) ys"
    and "\<not> has_duplicate_auth_identity (filter_auths cfg auths req)"
  shows "ys = filter_auths cfg auths req"
proof (rule sorted_key_unique [symmetric, of auth_key])
  show "sorted (map auth_key ys)"
    using assms(2) by (simp add: sorted_map auth_less_key not_less)
qed (use assms in \<open>simp_all add: sorted_filter_auths no_duplicate_keys\<close>)

section \<open>Examples\<close>

definition sample_auth :: "string \<Rightarrow> string \<Rightarrow> auth" where
  "sample_auth i ix = empty_auth\<lparr> au_ID := i, au_AuthIndex := ix, au_Provider := ''Codex'' \<rparr>"

lemma filter_auths_order_unique_witness:
  "[sample_auth ''a'' ''1'', sample_auth ''b'' ''2''] =
     filter_auths zero_config [sample_auth ''b'' ''2'', sample_auth ''a'' ''1''] []"
proof (rule filter_auths_order_unique)
  have ev: "filter_auths zero_config [sample_auth ''b'' ''2'', sample_auth ''a'' ''1''] [] =
      [sample_auth ''a'' ''1'', sample_auth ''b'' ''2'']" by code_simp
  show "mset [sample_auth ''a'' ''1'', sample_auth ''b'' ''2''] =
      mset (filter_auths zero_config [sample_auth ''b'' ''2'', sample_auth ''a'' ''1''] [])"
    by (simp only: ev)
  show "sorted_wrt (\<lambda>a b. \<not> auth_less b a) [sample_auth ''a'' ''1'', sample_auth ''b'' ''2'']"
    by code_simp
  show "\<not> has_duplicate_auth_identity (filter_auths zero_config [sample_auth ''b'' ''2'', sample_auth ''a'' ''1''] [])"
    unfolding ev by code_simp
qed

end
