(* ===== verification/Error_Text.thy ===== *)
theory Error_Text imports Refresh_Types begin

text \<open>
  The texts of errors in reports and logs (\<^verbatim>\<open>internal/refreshquota/service.go\<close>): \<^verbatim>\<open>sanitizeError\<close> drops
  control characters and bounds the length, \<^verbatim>\<open>safeExecutionError\<close> maps every error of an
  execution to one of a fixed list of texts, so that nothing the model host said is repeated.
\<close>

section \<open>Definitions\<close>

definition drop_control :: "nat \<Rightarrow> nat option" where
  "drop_control r = (if is_control r \<and> r \<noteq> 9 \<and> r \<noteq> 10 then None else Some r)"

definition sanitize_text :: "string \<Rightarrow> string" where
  "sanitize_text s = take 512 (trim_space (strings_map drop_control s))"

definition sanitize_error :: "err option \<Rightarrow> string" where
  "sanitize_error e = (case e of None \<Rightarrow> [] | Some e \<Rightarrow> sanitize_text (err_text e))"

definition execution_texts :: "(string list \<times> string) list" where
  "execution_texts =
     [([''cpa scheduler did not select the requested auth''], ''CPA scheduler did not select target auth''),
      ([''target_auth_unavailable'', ''requested auth is not available to the cpa scheduler''],
        ''target auth is unavailable to CPA scheduler''),
      ([''invalid_routing_token'', ''invalid cpa auto-refresh routing token header''], ''CPA routing token was rejected''),
      ([''host auth manager is unavailable''], ''host auth manager is unavailable''),
      ([''host model executor is unavailable''], ''host model executor is unavailable''),
      ([''context canceled''], ''context canceled''),
      ([''context deadline exceeded''], ''context deadline exceeded'')]"

text \<open>The \<^verbatim>\<open>switch\<close>: the text of the first case one of whose fragments the error contains.\<close>

fun first_text :: "(string list \<times> string) list \<Rightarrow> string \<Rightarrow> string" where
  "first_text [] s = ''host model execution failed''"
| "first_text ((fragments, t) # cs) s = (if \<exists>f \<in> set fragments. contains_sub s f then t else first_text cs s)"

definition safe_execution_error :: "err option \<Rightarrow> string" where
  "safe_execution_error e =
     (case e of None \<Rightarrow> [] | Some _ \<Rightarrow> first_text execution_texts (to_lower (sanitize_error e)))"

section \<open>The character set of a sanitized text\<close>

definition printable :: "char \<Rightarrow> bool" where
  "printable c \<longleftrightarrow> (32 \<le> (of_char c :: nat) \<and> (of_char c :: nat) \<noteq> 127) \<or> c = CHR 0x09 \<or> c = CHR 0x0A"

lemma printable_code: "b < 256 \<Longrightarrow> printable (char_of b) \<longleftrightarrow> (32 \<le> b \<and> b \<noteq> 127) \<or> b = 9 \<or> b = (10 :: nat)"
proof -
  assume "b < 256"
  then have "(of_char (char_of b) :: nat) = b" by simp
  moreover have "char_of b = CHR 0x09 \<longleftrightarrow> b = 9" "char_of b = CHR 0x0A \<longleftrightarrow> b = 10"
    using \<open>b < 256\<close> by (auto simp: char_of_eq_iff take_bit_eq_mod)
  ultimately show ?thesis by (simp add: printable_def)
qed

lemma encode_rune_printable:
  assumes "drop_control r = Some r'" "b \<in> set (encode_rune r')"
  shows "b < 256 \<and> ((32 \<le> b \<and> b \<noteq> 127) \<or> b = 9 \<or> b = 10)"
proof -
  have r: "r' = r" "\<not> (is_control r \<and> r \<noteq> 9 \<and> r \<noteq> 10)"
    using assms(1) by (auto simp: drop_control_def split: if_splits)
  have "r < 128 \<and> b = r \<or> 128 \<le> b \<and> b < 256"
    using assms(2) unfolding r(1) by (auto simp: encode_rune_def split: if_splits)
  then show ?thesis using r(2) by (auto simp: is_control_def)
qed

lemma strings_map_printable: "list_all printable (strings_map drop_control s)"
proof -
  have "printable (char_of b)" if "r \<in> set (runes_of (bytes_of s))" "Some r' = drop_control r" "b \<in> set (encode_rune r')" for r r' b
    using encode_rune_printable [OF that(2) [symmetric] that(3)] by (simp add: printable_code)
  then show ?thesis
    by (auto simp: strings_map_def string_of_def list_all_iff split: option.splits)
qed

lemma set_trim_front: "set (trim_front ws s) \<subseteq> set s"
  using trim_front_suffix [of s ws] by (metis set_append Un_upper2)

lemma set_trim_space: "set (trim_space s) \<subseteq> set s"
  using set_trim_front [of wide_spaces s] set_trim_front [of "map rev wide_spaces" "rev (trim_left s)"]
  by (auto simp: trim_space_def trim_left_def trim_right_def)

text \<open>A text that reaches a status, report or log through \<^verbatim>\<open>sanitizeError\<close> has at most 512 bytes, none of them
  a control character but tab and newline, and no error gives the empty text.\<close>

theorem sanitize_error_clean:
  "length (sanitize_error e) \<le> 512 \<and> list_all printable (sanitize_error e) \<and> sanitize_error None = []"
proof -
  have "list_all printable (sanitize_text s)" for s
    using strings_map_printable [of s] set_trim_space set_take_subset
    by (fastforce simp: sanitize_text_def list_all_iff)
  then show ?thesis by (cases e) (simp_all add: sanitize_error_def sanitize_text_def)
qed

definition known_execution_errors :: "string list" where
  "known_execution_errors = ''host model execution failed'' # map snd execution_texts"

lemma first_text_in: "first_text cs s \<in> insert ''host model execution failed'' (snd ` set cs)"
  by (induction cs s rule: first_text.induct) auto

lemma sentinel_texts:
  "safe_execution_error (Some ErrPinNotSelected) = ''CPA scheduler did not select target auth''"
  "safe_execution_error (Some ErrPinnedAuthUnavailable) = ''target auth is unavailable to CPA scheduler''"
  "safe_execution_error (Some ErrInvalidPinHeader) = ''CPA routing token was rejected''"
  "safe_execution_error (Some CtxCanceled) = ''context canceled''"
  "safe_execution_error (Some CtxDeadlineExceeded) = ''context deadline exceeded''"
  by code_simp+

text \<open>Whatever error a model execution fails with, what the report says is one of eight fixed texts, never
  the empty one, and each sentinel of the routing and of the context has its own text.\<close>

theorem safe_execution_error_fixed:
  "safe_execution_error (Some e) \<in> set known_execution_errors \<and> safe_execution_error (Some e) \<noteq> [] \<and>
   map (\<lambda>e. safe_execution_error (Some e)) [ErrPinNotSelected, ErrPinnedAuthUnavailable, ErrInvalidPinHeader, CtxCanceled, CtxDeadlineExceeded] =
     [''CPA scheduler did not select target auth'', ''target auth is unavailable to CPA scheduler'',
      ''CPA routing token was rejected'', ''context canceled'', ''context deadline exceeded'']"
proof -
  have "safe_execution_error (Some e) \<in> set known_execution_errors"
    using first_text_in by (auto simp: safe_execution_error_def known_execution_errors_def)
  moreover have "[] \<notin> set known_execution_errors" by (simp add: known_execution_errors_def execution_texts_def)
  ultimately show ?thesis by (auto simp: sentinel_texts)
qed

end
