(* ===== verification/Service_State.thy ===== *)
theory Service_State imports Plugin_Config Error_Text begin

text \<open>
  The state of \<^verbatim>\<open>Service\<close> (\<^verbatim>\<open>internal/refreshquota/service.go\<close>) and its critical sections: every stretch of code
  between \<^verbatim>\<open>s.mu.Lock\<close> and \<^verbatim>\<open>s.mu.Unlock\<close> is one function on the record \<open>service\<close>. A \<^verbatim>\<open>CancelFunc\<close> is
  the number of the context it cancels. The generation and the count of skipped occurrences are
  64-bit words. The log entries and what the handlers do around their critical sections are here too;
  the goroutines that call them are in the theory \<open>Service_System\<close>.
\<close>

section \<open>State\<close>

record service =
  sv_config :: config
  sv_configGeneration :: u64
  sv_configError :: string
  sv_next :: "next_schedule option"
  sv_active :: "run_report option"
  sv_last :: "run_report option"
  sv_running :: bool
  sv_stopped :: bool
  sv_schedulerCancel :: "nat option"
  sv_activeCancel :: "nat option"
  sv_recoveryCancel :: "nat option"
  sv_recoveryGeneration :: u64
  sv_priorityRecoveryPending :: bool
  sv_priorityRecoveryError :: string
  sv_occurrences :: "string set"
  sv_occurrenceOrder :: "string list"
  sv_skippedOccurrences :: u64
  sv_lastSkippedOccurrence :: string

definition maxRememberedOccurrences :: int where "maxRememberedOccurrences = 512"
definition priorityRecoveryTimeout :: duration where "priorityRecoveryTimeout = 30 * second"
definition priorityRecoveryEmptyGrace :: duration where "priorityRecoveryEmptyGrace = 2 * second"

definition new_service :: service where
  "new_service = \<lparr> sv_config = zero_config, sv_configGeneration = 0, sv_configError = [], sv_next = None,
     sv_active = None, sv_last = None, sv_running = False, sv_stopped = False, sv_schedulerCancel = None,
     sv_activeCancel = None, sv_recoveryCancel = None, sv_recoveryGeneration = 0,
     sv_priorityRecoveryPending = False, sv_priorityRecoveryError = [], sv_occurrences = {},
     sv_occurrenceOrder = [], sv_skippedOccurrences = 0, sv_lastSkippedOccurrence = [] \<rparr>"

datatype log_value = LStr string | LInt int | LBool bool

record log_entry =
  lg_Level :: string
  lg_Message :: string
  lg_Fields :: "(string \<times> log_value) list"

definition log_entry_of :: "string \<Rightarrow> string \<Rightarrow> (string \<times> log_value) list \<Rightarrow> log_entry" where
  "log_entry_of level message kvs = \<lparr> lg_Level = level, lg_Message = message, lg_Fields = kvs \<rparr>"

section \<open>Configuration\<close>

text \<open>What the critical section of \<^verbatim>\<open>ApplyConfig\<close> decides: the new generation comes with the contexts to cancel.\<close>

datatype apply_outcome = ApplyStopped | ApplyUnchanged | ApplyInstalled u64 "nat list"

definition to_list :: "'a option \<Rightarrow> 'a list" where
  "to_list x = (case x of None \<Rightarrow> [] | Some a \<Rightarrow> [a])"

definition apply_config_locked :: "err + config \<Rightarrow> service \<Rightarrow> apply_outcome \<times> service" where
  "apply_config_locked parsed sv =
     (if sv_stopped sv then (ApplyStopped, sv)
      else if (case parsed of
                 Inr cfg \<Rightarrow> sv_configGeneration sv > 0 \<and> sv_configError sv = [] \<and> config_equivalent (sv_config sv) cfg
               | Inl _ \<Rightarrow> False)
      then (ApplyUnchanged, sv)
      else let cancels = to_list (sv_schedulerCancel sv) @ to_list (sv_activeCancel sv) @ to_list (sv_recoveryCancel sv);
               generation = sv_configGeneration sv + 1;
               sv1 = sv\<lparr>sv_schedulerCancel := None, sv_recoveryCancel := None, sv_recoveryGeneration := 0,
                        sv_priorityRecoveryPending := False, sv_priorityRecoveryError := [],
                        sv_configGeneration := generation, sv_next := None\<rparr>
           in (ApplyInstalled generation cancels,
               case parsed of
                 Inl e \<Rightarrow> sv1\<lparr>sv_config := zero_config\<lparr>cf_HostEnabled := True\<rparr>, sv_configError := sanitize_error (Some e)\<rparr>
               | Inr cfg \<Rightarrow> sv1\<lparr>sv_config := config_clone cfg, sv_configError := []\<rparr>))"

definition start_scheduler_locked :: "u64 \<Rightarrow> nat \<Rightarrow> service \<Rightarrow> bool \<times> service" where
  "start_scheduler_locked generation ctx sv =
     (if sv_stopped sv \<or> generation \<noteq> sv_configGeneration sv then (False, sv)
      else (True, sv\<lparr>sv_schedulerCancel := Some ctx\<rparr>))"

definition start_priority_recovery_locked :: "u64 \<Rightarrow> nat \<Rightarrow> service \<Rightarrow> bool \<times> service" where
  "start_priority_recovery_locked generation ctx sv =
     (if sv_stopped sv \<or> generation \<noteq> sv_configGeneration sv then (False, sv)
      else (True, sv\<lparr>sv_recoveryCancel := Some ctx, sv_recoveryGeneration := generation,
                     sv_priorityRecoveryPending := True, sv_priorityRecoveryError := []\<rparr>))"

section \<open>Recovery\<close>

text \<open>The deferred section at the end of the recovery goroutine.\<close>

definition end_priority_recovery :: "u64 \<Rightarrow> service \<Rightarrow> service" where
  "end_priority_recovery generation sv =
     (if sv_recoveryGeneration sv = generation
      then sv\<lparr>sv_recoveryCancel := None, sv_recoveryGeneration := 0, sv_priorityRecoveryPending := False\<rparr>
      else sv)"

definition priority_recovery_still_current :: "u64 \<Rightarrow> service \<Rightarrow> bool" where
  "priority_recovery_still_current generation sv \<longleftrightarrow>
     \<not> sv_stopped sv \<and> generation = sv_configGeneration sv \<and> sv_recoveryGeneration sv = generation"

definition set_priority_recovery_result :: "u64 \<Rightarrow> err option \<Rightarrow> service \<Rightarrow> service" where
  "set_priority_recovery_result generation e sv =
     (if sv_stopped sv \<or> generation \<noteq> sv_configGeneration sv \<or> generation \<noteq> sv_recoveryGeneration sv then sv
      else sv\<lparr>sv_priorityRecoveryPending := False, sv_priorityRecoveryError := sanitize_error e\<rparr>)"

definition recovery_timeout_error :: err where
  "recovery_timeout_error = ErrNew ''timed out waiting to perform startup priority recovery''"

definition recovery_timeout_log :: log_entry where
  "recovery_timeout_log = log_entry_of ''error'' ''startup credential priority recovery timed out''
     [(''event'', LStr ''priority_recovery_failed''), (''error'', LStr (sanitize_error (Some recovery_timeout_error)))]"

definition report_priority_recovery_timeout :: "u64 \<Rightarrow> service \<Rightarrow> service \<times> log_entry" where
  "report_priority_recovery_timeout generation sv =
     (set_priority_recovery_result generation (Some recovery_timeout_error) sv, recovery_timeout_log)"

definition bool_text :: "bool \<Rightarrow> string" where
  "bool_text b = (if b then ''true'' else ''false'')"

definition fingerprint_item :: "auth \<Rightarrow> string" where
  "fingerprint_item a = join_with [CHR 0x00]
     [trim_space (au_AuthIndex a), trim_space (au_ID a), to_lower (trim_space (au_Source a)), to_lower (trim_space (au_Status a)),
      bool_text (au_RuntimeOnly a) @ '':'' @ bool_text (au_Disabled a) @ '':'' @ bool_text (au_Unavailable a) @ '':'' @ itoa (au_Priority a)]"

definition auth_recovery_fingerprint :: "auth list \<Rightarrow> string" where
  "auth_recovery_fingerprint auths = join_with [CHR 0x01] (sort (map fingerprint_item auths))"

section \<open>Schedule\<close>

definition publish_next :: "u64 \<Rightarrow> instant \<Rightarrow> string \<Rightarrow> location \<Rightarrow> service \<Rightarrow> service" where
  "publish_next generation at occurrenceID l sv =
     (if sv_stopped sv \<or> generation \<noteq> sv_configGeneration sv then sv
      else sv\<lparr>sv_next := Some \<lparr> ns_OccurrenceID = occurrenceID, ns_Local = wall_in l at, ns_UTC = at \<rparr>\<rparr>)"

definition clear_next :: "u64 \<Rightarrow> service \<Rightarrow> service" where
  "clear_next generation sv = (if generation = sv_configGeneration sv then sv\<lparr>sv_next := None\<rparr> else sv)"

definition handle_schedule_start_error :: "string \<Rightarrow> err \<Rightarrow> service \<Rightarrow> service \<times> log_entry list" where
  "handle_schedule_start_error occurrenceID e sv =
     (if e \<noteq> ErrBusy \<and> e \<noteq> ErrDuplicate
      then (sv, [log_entry_of ''error'' ''scheduled refresh was not started''
             [(''event'', LStr ''schedule_start_failed''), (''occurrence_id'', LStr occurrenceID),
              (''error'', LStr (sanitize_error (Some e)))]])
      else if e = ErrDuplicate then (sv, [])
      else (sv\<lparr>sv_skippedOccurrences := sv_skippedOccurrences sv + 1, sv_lastSkippedOccurrence := occurrenceID\<rparr>,
            [log_entry_of ''warn'' ''scheduled refresh skipped because another run is active''
              [(''event'', LStr ''schedule_overlap_skipped''), (''occurrence_id'', LStr occurrenceID)]]))"

section \<open>Runs\<close>

fun forget_oldest :: "string list \<Rightarrow> string set \<Rightarrow> string list \<times> string set" where
  "forget_oldest [] occ = ([], occ)"
| "forget_oldest (oldest # order) occ =
     (if int (length (oldest # order)) > maxRememberedOccurrences then forget_oldest order (occ - {oldest})
      else (oldest # order, occ))"

definition remember_occurrence :: "string \<Rightarrow> service \<Rightarrow> service" where
  "remember_occurrence occurrenceID sv =
     (if occurrenceID = [] then sv
      else case forget_oldest (sv_occurrenceOrder sv @ [occurrenceID]) (insert occurrenceID (sv_occurrences sv)) of
        (order, occ) \<Rightarrow> sv\<lparr>sv_occurrences := occ, sv_occurrenceOrder := order\<rparr>)"

definition new_report :: "string \<Rightarrow> string \<Rightarrow> string \<Rightarrow> bool \<Rightarrow> instant \<Rightarrow> run_report" where
  "new_report runID trigger occurrenceID dryRun started =
     \<lparr> rr_RunID = runID, rr_Trigger = trigger, rr_OccurrenceID = occurrenceID, rr_DryRun = dryRun,
       rr_StartedAt = started, rr_FinishedAt = None, rr_DurationMS = 0, rr_TargetCount = 0, rr_SuccessCount = 0,
       rr_FailedCount = 0, rr_SkippedCount = 0, rr_Canceled = False, rr_Error = [], rr_Results = [] \<rparr>"

text \<open>
  \<^verbatim>\<open>startRun\<close>: what is checked before the lock, and the critical section. \<open>ctx\<close> is the number of the run's
  own context, \<open>now\<close> what \<^verbatim>\<open>s.now\<close> gives in the section.
\<close>

definition random_id :: "err + bytes \<Rightarrow> err + string" where
  "random_id rand = rbind rand (\<lambda>raw. Inr (hex_encode (map of_char raw)))"

definition start_run_check :: "config \<Rightarrow> err + bytes \<Rightarrow> err + string" where
  "start_run_check cfg rand =
     (if trim_space (cf_Model cfg) = [] \<or> trim_space (cf_Message cfg) = [] then Inl ErrNotConfigured
      else case random_id rand of Inl e \<Rightarrow> Inl (ErrWrap ''create run id: '' e) | Inr runID \<Rightarrow> Inr runID)"

definition start_run_locked ::
  "config \<Rightarrow> u64 \<Rightarrow> string \<Rightarrow> string \<Rightarrow> manual_run_options \<Rightarrow> string \<Rightarrow> instant \<Rightarrow> nat \<Rightarrow> service \<Rightarrow> (err + run_report) \<times> service"
where
  "start_run_locked cfg expectedGeneration trigger occurrenceID options runID now ctx sv =
     (if sv_stopped sv then (Inl ErrStopped, sv)
      else if expectedGeneration \<noteq> sv_configGeneration sv then (Inl ErrStopped, sv)
      else if \<not> cf_HostEnabled cfg then (Inl ErrStopped, sv)
      else if occurrenceID \<noteq> [] \<and> occurrenceID \<in> sv_occurrences sv then (Inl ErrDuplicate, sv)
      else let sv1 = (if occurrenceID \<noteq> [] then remember_occurrence occurrenceID sv else sv)
           in if sv_running sv1 then (Inl ErrBusy, sv1)
              else let report = new_report runID trigger occurrenceID (mo_DryRun options) now
                   in (Inr report, sv1\<lparr>sv_running := True, sv_active := clone_run_report (Some report), sv_activeCancel := Some ctx\<rparr>))"

definition publish_active :: "run_report \<Rightarrow> service \<Rightarrow> service" where
  "publish_active report sv =
     (case sv_active sv of
        None \<Rightarrow> sv
      | Some active \<Rightarrow>
          if rr_RunID active = rr_RunID report then sv\<lparr>sv_active := clone_run_report (Some report)\<rparr> else sv)"

definition finish_report :: "run_report \<Rightarrow> instant \<Rightarrow> run_report" where
  "finish_report report finished =
     report\<lparr>rr_FinishedAt := Some finished, rr_DurationMS := milliseconds (time_sub finished (rr_StartedAt report))\<rparr>"

definition finish_run_locked :: "run_report \<Rightarrow> service \<Rightarrow> service" where
  "finish_run_locked report sv =
     (case sv_active sv of
        None \<Rightarrow> sv
      | Some active \<Rightarrow>
          if rr_RunID active = rr_RunID report
          then sv\<lparr>sv_active := None, sv_running := False, sv_activeCancel := None, sv_last := clone_run_report (Some report)\<rparr>
          else sv)"

definition finish_log :: "run_report \<Rightarrow> log_entry" where
  "finish_log report = log_entry_of ''info'' ''refresh run finished''
     [(''event'', LStr ''run_finished''), (''run_id'', LStr (rr_RunID report)), (''target_count'', LInt (rr_TargetCount report)),
      (''success_count'', LInt (rr_SuccessCount report)), (''failed_count'', LInt (rr_FailedCount report)),
      (''skipped_count'', LInt (rr_SkippedCount report)), (''canceled'', LBool (rr_Canceled report)),
      (''duration_ms'', LInt (rr_DurationMS report)), (''error'', LStr (rr_Error report))]"

definition log_auth_result :: "run_report \<Rightarrow> auth_result \<Rightarrow> string \<Rightarrow> log_entry" where
  "log_auth_result report result model =
     (let level = (if ar_Outcome result = ''failed'' then ''error'' else if ar_Outcome result = ''skipped'' then ''warn'' else ''info'');
          items = [(''event'', LStr ''auth_completed''), (''run_id'', LStr (rr_RunID report)),
            (''auth_index'', LStr (ar_AuthIndex result)), (''provider'', LStr (ar_Provider result)), (''model'', LStr model),
            (''outcome'', LStr (ar_Outcome result)), (''status_code'', LInt (ar_StatusCode result)),
            (''duration_ms'', LInt (ar_DurationMS result))]
      in log_entry_of level ''credential refresh request completed''
           (if ar_Error result \<noteq> [] then items @ [(''error'', LStr (ar_Error result))] else items))"

section \<open>Status and shutdown\<close>

record status =
  st_ConfigGeneration :: u64
  st_Config :: config_summary
  st_ConfigError :: string
  st_PriorityRecoveryPending :: bool
  st_PriorityRecoveryError :: string
  st_Next :: "next_schedule option"
  st_Running :: bool
  st_ActiveRun :: "run_report option"
  st_LastRun :: "run_report option"
  st_SkippedOccurrences :: u64
  st_LastSkippedOccurrence :: string
  st_Stopped :: bool

definition status_of :: "service \<Rightarrow> status" where
  "status_of sv =
     \<lparr> st_ConfigGeneration = sv_configGeneration sv, st_Config = config_summary_of (sv_config sv),
       st_ConfigError = sv_configError sv, st_PriorityRecoveryPending = sv_priorityRecoveryPending sv,
       st_PriorityRecoveryError = sv_priorityRecoveryError sv, st_Next = sv_next sv, st_Running = sv_running sv,
       st_ActiveRun = clone_run_report (sv_active sv), st_LastRun = clone_run_report (sv_last sv),
       st_SkippedOccurrences = sv_skippedOccurrences sv, st_LastSkippedOccurrence = sv_lastSkippedOccurrence sv,
       st_Stopped = sv_stopped sv \<rparr>"

text \<open>The section of \<^verbatim>\<open>Shutdown\<close>: the contexts to cancel, none when the service was stopped before.\<close>

definition shutdown_locked :: "service \<Rightarrow> nat list option \<times> service" where
  "shutdown_locked sv =
     (if sv_stopped sv then (None, sv)
      else (Some (to_list (sv_schedulerCancel sv) @ to_list (sv_activeCancel sv) @ to_list (sv_recoveryCancel sv)),
            sv\<lparr>sv_stopped := True, sv_next := None, sv_schedulerCancel := None, sv_recoveryCancel := None,
               sv_recoveryGeneration := 0, sv_priorityRecoveryPending := False\<rparr>))"

section \<open>The memory of occurrences\<close>

definition occurrences_ok :: "service \<Rightarrow> bool" where
  "occurrences_ok sv \<longleftrightarrow> set (sv_occurrenceOrder sv) = sv_occurrences sv \<and> distinct (sv_occurrenceOrder sv) \<and>
     length (sv_occurrenceOrder sv) \<le> 512"

lemma occurrences_okD:
  "occurrences_ok sv \<Longrightarrow> sv_occurrences sv = set (sv_occurrenceOrder sv)"
  "occurrences_ok sv \<Longrightarrow> distinct (sv_occurrenceOrder sv)"
  by (simp_all add: occurrences_ok_def)

lemma forget_oldest_eq:
  "distinct order \<Longrightarrow> forget_oldest order (set order) = (drop (length order - 512) order, set (drop (length order - 512) order))"
proof (induction order)
  case (Cons o1 order)
  show ?case
  proof (cases "length (o1 # order) > 512")
    case True
    have "set (o1 # order) - {o1} = set order" using Cons.prems by auto
    moreover have "length order - 511 = Suc (length order - 512)" using True by simp
    ultimately show ?thesis using True Cons by (simp add: maxRememberedOccurrences_def)
  next
    case False
    then show ?thesis by (simp add: maxRememberedOccurrences_def)
  qed
qed simp

definition remembered :: "string list \<Rightarrow> string \<Rightarrow> string list" where
  "remembered order x = drop (length order + 1 - 512) (order @ [x])"

lemma remember_occurrence_eq:
  assumes "occurrences_ok sv" "x \<noteq> []" "x \<notin> sv_occurrences sv"
  shows "remember_occurrence x sv = sv\<lparr>sv_occurrences := set (remembered (sv_occurrenceOrder sv) x),
     sv_occurrenceOrder := remembered (sv_occurrenceOrder sv) x\<rparr>"
proof -
  have d: "distinct (sv_occurrenceOrder sv @ [x])" and
       e: "insert x (sv_occurrences sv) = set (sv_occurrenceOrder sv @ [x])"
    using assms by (auto simp: occurrences_ok_def)
  show ?thesis using assms(2) unfolding remember_occurrence_def e forget_oldest_eq [OF d] remembered_def by simp
qed

lemma remembered_props:
  assumes "occurrences_ok sv" "x \<notin> sv_occurrences sv"
  shows "distinct (remembered (sv_occurrenceOrder sv) x)" "length (remembered (sv_occurrenceOrder sv) x) \<le> 512"
    "x \<in> set (remembered (sv_occurrenceOrder sv) x)"
proof -
  show "distinct (remembered (sv_occurrenceOrder sv) x)" unfolding remembered_def
    using assms by (intro distinct_drop) (auto simp: occurrences_ok_def)
  show "length (remembered (sv_occurrenceOrder sv) x) \<le> 512"
    using assms(1) by (simp add: remembered_def occurrences_ok_def)
  have "length (sv_occurrenceOrder sv) + 1 - 512 \<le> length (sv_occurrenceOrder sv)"
    using assms(1) by (simp add: occurrences_ok_def)
  then show "x \<in> set (remembered (sv_occurrenceOrder sv) x)" by (simp add: remembered_def)
qed

lemma remember_occurrence_ok: "occurrences_ok sv \<Longrightarrow> x \<notin> sv_occurrences sv \<Longrightarrow> occurrences_ok (remember_occurrence x sv)"
proof (cases "x = []")
  case True
  then show "occurrences_ok sv \<Longrightarrow> ?thesis" by (simp add: remember_occurrence_def)
next
  case False
  assume "occurrences_ok sv" "x \<notin> sv_occurrences sv"
  from remember_occurrence_eq [OF this(1) False this(2)] remembered_props [OF this] show ?thesis
    by (simp add: occurrences_ok_def)
qed

lemma remember_occurrence_mem:
  assumes "occurrences_ok sv" "x \<noteq> []" "x \<notin> sv_occurrences sv"
  shows "x \<in> sv_occurrences (remember_occurrence x sv)"
    "length (sv_occurrenceOrder sv) < 512 \<Longrightarrow> sv_occurrences sv \<subseteq> sv_occurrences (remember_occurrence x sv)"
  using remember_occurrence_eq [OF assms] remembered_props(3) [OF assms(1,3)] assms(1)
  by (auto simp: remembered_def occurrences_okD)

lemma remember_occurrence_frame [simp]:
  "sv_running (remember_occurrence x sv) = sv_running sv" "sv_active (remember_occurrence x sv) = sv_active sv"
  "sv_stopped (remember_occurrence x sv) = sv_stopped sv" "sv_configGeneration (remember_occurrence x sv) = sv_configGeneration sv"
  "sv_activeCancel (remember_occurrence x sv) = sv_activeCancel sv" "sv_next (remember_occurrence x sv) = sv_next sv"
  "sv_schedulerCancel (remember_occurrence x sv) = sv_schedulerCancel sv" "sv_config (remember_occurrence x sv) = sv_config sv"
  "sv_recoveryCancel (remember_occurrence x sv) = sv_recoveryCancel sv" "sv_last (remember_occurrence x sv) = sv_last sv"
  "sv_recoveryGeneration (remember_occurrence x sv) = sv_recoveryGeneration sv"
  "sv_priorityRecoveryPending (remember_occurrence x sv) = sv_priorityRecoveryPending sv"
  by (simp_all add: remember_occurrence_def split: prod.splits)

lemma new_report_fields [simp]:
  "rr_RunID (new_report i t oc d n) = i" "rr_DryRun (new_report i t oc d n) = d" "rr_OccurrenceID (new_report i t oc d n) = oc"
  "rr_TargetCount (new_report i t oc d n) = 0" "rr_SuccessCount (new_report i t oc d n) = 0" "rr_FailedCount (new_report i t oc d n) = 0"
  "rr_SkippedCount (new_report i t oc d n) = 0" "rr_Results (new_report i t oc d n) = []" "rr_FinishedAt (new_report i t oc d n) = None"
  "rr_Error (new_report i t oc d n) = []" "rr_Canceled (new_report i t oc d n) = False" "rr_StartedAt (new_report i t oc d n) = n"
  by (simp_all add: new_report_def)

section \<open>Starting a run\<close>

definition start_allowed :: "config \<Rightarrow> u64 \<Rightarrow> service \<Rightarrow> bool" where
  "start_allowed cfg generation sv \<longleftrightarrow> \<not> sv_stopped sv \<and> generation = sv_configGeneration sv \<and> cf_HostEnabled cfg"

lemma start_run_cases:
  obtains (refused) "\<not> start_allowed cfg generation sv" "start_run_locked cfg generation trigger occ options runID now ctx sv = (Inl ErrStopped, sv)"
  | (duplicate) "start_allowed cfg generation sv" "occ \<noteq> []" "occ \<in> sv_occurrences sv"
      "start_run_locked cfg generation trigger occ options runID now ctx sv = (Inl ErrDuplicate, sv)"
  | (busy) "start_allowed cfg generation sv" "occ = [] \<or> occ \<notin> sv_occurrences sv" "sv_running sv"
      "start_run_locked cfg generation trigger occ options runID now ctx sv = (Inl ErrBusy, remember_occurrence occ sv)"
  | (started) "start_allowed cfg generation sv" "occ = [] \<or> occ \<notin> sv_occurrences sv" "\<not> sv_running sv"
      "start_run_locked cfg generation trigger occ options runID now ctx sv =
         (Inr (new_report runID trigger occ (mo_DryRun options) now),
          (remember_occurrence occ sv)\<lparr>sv_running := True,
             sv_active := Some (new_report runID trigger occ (mo_DryRun options) now), sv_activeCancel := Some ctx\<rparr>)"
proof -
  have r: "(if occ \<noteq> [] then remember_occurrence occ sv else sv) = remember_occurrence occ sv"
    by (simp add: remember_occurrence_def)
  show ?thesis
    by (cases "start_allowed cfg generation sv"; cases "occ \<noteq> [] \<and> occ \<in> sv_occurrences sv"; cases "sv_running sv")
      (rule refused duplicate busy started; auto simp: start_run_locked_def start_allowed_def Let_def r)+
qed

text \<open>C21. When a scheduled run is started, and why it is not: it starts exactly when the service is open, the
  generation is the current one, the host is enabled, the occurrence is not in memory and no run is
  active. Started or skipped, the occurrence is remembered, so that it is never started again while
  it is among the last 512; the memory stays consistent and bounded.\<close>

theorem start_run_exact:
  assumes "occurrences_ok sv" "occ \<noteq> []" "start_run_locked cfg generation trigger occ options runID now ctx sv = (res, sv')"
  shows "(res = Inr (new_report runID trigger occ (mo_DryRun options) now) \<longleftrightarrow>
            start_allowed cfg generation sv \<and> occ \<notin> sv_occurrences sv \<and> \<not> sv_running sv) \<and>
    (res = Inl ErrBusy \<longleftrightarrow> start_allowed cfg generation sv \<and> occ \<notin> sv_occurrences sv \<and> sv_running sv) \<and>
    (res = Inl ErrDuplicate \<longleftrightarrow> start_allowed cfg generation sv \<and> occ \<in> sv_occurrences sv) \<and>
    (start_allowed cfg generation sv \<longleftrightarrow> res \<noteq> Inl ErrStopped) \<and>
    (start_allowed cfg generation sv \<longrightarrow> occ \<in> sv_occurrences sv' \<and> (occ \<notin> sv_occurrences sv \<longrightarrow> sv_running sv')) \<and>
    (length (sv_occurrenceOrder sv) < 512 \<longrightarrow> sv_occurrences sv \<subseteq> sv_occurrences sv') \<and> occurrences_ok sv'"
proof (cases rule: start_run_cases [of cfg generation sv trigger occ options runID now ctx])
  case busy
  then have "occ \<notin> sv_occurrences sv" using assms(2) by simp
  note mem = remember_occurrence_mem [OF assms(1,2) this] and ok = remember_occurrence_ok [OF assms(1) this]
  have e: "res = Inl ErrBusy" "sv' = remember_occurrence occ sv" using busy(4) assms(3) by auto
  show ?thesis unfolding e using mem ok busy(1,3) \<open>occ \<notin> sv_occurrences sv\<close> by simp
next
  case started
  then have "occ \<notin> sv_occurrences sv" using assms(2) by simp
  note mem = remember_occurrence_mem [OF assms(1,2) this] and ok = remember_occurrence_ok [OF assms(1) this]
  show ?thesis using started mem ok assms(3) \<open>occ \<notin> sv_occurrences sv\<close> by (auto simp: occurrences_ok_def)
qed (use assms in auto)

lemma start_run_exact_witness:
  "\<exists>sv1 sv2. start_run_locked (zero_config\<lparr>cf_HostEnabled := True\<rparr>) 0 ''scheduled'' ''a'' \<lparr> mo_DryRun = False, mo_AuthIndices = [] \<rparr> ''r1'' 5 1
       new_service = (Inr (new_report ''r1'' ''scheduled'' ''a'' False 5), sv1) \<and>
     start_run_locked (zero_config\<lparr>cf_HostEnabled := True\<rparr>) 0 ''scheduled'' ''b'' \<lparr> mo_DryRun = False, mo_AuthIndices = [] \<rparr> ''r2'' 6 2 sv1 =
       (Inl ErrBusy, sv2) \<and> sv_occurrences sv2 \<supseteq> {''a'', ''b''}"
proof -
  let ?cfg = "zero_config\<lparr>cf_HostEnabled := True\<rparr>" and ?o = "\<lparr> mo_DryRun = False, mo_AuthIndices = [] \<rparr>"
  have ok: "occurrences_ok new_service" by (simp add: occurrences_ok_def new_service_def)
  obtain r1 sv1 where s1: "start_run_locked ?cfg 0 ''scheduled'' ''a'' ?o ''r1'' 5 1 new_service = (r1, sv1)" by force
  have al: "start_allowed ?cfg 0 new_service" "''a'' \<notin> sv_occurrences new_service" "\<not> sv_running new_service"
    by (simp_all add: start_allowed_def new_service_def)
  note e1 = start_run_exact [OF ok _ s1]
  have n1: "sv1 = (remember_occurrence ''a'' new_service)\<lparr>sv_running := True,
      sv_active := Some (new_report ''r1'' ''scheduled'' ''a'' False 5), sv_activeCancel := Some 1\<rparr>"
    using s1 al by (cases rule: start_run_cases [of ?cfg 0 new_service "''scheduled''" "''a''" ?o "''r1''" 5 1]) auto
  have r: "start_allowed ?cfg 0 sv1" "sv_occurrences sv1 = {''a''}" "sv_occurrenceOrder sv1 = [''a'']" "sv_running sv1"
    unfolding n1 by (simp_all add: start_allowed_def new_service_def remember_occurrence_def maxRememberedOccurrences_def)
  obtain r2 sv2 where s2: "start_run_locked ?cfg 0 ''scheduled'' ''b'' ?o ''r2'' 6 2 sv1 = (r2, sv2)" by force
  have "occurrences_ok sv1" using e1 by simp
  from start_run_exact [OF this _ s2] r e1 al s1 s2 show ?thesis by auto
qed

end
