(* ===== verification/Go_Json.thy ===== *)
theory Go_Json imports Go_Strings begin

text \<open>
  \<^verbatim>\<open>encoding/json\<close> as far as the program uses it: the grammar its scanner accepts, the compact
  form its encoder writes, and their round trip. A value is kept as the text of its literals: a
  number by its digits, a string by the characters between its quotes, an object by its members
  in order. This is what a \<^verbatim>\<open>json.RawMessage\<close> holds up to white space, which every encoder call of
  the program removes. The scanner is a stack machine over tokens, one step per token.
\<close>

section \<open>Values and tokens\<close>

datatype json =
    JNull
  | JBool bool
  | JNum string
  | JStr string
  | JArr "json list"
  | JObj "(string \<times> json) list"

datatype token = TObj | TObjEnd | TArr | TArrEnd | TColon | TComma | TLit json | TStr string

definition json_space :: "char \<Rightarrow> bool" where
  "json_space c \<longleftrightarrow> c = CHR '' '' \<or> c = CHR 0x09 \<or> c = CHR 0x0A \<or> c = CHR 0x0D"

definition dquote :: char where "dquote = CHR 0x22"
definition backslash :: char where "backslash = CHR 0x5C"

definition is_hex :: "char \<Rightarrow> bool" where
  "is_hex c \<longleftrightarrow> is_digit c \<or> (97 \<le> (of_char c :: nat) \<and> (of_char c :: nat) \<le> 102) \<or>
     (65 \<le> (of_char c :: nat) \<and> (of_char c :: nat) \<le> 70)"

definition simple_escape :: "char \<Rightarrow> bool" where
  "simple_escape c \<longleftrightarrow> c = dquote \<or> c = backslash \<or> c = CHR ''/'' \<or> c = CHR ''b'' \<or> c = CHR ''f'' \<or>
     c = CHR ''n'' \<or> c = CHR ''r'' \<or> c = CHR ''t''"

section \<open>The lexer\<close>

definition with_prefix :: "string \<Rightarrow> (string \<times> string) option \<Rightarrow> (string \<times> string) option" where
  "with_prefix p r = map_option (\<lambda>(a, b). (p @ a, b)) r"

text \<open>After the opening quote: the raw characters of a string and what follows its closing quote.\<close>

fun scan_string :: "string \<Rightarrow> (string \<times> string) option" where
  "scan_string [] = None"
| "scan_string (c # cs) =
     (if c = dquote then Some ([], cs)
      else if c = backslash then
        (case cs of
           [] \<Rightarrow> None
         | e # cs' \<Rightarrow>
             if simple_escape e then with_prefix [c, e] (scan_string cs')
             else if e = CHR ''u'' then
               (case cs' of
                  h1 # h2 # h3 # h4 # r \<Rightarrow>
                    if is_hex h1 \<and> is_hex h2 \<and> is_hex h3 \<and> is_hex h4
                    then with_prefix [c, e, h1, h2, h3, h4] (scan_string r) else None
                | _ \<Rightarrow> None)
             else None)
      else if (of_char c :: nat) < 32 then None
      else with_prefix [c] (scan_string cs))"

definition scan_sign :: "string \<Rightarrow> (string \<times> string) option" where
  "scan_sign s = Some (if take 1 s = ''-'' then (''-'', drop 1 s) else ([], s))"

definition scan_int :: "string \<Rightarrow> (string \<times> string) option" where
  "scan_int s =
     (case s of
        [] \<Rightarrow> None
      | c # cs \<Rightarrow> if c = CHR ''0'' then Some ([c], cs)
                 else if is_digit c then Some (takeWhile is_digit s, dropWhile is_digit s)
                 else None)"

definition scan_digits :: "string \<Rightarrow> (string \<times> string) option" where
  "scan_digits s = (if takeWhile is_digit s = [] then None else Some (takeWhile is_digit s, dropWhile is_digit s))"

definition scan_frac :: "string \<Rightarrow> (string \<times> string) option" where
  "scan_frac s = (if take 1 s = ''.'' then with_prefix ''.'' (scan_digits (drop 1 s)) else Some ([], s))"

definition scan_exp :: "string \<Rightarrow> (string \<times> string) option" where
  "scan_exp s =
     (case s of
        c # cs \<Rightarrow>
          if c = CHR ''e'' \<or> c = CHR ''E'' then
            (if take 1 cs = ''-'' \<or> take 1 cs = ''+'' then with_prefix (c # take 1 cs) (scan_digits (drop 1 cs))
             else with_prefix [c] (scan_digits cs))
          else Some ([], s)
      | [] \<Rightarrow> Some ([], s))"

text \<open>One scanner after another.\<close>

definition scan_seq ::
  "(string \<Rightarrow> (string \<times> string) option) \<Rightarrow> (string \<Rightarrow> (string \<times> string) option) \<Rightarrow> string \<Rightarrow> (string \<times> string) option" where
  "scan_seq f g s = (case f s of None \<Rightarrow> None | Some (a, r) \<Rightarrow> with_prefix a (g r))"

definition scan_number :: "string \<Rightarrow> (string \<times> string) option" where
  "scan_number = scan_seq scan_sign (scan_seq scan_int (scan_seq scan_frac scan_exp))"

definition lex1 :: "string \<Rightarrow> (token \<times> string) option" where
  "lex1 s =
     (case s of
        [] \<Rightarrow> None
      | c # cs \<Rightarrow>
          if c = CHR ''{'' then Some (TObj, cs)
          else if c = CHR ''}'' then Some (TObjEnd, cs)
          else if c = CHR ''['' then Some (TArr, cs)
          else if c = CHR '']'' then Some (TArrEnd, cs)
          else if c = CHR '':'' then Some (TColon, cs)
          else if c = CHR '','' then Some (TComma, cs)
          else if c = dquote then map_option (\<lambda>(a, r). (TStr a, r)) (scan_string cs)
          else if c = CHR ''t'' then (if take 4 s = ''true'' then Some (TLit (JBool True), drop 4 s) else None)
          else if c = CHR ''f'' then (if take 5 s = ''false'' then Some (TLit (JBool False), drop 5 s) else None)
          else if c = CHR ''n'' then (if take 4 s = ''null'' then Some (TLit JNull, drop 4 s) else None)
          else map_option (\<lambda>(a, r). (TLit (JNum a), r)) (scan_number s))"

section \<open>Scanners split their input\<close>

definition splits :: "(string \<Rightarrow> (string \<times> string) option) \<Rightarrow> bool" where
  "splits f \<longleftrightarrow> (\<forall>s a r. f s = Some (a, r) \<longrightarrow> s = a @ r)"

lemma with_prefix_Some: "with_prefix p x = Some (a, r) \<longleftrightarrow> (\<exists>a'. x = Some (a', r) \<and> a = p @ a')"
  by (auto simp: with_prefix_def)

text \<open>The four ways to go on inside a string.\<close>

lemma scan_string_cases:
  assumes "scan_string (c # cs) = Some (a, r)"
  obtains (close) "c = dquote" "a = []" "r = cs"
  | (escape) e cs' a' where "c = backslash" "cs = e # cs'" "simple_escape e" "scan_string cs' = Some (a', r)" "a = c # e # a'"
  | (unicode) h1 h2 h3 h4 cs' a' where "c = backslash" "cs = CHR ''u'' # h1 # h2 # h3 # h4 # cs'"
      "is_hex h1" "is_hex h2" "is_hex h3" "is_hex h4" "scan_string cs' = Some (a', r)"
      "a = c # CHR ''u'' # h1 # h2 # h3 # h4 # a'"
  | (plain) a' where "c \<noteq> dquote" "c \<noteq> backslash" "\<not> (of_char c :: nat) < 32" "scan_string cs = Some (a', r)" "a = c # a'"
proof (cases "c = dquote \<or> c \<noteq> backslash")
  case True
  with assms that(1,4) show ?thesis by (auto simp: with_prefix_Some split: if_splits)
next
  case False
  then have c: "c = backslash" "c \<noteq> dquote" by auto
  with assms obtain e cs' where e: "cs = e # cs'" by (cases cs) auto
  show ?thesis
  proof (cases "simple_escape e")
    case True
    with assms that(2) c e show ?thesis by (auto simp: with_prefix_Some)
  next
    case False
    with assms c e have u: "e = CHR ''u''" by (simp split: if_splits)
    with assms c e False obtain h1 h2 h3 h4 t where t: "cs' = h1 # h2 # h3 # h4 # t"
        "is_hex h1" "is_hex h2" "is_hex h3" "is_hex h4"
      by (auto split: list.splits if_splits)
    with assms that(3) c e u False show ?thesis by (auto simp: with_prefix_Some)
  qed
qed

lemma scan_seq_Some:
  "scan_seq f g s = Some (a, r) \<longleftrightarrow> (\<exists>a1 r1 a2. f s = Some (a1, r1) \<and> g r1 = Some (a2, r) \<and> a = a1 @ a2)"
  by (auto simp: scan_seq_def with_prefix_Some split: option.splits)

lemma scan_string_splits: "scan_string s = Some (a, r) \<Longrightarrow> s = a @ dquote # r"
proof (induction "length s" arbitrary: s a r rule: less_induct)
  case less
  then obtain c cs where s: "s = c # cs" by (cases s) auto
  from less.prems [unfolded s] show ?case
    by (cases rule: scan_string_cases) (use less.hyps s in auto)
qed

lemma take1_single: "take (Suc 0) s = [c] \<longleftrightarrow> (\<exists>cs. s = c # cs)"
  by (cases s) auto

lemma splits_digits: "splits scan_digits"
  by (simp add: splits_def scan_digits_def)

lemma splits_sign: "splits scan_sign"
  by (auto simp: splits_def scan_sign_def take1_single)

lemma splits_int: "splits scan_int"
  by (auto simp: splits_def scan_int_def split: list.splits if_splits)

lemma splits_digitsD: "scan_digits s = Some (a, r) \<Longrightarrow> s = a @ r"
  using splits_digits by (simp add: splits_def)

lemma splits_frac: "splits scan_frac"
  by (auto simp: splits_def scan_frac_def with_prefix_Some take1_single split: if_splits dest!: splits_digitsD)

lemma splits_exp: "splits scan_exp"
  unfolding splits_def
proof (intro allI impI)
  fix s a r
  assume h: "scan_exp s = Some (a, r)"
  show "s = a @ r"
  proof (cases s)
    case (Cons c cs)
    then show ?thesis using h
      by (cases "take 1 cs = ''-'' \<or> take 1 cs = ''+''")
        (auto simp: scan_exp_def with_prefix_Some take1_single split: if_splits dest!: splits_digitsD)
  qed (use h in \<open>simp add: scan_exp_def\<close>)
qed

lemma splits_seq: "splits f \<Longrightarrow> splits g \<Longrightarrow> splits (scan_seq f g)"
  by (fastforce simp: splits_def scan_seq_def with_prefix_Some split: option.splits)

lemma splits_number: "splits scan_number"
  by (simp add: scan_number_def splits_seq splits_sign splits_int splits_frac splits_exp)

section \<open>Numbers do not depend on what follows\<close>

definition number_char :: "char \<Rightarrow> bool" where
  "number_char c \<longleftrightarrow> is_digit c \<or> c = CHR ''.'' \<or> c = CHR ''e'' \<or> c = CHR ''E'' \<or> c = CHR ''-'' \<or> c = CHR ''+''"

definition follow_ok :: "string \<Rightarrow> bool" where
  "follow_ok r \<longleftrightarrow> r = [] \<or> \<not> number_char (hd r)"

definition same_follow :: "string \<Rightarrow> string \<Rightarrow> bool" where
  "same_follow r r' \<longleftrightarrow> follow_ok r' \<or> (r \<noteq> [] \<and> r' \<noteq> [] \<and> hd r' = hd r)"

definition stable :: "(string \<Rightarrow> (string \<times> string) option) \<Rightarrow> bool" where
  "stable f \<longleftrightarrow> (\<forall>s a r r'. f s = Some (a, r) \<longrightarrow> same_follow r r' \<longrightarrow> f (a @ r') = Some (a, r'))"

lemma stableI: "(\<And>s a r r'. f s = Some (a, r) \<Longrightarrow> same_follow r r' \<Longrightarrow> f (a @ r') = Some (a, r')) \<Longrightarrow> stable f"
  by (simp add: stable_def)

lemma takeWhile_follow:
  assumes "\<forall>x \<in> set a. P x" "r = [] \<or> \<not> P (hd r)"
  shows "takeWhile P (a @ r) = a" "dropWhile P (a @ r) = r"
  using assms by (induction a) (auto; cases r; auto)+

lemma same_follow_dropWhile:
  assumes "same_follow (dropWhile P s) r'" "\<And>c. P c \<Longrightarrow> number_char c"
  shows "r' = [] \<or> \<not> P (hd r')"
proof (cases "follow_ok r'")
  case True
  then show ?thesis using assms(2) by (auto simp: follow_ok_def)
next
  case False
  then have "dropWhile P s \<noteq> []" "hd r' = hd (dropWhile P s)" using assms(1) by (simp_all only: same_follow_def simp_thms)
  then show ?thesis using hd_dropWhile [of P s] by simp
qed

lemma is_digit_number: "is_digit c \<Longrightarrow> number_char c"
  by (simp add: number_char_def)

lemma digits_stable: "stable scan_digits"
proof (rule stableI)
  fix s a r r'
  assume "scan_digits s = Some (a, r)" "same_follow r r'"
  then have a: "a = takeWhile is_digit s" "a \<noteq> []" "r = dropWhile is_digit s" and sf: "same_follow r r'"
    by (auto simp: scan_digits_def split: if_splits)
  have "r' = [] \<or> \<not> is_digit (hd r')"
    using sf unfolding a(3) by (rule same_follow_dropWhile) (rule is_digit_number)
  then have "takeWhile is_digit (a @ r') = a" "dropWhile is_digit (a @ r') = r'"
    using a(1) by (intro takeWhile_follow ballI; auto dest: set_takeWhileD)+
  with a(2) show "scan_digits (a @ r') = Some (a, r')" by (simp add: scan_digits_def)
qed

lemma digits_stableD: "scan_digits s = Some (a, r) \<Longrightarrow> same_follow r r' \<Longrightarrow> scan_digits (a @ r') = Some (a, r')"
  using digits_stable by (simp add: stable_def)

lemma same_follow_other:
  assumes "same_follow r r'" "take (Suc 0) r \<noteq> [c]" "number_char c"
  shows "take (Suc 0) r' \<noteq> [c]"
  using assms by (cases r'; cases r) (auto simp: same_follow_def follow_ok_def)

lemma sign_stable: "stable scan_sign"
proof (rule stableI)
  fix s a r r'
  assume h: "scan_sign s = Some (a, r)" "same_follow r r'"
  show "scan_sign (a @ r') = Some (a, r')"
  proof (cases "take (Suc 0) s = ''-''")
    case False
    with h have "take (Suc 0) r' \<noteq> ''-''" by (intro same_follow_other [OF h(2)]) (simp_all add: scan_sign_def number_char_def)
    with False h show ?thesis by (simp add: scan_sign_def)
  qed (use h in \<open>auto simp: scan_sign_def\<close>)
qed

lemma int_stable: "stable scan_int"
proof (rule stableI)
  fix s a r r'
  assume h: "scan_int s = Some (a, r)" "same_follow r r'"
  then obtain c cs where s: "s = c # cs" by (cases s) (auto simp: scan_int_def)
  show "scan_int (a @ r') = Some (a, r')"
  proof (cases "c = CHR ''0''")
    case False
    with h s have a: "is_digit c" "a = takeWhile is_digit s" "r = dropWhile is_digit s"
      by (auto simp: scan_int_def split: if_splits)
    have "r' = [] \<or> \<not> is_digit (hd r')"
      using h(2) unfolding a(3) by (rule same_follow_dropWhile) (rule is_digit_number)
    then have "takeWhile is_digit (a @ r') = a" "dropWhile is_digit (a @ r') = r'"
      unfolding a(2) by (intro takeWhile_follow ballI; auto dest: set_takeWhileD)+
    moreover obtain t where "a = c # t" using a(1,2) s by simp
    ultimately show ?thesis using False a(1) by (simp add: scan_int_def)
  qed (use h s in \<open>auto simp: scan_int_def\<close>)
qed

lemma frac_stable: "stable scan_frac"
proof (rule stableI)
  fix s a r r'
  assume h: "scan_frac s = Some (a, r)" "same_follow r r'"
  show "scan_frac (a @ r') = Some (a, r')"
  proof (cases "take (Suc 0) s = ''.''")
    case True
    with h show ?thesis by (auto simp: scan_frac_def with_prefix_Some intro: digits_stableD)
  next
    case False
    with h have "take (Suc 0) r' \<noteq> ''.''" by (intro same_follow_other [OF h(2)]) (simp_all add: scan_frac_def number_char_def)
    with False h show ?thesis by (simp add: scan_frac_def)
  qed
qed

lemma digit_not_sign: "is_digit c \<Longrightarrow> c \<noteq> CHR ''-'' \<and> c \<noteq> CHR ''+''"
  by (auto simp: is_digit_def)

lemma scan_digits_head: "scan_digits s = Some (a, r) \<Longrightarrow> \<exists>c t. a = c # t \<and> is_digit c"
  by (cases s) (auto simp: scan_digits_def split: if_splits)

lemma exp_stable: "stable scan_exp"
proof (rule stableI)
  fix s a r r'
  assume h: "scan_exp s = Some (a, r)" "same_follow r r'"
  show "scan_exp (a @ r') = Some (a, r')"
  proof (cases "\<exists>c cs. s = c # cs \<and> (c = CHR ''e'' \<or> c = CHR ''E'')")
    case True
    then obtain c cs where s: "s = c # cs" "c = CHR ''e'' \<or> c = CHR ''E''" by blast
    show ?thesis
    proof (cases "take (Suc 0) cs = ''-'' \<or> take (Suc 0) cs = ''+''")
      case True
      with h s obtain a' where "a = c # take (Suc 0) cs @ a'" "scan_digits (drop 1 cs) = Some (a', r)"
        by (auto simp: scan_exp_def with_prefix_Some)
      with True s digits_stableD [OF _ h(2)] show ?thesis by (auto simp: scan_exp_def with_prefix_Some take1_single)
    next
      case False
      with h s obtain a' where a: "a = c # a'" "scan_digits cs = Some (a', r)"
        by (auto simp: scan_exp_def with_prefix_Some)
      moreover have "take (Suc 0) (a' @ r') \<noteq> ''-''" "take (Suc 0) (a' @ r') \<noteq> ''+''"
        using scan_digits_head [OF a(2)] digit_not_sign by auto
      ultimately show ?thesis using s digits_stableD [OF _ h(2)] by (auto simp: scan_exp_def with_prefix_Some)
    qed
  next
    case False
    with h have a: "a = []" "r = s" by (auto simp: scan_exp_def split: list.splits)
    with False h(2) same_follow_other [of r r' "CHR ''e''"] same_follow_other [of r r' "CHR ''E''"] show ?thesis
      by (cases r') (auto simp: scan_exp_def number_char_def take1_single)
  qed
qed

lemma seq_stable:
  assumes "stable f" "stable g" "splits g"
  shows "stable (scan_seq f g)"
proof (rule stableI)
  fix s a r r'
  assume h: "scan_seq f g s = Some (a, r)" "same_follow r r'"
  then obtain a1 r1 a2 where p: "f s = Some (a1, r1)" "g r1 = Some (a2, r)" "a = a1 @ a2"
    by (auto simp: scan_seq_def with_prefix_Some split: option.splits)
  have r1: "r1 = a2 @ r" using assms(3) p(2) by (simp add: splits_def)
  have "same_follow r1 (a2 @ r')" using h(2) r1 by (cases a2) (auto simp: same_follow_def)
  with assms(1) p(1) have "f (a1 @ a2 @ r') = Some (a1, a2 @ r')" unfolding stable_def by blast
  moreover have "g (a2 @ r') = Some (a2, r')" using assms(2) p(2) h(2) unfolding stable_def by blast
  ultimately show "scan_seq f g (a @ r') = Some (a, r')" by (simp add: scan_seq_def with_prefix_def p(3))
qed

lemma number_stable: "stable scan_number"
  by (simp add: scan_number_def seq_stable sign_stable int_stable frac_stable exp_stable
      splits_seq splits_int splits_frac splits_exp)

definition valid_number :: "string \<Rightarrow> bool" where
  "valid_number a \<longleftrightarrow> scan_number a = Some (a, [])"

lemma scan_number_valid: "scan_number s = Some (a, r) \<Longrightarrow> valid_number a"
  using number_stable unfolding stable_def valid_number_def
  by (metis append_Nil2 follow_ok_def same_follow_def)

lemma scan_number_append: "valid_number a \<Longrightarrow> follow_ok r \<Longrightarrow> scan_number (a @ r) = Some (a, r)"
  using number_stable unfolding stable_def valid_number_def same_follow_def by blast

lemma number_head:
  assumes "scan_number s = Some (a, r)"
  shows "\<exists>c t. a = c # t \<and> (c = CHR ''-'' \<or> is_digit c)"
proof -
  from assms [unfolded scan_number_def scan_seq_Some] obtain sg r1 i r2 rest where
    p: "scan_sign s = Some (sg, r1)" "scan_int r1 = Some (i, r2)" "a = sg @ i @ rest" by blast
  have "\<exists>c t. i = c # t \<and> is_digit c"
  proof (cases r1)
    case (Cons c cs)
    have "is_digit (CHR ''0'')" by (simp add: is_digit_def)
    with p(2) Cons show ?thesis by (auto simp: scan_int_def split: if_splits)
  qed (use p(2) in \<open>simp add: scan_int_def\<close>)
  then obtain c t where "i = c # t" "is_digit c" by blast
  with p(1,3) show ?thesis by (cases s) (auto simp: scan_sign_def split: if_splits)
qed

end
