(* ===== verification/Json_Parse.thy ===== *)
theory Json_Parse imports Go_Json begin

text \<open>
  The token stream of a document, the stack machine that checks it and builds the value, the
  compact printer, and the round trip between them.
\<close>

section \<open>The token stream\<close>

lemma lex1_shorter: "lex1 s = Some (t, r) \<Longrightarrow> length r < length s"
proof (cases s)
  case (Cons c cs)
  assume l: "lex1 s = Some (t, r)"
  have num: "length r' < length s" if "scan_number s = Some (a, r')" for a r'
  proof -
    have "s = a @ r'" using splits_number that by (simp add: splits_def)
    with number_head [OF that] show ?thesis by auto
  qed
  have str: "length r' < length s" if "scan_string cs = Some (a, r')" for a r'
    using scan_string_splits [OF that] Cons by simp
  show ?thesis using l Cons num str
    by (auto simp: lex1_def split: if_splits)
qed (simp add: lex1_def)

function lex :: "string \<Rightarrow> token list option" where
  "lex [] = Some []"
| "lex (c # cs) =
     (if json_space c then lex cs
      else case lex1 (c # cs) of
        None \<Rightarrow> None
      | Some (t, r) \<Rightarrow> map_option (Cons t) (lex r))"
  by pat_completeness auto
termination by (relation "measure length") (auto dest: lex1_shorter)

section \<open>The stack machine\<close>

text \<open>An open array holds its elements so far; an open object its members so far and the current key.\<close>

datatype frame = AFrame "json list" | OFrame "(string \<times> json) list" string

datatype jmode = WantValue | WantValueOrEnd | WantKey | WantKeyOrEnd | WantColon | WantCommaOrEnd | DoneValue json

type_synonym jstate = "frame list \<times> jmode"

definition maxNestingDepth :: int where
  "maxNestingDepth = 10000"

fun deliver :: "json \<Rightarrow> frame list \<Rightarrow> jstate" where
  "deliver v [] = ([], DoneValue v)"
| "deliver v (AFrame vs # st) = (AFrame (vs @ [v]) # st, WantCommaOrEnd)"
| "deliver v (OFrame kvs k # st) = (OFrame (kvs @ [(k, v)]) [] # st, WantCommaOrEnd)"

definition push_frame :: "frame \<Rightarrow> frame list \<Rightarrow> jmode \<Rightarrow> jstate option" where
  "push_frame f st m = (if int (length st) < maxNestingDepth then Some (f # st, m) else None)"

definition step_value :: "frame list \<Rightarrow> token \<Rightarrow> jstate option" where
  "step_value st t =
     (case t of
        TLit v \<Rightarrow> Some (deliver v st)
      | TStr s \<Rightarrow> Some (deliver (JStr s) st)
      | TArr \<Rightarrow> push_frame (AFrame []) st WantValueOrEnd
      | TObj \<Rightarrow> push_frame (OFrame [] []) st WantKeyOrEnd
      | _ \<Rightarrow> None)"

definition step_key :: "frame list \<Rightarrow> token \<Rightarrow> jstate option" where
  "step_key st t =
     (case (st, t) of
        (OFrame kvs _ # st', TStr k) \<Rightarrow> Some (OFrame kvs k # st', WantColon)
      | _ \<Rightarrow> None)"

definition step_end :: "frame list \<Rightarrow> token \<Rightarrow> jstate option" where
  "step_end st t =
     (case (st, t) of
        (AFrame vs # st', TArrEnd) \<Rightarrow> Some (deliver (JArr vs) st')
      | (OFrame kvs _ # st', TObjEnd) \<Rightarrow> Some (deliver (JObj kvs) st')
      | _ \<Rightarrow> None)"

definition step_comma :: "frame list \<Rightarrow> jstate option" where
  "step_comma st =
     (case st of
        AFrame _ # _ \<Rightarrow> Some (st, WantValue)
      | OFrame _ _ # _ \<Rightarrow> Some (st, WantKey)
      | [] \<Rightarrow> None)"

fun jstep :: "jstate \<Rightarrow> token \<Rightarrow> jstate option" where
  "jstep (st, WantValue) t = step_value st t"
| "jstep (st, WantValueOrEnd) t = (if t = TArrEnd then step_end st t else step_value st t)"
| "jstep (st, WantKey) t = step_key st t"
| "jstep (st, WantKeyOrEnd) t = (if t = TObjEnd then step_end st t else step_key st t)"
| "jstep (st, WantColon) t = (if t = TColon then Some (st, WantValue) else None)"
| "jstep (st, WantCommaOrEnd) t = (if t = TComma then step_comma st else step_end st t)"
| "jstep (st, DoneValue v) t = None"

fun jrun :: "jstate \<Rightarrow> token list \<Rightarrow> jstate option" where
  "jrun s [] = Some s"
| "jrun s (t # ts) = (case jstep s t of None \<Rightarrow> None | Some s' \<Rightarrow> jrun s' ts)"

definition parse_tokens :: "token list \<Rightarrow> json option" where
  "parse_tokens ts = (case jrun ([], WantValue) ts of Some ([], DoneValue v) \<Rightarrow> Some v | _ \<Rightarrow> None)"

text \<open>\<^verbatim>\<open>json.Unmarshal\<close>'s check of the whole input, and the value it holds.\<close>

definition parse_json :: "string \<Rightarrow> json option" where
  "parse_json s = (case lex s of None \<Rightarrow> None | Some ts \<Rightarrow> parse_tokens ts)"

section \<open>Printing\<close>

fun tokens_of :: "json \<Rightarrow> token list"
  and element_tokens :: "json list \<Rightarrow> token list"
  and member_tokens :: "(string \<times> json) list \<Rightarrow> token list" where
  "tokens_of JNull = [TLit JNull]"
| "tokens_of (JBool b) = [TLit (JBool b)]"
| "tokens_of (JNum a) = [TLit (JNum a)]"
| "tokens_of (JStr a) = [TStr a]"
| "tokens_of (JArr vs) = TArr # element_tokens vs @ [TArrEnd]"
| "tokens_of (JObj kvs) = TObj # member_tokens kvs @ [TObjEnd]"
| "element_tokens [] = []"
| "element_tokens (v # vs) = tokens_of v @ (if vs = [] then [] else TComma # element_tokens vs)"
| "member_tokens [] = []"
| "member_tokens ((k, v) # kvs) = TStr k # TColon # tokens_of v @ (if kvs = [] then [] else TComma # member_tokens kvs)"

fun literal_text :: "json \<Rightarrow> string" where
  "literal_text JNull = ''null''"
| "literal_text (JBool b) = (if b then ''true'' else ''false'')"
| "literal_text (JNum a) = a"
| "literal_text _ = []"

fun token_text :: "token \<Rightarrow> string" where
  "token_text TObj = ''{''"
| "token_text TObjEnd = ''}''"
| "token_text TArr = ''[''"
| "token_text TArrEnd = '']''"
| "token_text TColon = '':''"
| "token_text TComma = '',''"
| "token_text (TLit v) = literal_text v"
| "token_text (TStr a) = dquote # a @ [dquote]"

definition print_raw :: "json \<Rightarrow> string" where
  "print_raw v = concat (map token_text (tokens_of v))"

text \<open>The HTML escaping of the encoder: \<^verbatim>\<open><\<close>, \<^verbatim>\<open>>\<close>, \<^verbatim>\<open>&\<close> and the line separators U+2028, U+2029.\<close>

definition u_escape :: "string \<Rightarrow> string" where
  "u_escape h = backslash # CHR ''u'' # h"

fun html_escape :: "string \<Rightarrow> string" where
  "html_escape [] = []"
| "html_escape (c # cs) =
     (if c = CHR ''<'' then u_escape ''003c'' @ html_escape cs
      else if c = CHR ''>'' then u_escape ''003e'' @ html_escape cs
      else if c = CHR ''&'' then u_escape ''0026'' @ html_escape cs
      else if c = CHR 0xE2 \<and> take 2 cs = [CHR 0x80, CHR 0xA8] then u_escape ''2028'' @ html_escape (drop 2 cs)
      else if c = CHR 0xE2 \<and> take 2 cs = [CHR 0x80, CHR 0xA9] then u_escape ''2029'' @ html_escape (drop 2 cs)
      else c # html_escape cs)"

fun compact_json :: "json \<Rightarrow> json" where
  "compact_json (JStr a) = JStr (html_escape a)"
| "compact_json (JArr vs) = JArr (map compact_json vs)"
| "compact_json (JObj kvs) = JObj (map (\<lambda>(k, v). (html_escape k, compact_json v)) kvs)"
| "compact_json v = v"

text \<open>What the encoder writes for a raw message.\<close>

definition print_json :: "json \<Rightarrow> string" where
  "print_json v = print_raw (compact_json v)"

section \<open>Well-formed values\<close>

definition valid_string :: "string \<Rightarrow> bool" where
  "valid_string a \<longleftrightarrow> scan_string (a @ [dquote]) = Some (a, [])"

fun wf_json :: "json \<Rightarrow> bool" where
  "wf_json (JNum a) \<longleftrightarrow> valid_number a"
| "wf_json (JStr a) \<longleftrightarrow> valid_string a"
| "wf_json (JArr vs) \<longleftrightarrow> list_all wf_json vs"
| "wf_json (JObj kvs) \<longleftrightarrow> list_all (\<lambda>(k, v). valid_string k \<and> wf_json v) kvs"
| "wf_json _ \<longleftrightarrow> True"

fun json_depth :: "json \<Rightarrow> nat" where
  "json_depth (JArr vs) = Suc (foldr max (map json_depth vs) 0)"
| "json_depth (JObj kvs) = Suc (foldr max (map (\<lambda>kv. json_depth (snd kv)) kvs) 0)"
| "json_depth _ = 0"

fun wf_token :: "token \<Rightarrow> bool" where
  "wf_token (TLit (JNum a)) \<longleftrightarrow> valid_number a"
| "wf_token (TLit v) \<longleftrightarrow> v = JNull \<or> (\<exists>b. v = JBool b)"
| "wf_token (TStr a) \<longleftrightarrow> valid_string a"
| "wf_token _ \<longleftrightarrow> True"

lemma scan_string_append: "scan_string s = Some (a, r) \<Longrightarrow> scan_string (a @ dquote # r') = Some (a, r')"
proof (induction "length s" arbitrary: s a r rule: less_induct)
  case less
  then obtain c cs where s: "s = c # cs" by (cases s) auto
  from less.prems [unfolded s] show ?case
  proof (cases rule: scan_string_cases)
    case close
    then show ?thesis by simp
  next
    case (escape e cs' a')
    then have "scan_string (a' @ dquote # r') = Some (a', r')" using less.hyps [of cs' a' r] s by simp
    with escape show ?thesis by (simp add: with_prefix_def backslash_def dquote_def)
  next
    case (unicode h1 h2 h3 h4 cs' a')
    then have "scan_string (a' @ dquote # r') = Some (a', r')" using less.hyps [of cs' a' r] s by simp
    with unicode show ?thesis by (simp add: with_prefix_def backslash_def dquote_def simple_escape_def)
  next
    case (plain a')
    then have "scan_string (a' @ dquote # r') = Some (a', r')" using less.hyps [of cs a' r] s by simp
    with plain show ?thesis by (simp add: with_prefix_def)
  qed
qed

lemma valid_string_scan: "valid_string a \<Longrightarrow> scan_string (a @ dquote # r) = Some (a, r)"
  unfolding valid_string_def by (rule scan_string_append)

lemma scan_string_valid: "scan_string s = Some (a, r) \<Longrightarrow> valid_string a"
  unfolding valid_string_def by (drule scan_string_append)

section \<open>Lexing what was printed\<close>

definition is_num_token :: "token \<Rightarrow> bool" where
  "is_num_token t \<longleftrightarrow> (\<exists>a. t = TLit (JNum a))"

definition closer :: "token \<Rightarrow> bool" where
  "closer t \<longleftrightarrow> t = TComma \<or> t = TArrEnd \<or> t = TObjEnd"

fun spaced :: "token list \<Rightarrow> bool" where
  "spaced [] = True"
| "spaced (t # ts) = ((is_num_token t \<longrightarrow> ts = [] \<or> closer (hd ts)) \<and> spaced ts)"

definition other_start :: "char \<Rightarrow> bool" where
  "other_start c \<longleftrightarrow> c = CHR ''{'' \<or> c = CHR ''}'' \<or> c = CHR ''['' \<or> c = CHR '']'' \<or> c = CHR '':'' \<or> c = CHR '','' \<or>
     c = dquote \<or> c = CHR ''t'' \<or> c = CHR ''f'' \<or> c = CHR ''n'' \<or> json_space c"

lemma number_start: "c = CHR ''-'' \<or> is_digit c \<Longrightarrow> \<not> other_start c"
  by (auto simp: other_start_def is_digit_def dquote_def json_space_def)

lemma lex1_number:
  assumes "valid_number a" "follow_ok s"
  shows "lex1 (a @ s) = Some (TLit (JNum a), s) \<and> (\<exists>c t. a = c # t \<and> \<not> json_space c)"
proof -
  obtain c t where a: "a = c # t" "c = CHR ''-'' \<or> is_digit c"
    using number_head assms(1) unfolding valid_number_def by blast
  note ns = number_start [OF a(2), unfolded other_start_def]
  have "scan_number (c # t @ s) = Some (a, s)" using scan_number_append [OF assms] a(1) by simp
  with ns a(1) show ?thesis by (simp add: lex1_def)
qed

lemma lex_token:
  assumes "wf_token t" "is_num_token t \<Longrightarrow> follow_ok s"
  shows "lex (token_text t @ s) = map_option (Cons t) (lex s)"
proof (cases "is_num_token t")
  case True
  then obtain a where t: "t = TLit (JNum a)" by (auto simp: is_num_token_def)
  from lex1_number [of a s] assms t True obtain c cs where "lex1 (a @ s) = Some (t, s)" "a = c # cs" "\<not> json_space c"
    by auto
  then show ?thesis using t by simp
next
  case False
  have "lex1 (token_text t @ s) = Some (t, s) \<and> (\<exists>c cs. token_text t = c # cs \<and> \<not> json_space c)"
  proof (cases t)
    case (TLit v)
    with assms(1) False show ?thesis
      by (cases v) (auto simp: lex1_def is_num_token_def json_space_def dquote_def eval_nat_numeral)
  next
    case (TStr a)
    then show ?thesis using valid_string_scan [of a s] assms(1)
      by (simp add: lex1_def dquote_def json_space_def)
  qed (simp_all add: lex1_def json_space_def dquote_def)
  then show ?thesis by auto
qed

lemma closer_follow: "closer t \<Longrightarrow> follow_ok (token_text t @ s)"
  by (auto simp: closer_def follow_ok_def number_char_def is_digit_def)

lemma lex_tokens: "list_all wf_token ts \<Longrightarrow> spaced ts \<Longrightarrow> lex (concat (map token_text ts)) = Some ts"
proof (induction ts)
  case (Cons t ts)
  have "follow_ok (concat (map token_text ts))" if "is_num_token t"
  proof (cases ts)
    case (Cons u us)
    with \<open>spaced (t # ts)\<close> that have "closer u" by simp
    from closer_follow [OF this, of "concat (map token_text us)"] Cons show ?thesis by simp
  qed (simp add: follow_ok_def)
  with Cons lex_token [of t] show ?case by simp
qed simp

lemma spaced_value:
  "ts = [] \<or> closer (hd ts) \<Longrightarrow> spaced ts \<Longrightarrow> spaced (tokens_of v @ ts)"
  "ts \<noteq> [] \<Longrightarrow> closer (hd ts) \<Longrightarrow> spaced ts \<Longrightarrow> spaced (element_tokens vs @ ts)"
  "ts \<noteq> [] \<Longrightarrow> closer (hd ts) \<Longrightarrow> spaced ts \<Longrightarrow> spaced (member_tokens kvs @ ts)"
proof (induction v and vs and kvs arbitrary: ts and ts and ts rule: tokens_of_element_tokens_member_tokens.induct)
qed (auto simp: is_num_token_def closer_def)

lemma wf_tokens:
  "wf_json v \<Longrightarrow> list_all wf_token (tokens_of v)"
  "list_all wf_json vs \<Longrightarrow> list_all wf_token (element_tokens vs)"
  "list_all (\<lambda>(k, v). valid_string k \<and> wf_json v) kvs \<Longrightarrow> list_all wf_token (member_tokens kvs)"
  by (induction v and vs and kvs rule: tokens_of_element_tokens_member_tokens.induct) auto

section \<open>Running the machine on what was printed\<close>

lemma depth_elements:
  "foldr max (map json_depth vs) 0 \<le> n \<longleftrightarrow> (\<forall>v \<in> set vs. json_depth v \<le> n)"
  "foldr max (map (\<lambda>kv. json_depth (snd kv)) kvs) 0 \<le> n \<longleftrightarrow> (\<forall>kv \<in> set kvs. json_depth (snd kv) \<le> n)"
  by (induction vs) (simp_all, induction kvs, simp_all)

lemma depth_le_iff:
  "json_depth (JArr vs) \<le> Suc n \<longleftrightarrow> (\<forall>v \<in> set vs. json_depth v \<le> n)"
  "json_depth (JObj kvs) \<le> Suc n \<longleftrightarrow> (\<forall>kv \<in> set kvs. json_depth (snd kv) \<le> n)"
  by (simp_all add: depth_elements)

definition fits :: "nat \<Rightarrow> nat \<Rightarrow> bool" where
  "fits d l \<longleftrightarrow> int (d + l) \<le> maxNestingDepth"

lemma fits_JArr: "fits (json_depth (JArr vs)) l \<Longrightarrow> v \<in> set vs \<Longrightarrow> fits (json_depth v) (Suc l)"
  using depth_elements(1) [of vs "foldr max (map json_depth vs) 0"] by (fastforce simp: fits_def)

lemma fits_JObj: "fits (json_depth (JObj kvs)) l \<Longrightarrow> (k, v) \<in> set kvs \<Longrightarrow> fits (json_depth v) (Suc l)"
  using depth_elements(2) [of kvs "foldr max (map (\<lambda>kv. json_depth (snd kv)) kvs) 0"] by (fastforce simp: fits_def)

lemma fits_push: "fits (Suc d) (length st) \<Longrightarrow> push_frame f st m = Some (f # st, m)"
  by (simp add: fits_def push_frame_def)

lemma run_value:
  "fits (json_depth v) (length st) \<Longrightarrow> m = WantValue \<or> m = WantValueOrEnd \<Longrightarrow>
     jrun (st, m) (tokens_of v @ ts) = jrun (deliver v st) ts"
  "(\<And>v. v \<in> set vs \<Longrightarrow> fits (json_depth v) (Suc (length st))) \<Longrightarrow> vs \<noteq> [] \<Longrightarrow> m = WantValue \<or> m = WantValueOrEnd \<Longrightarrow>
     jrun (AFrame us # st, m) (element_tokens vs @ TArrEnd # ts) = jrun (deliver (JArr (us @ vs)) st) ts"
  "(\<And>k v. (k, v) \<in> set kvs \<Longrightarrow> fits (json_depth v) (Suc (length st))) \<Longrightarrow> kvs \<noteq> [] \<Longrightarrow> m = WantKey \<or> m = WantKeyOrEnd \<Longrightarrow>
     jrun (OFrame os k0 # st, m) (member_tokens kvs @ TObjEnd # ts) = jrun (deliver (JObj (os @ kvs)) st) ts"
proof (induction v and vs and kvs arbitrary: st m ts and us st m ts and os k0 st m ts
    rule: tokens_of_element_tokens_member_tokens.induct)
  case (5 vs)
  then show ?case
  proof (cases "vs = []")
    case True
    with 5(2,3) show ?thesis by (auto simp: step_value_def fits_push step_end_def)
  next
    case False
    have "jrun (AFrame [] # st, WantValueOrEnd) (element_tokens vs @ TArrEnd # ts) = jrun (deliver (JArr vs) st) ts"
      using 5(1) [of st WantValueOrEnd "[]" ts] fits_JArr [OF 5(2)] False by simp
    with 5(2,3) show ?thesis by (auto simp: step_value_def fits_push)
  qed
next
  case (6 kvs)
  then show ?case
  proof (cases "kvs = []")
    case True
    with 6(2,3) show ?thesis by (auto simp: step_value_def fits_push step_end_def)
  next
    case False
    have "jrun (OFrame [] [] # st, WantKeyOrEnd) (member_tokens kvs @ TObjEnd # ts) = jrun (deliver (JObj kvs) st) ts"
      using 6(1) [of st WantKeyOrEnd "[]" "[]" ts] fits_JObj [OF 6(2)] False by simp
    with 6(2,3) show ?thesis by (auto simp: step_value_def fits_push)
  qed
next
  case (8 v vs)
  have v: "jrun (AFrame us # st, m) (tokens_of v @ ts') = jrun (AFrame (us @ [v]) # st, WantCommaOrEnd) ts'" for ts'
    using 8(1) [of "AFrame us # st" m ts'] 8(3,5) by simp
  show ?case
  proof (cases "vs = []")
    case True
    with v show ?thesis by (simp add: step_end_def)
  next
    case False
    with v 8(2) [OF False, of st WantValue "us @ [v]" ts] 8(3) show ?thesis by (simp add: step_comma_def)
  qed
next
  case (10 k v kvs)
  have v: "jrun (OFrame os k # st, WantValue) (tokens_of v @ ts') = jrun (OFrame (os @ [(k, v)]) [] # st, WantCommaOrEnd) ts'" for ts'
    using 10(1) [of "OFrame os k # st" WantValue ts'] 10(3) [of k v] by simp
  have k: "jrun (OFrame os k0 # st, m) (TStr k # TColon # ts') = jrun (OFrame os k # st, WantValue) ts'" for ts'
    using 10(5) by (auto simp: step_key_def)
  show ?case
  proof (cases "kvs = []")
    case True
    with v k show ?thesis by (simp add: step_end_def del: jrun.simps) (simp add: step_end_def)
  next
    case False
    have f: "fits (json_depth v') (Suc (length st))" if "(k', v') \<in> set kvs" for k' v'
      using 10(3) [of k' v'] that by simp
    have "jrun (OFrame (os @ [(k, v)]) [] # st, WantKey) (member_tokens kvs @ TObjEnd # ts) = jrun (deliver (JObj (os @ (k, v) # kvs)) st) ts"
      using 10(2) [OF False f False, where m = WantKey and os = "os @ [(k, v)]" and ts = ts] by simp
    with False v k show ?thesis by (simp add: step_comma_def del: jrun.simps) (simp add: step_comma_def)
  qed
qed (auto simp: step_value_def)

lemma parse_print_raw:
  assumes "wf_json v" "int (json_depth v) \<le> maxNestingDepth"
  shows "parse_json (print_raw v) = Some v"
proof -
  have "lex (print_raw v) = Some (tokens_of v)"
    using lex_tokens [OF wf_tokens(1) [OF assms(1)]] spaced_value(1) [of "[]" v] by (simp add: print_raw_def)
  moreover have "jrun ([], WantValue) (tokens_of v) = Some ([], DoneValue v)"
    using run_value(1) [of v "[]" WantValue "[]"] assms(2) by (simp add: fits_def)
  ultimately show ?thesis by (simp add: parse_json_def parse_tokens_def)
qed

text \<open>However deep a value is nested: where the machine accepts its tokens, it reads the value.\<close>

lemma push_frame_Some: "push_frame f st m = Some s \<longleftrightarrow> int (length st) < maxNestingDepth \<and> s = (f # st, m)"
  by (auto simp: push_frame_def)

lemma run_value_if:
  "jrun (st, m) (tokens_of v @ ts) = Some s \<Longrightarrow> m = WantValue \<or> m = WantValueOrEnd \<Longrightarrow> jrun (deliver v st) ts = Some s"
  "jrun (AFrame us # st, m) (element_tokens vs @ TArrEnd # ts) = Some s \<Longrightarrow> vs \<noteq> [] \<Longrightarrow> m = WantValue \<or> m = WantValueOrEnd \<Longrightarrow>
     jrun (deliver (JArr (us @ vs)) st) ts = Some s"
  "jrun (OFrame os k0 # st, m) (member_tokens kvs @ TObjEnd # ts) = Some s \<Longrightarrow> kvs \<noteq> [] \<Longrightarrow> m = WantKey \<or> m = WantKeyOrEnd \<Longrightarrow>
     jrun (deliver (JObj (os @ kvs)) st) ts = Some s"
proof (induction v and vs and kvs arbitrary: st m ts and us st m ts and os k0 st m ts
    rule: tokens_of_element_tokens_member_tokens.induct)
  case (5 vs)
  then have "jrun (AFrame [] # st, WantValueOrEnd) (element_tokens vs @ TArrEnd # ts) = Some s"
    by (auto simp: step_value_def push_frame_Some split: option.splits)
  with 5(1) [of "[]" st WantValueOrEnd ts] show ?case by (cases "vs = []") (auto simp: step_end_def)
next
  case (6 kvs)
  then have "jrun (OFrame [] [] # st, WantKeyOrEnd) (member_tokens kvs @ TObjEnd # ts) = Some s"
    by (auto simp: step_value_def push_frame_Some split: option.splits)
  with 6(1) [of "[]" "[]" st WantKeyOrEnd ts] show ?case by (cases "kvs = []") (auto simp: step_end_def)
next
  case (8 v vs)
  let ?rest = "(if vs = [] then [] else TComma # element_tokens vs) @ TArrEnd # ts"
  have v: "jrun (AFrame (us @ [v]) # st, WantCommaOrEnd) ?rest = Some s"
    using 8(1) [of "AFrame us # st" m ?rest] 8(3,5) by simp
  show ?case
  proof (cases "vs = []")
    case True
    with v show ?thesis by (simp add: step_end_def)
  next
    case False
    with v have "jrun (AFrame (us @ [v]) # st, WantValue) (element_tokens vs @ TArrEnd # ts) = Some s" by (simp add: step_comma_def)
    from 8(2) [OF False this False] show ?thesis by simp
  qed
next
  case (10 k v kvs)
  let ?rest = "(if kvs = [] then [] else TComma # member_tokens kvs) @ TObjEnd # ts"
  have "jrun (OFrame os k # st, WantValue) (tokens_of v @ ?rest) = Some s"
    using 10(3,5) by (auto simp: step_key_def)
  from 10(1) [OF this] have v: "jrun (OFrame (os @ [(k, v)]) [] # st, WantCommaOrEnd) ?rest = Some s" by simp
  show ?case
  proof (cases "kvs = []")
    case True
    with v show ?thesis by (simp add: step_end_def)
  next
    case False
    with v have "jrun (OFrame (os @ [(k, v)]) [] # st, WantKey) (member_tokens kvs @ TObjEnd # ts) = Some s" by (simp add: step_comma_def)
    from 10(2) [OF False this False] show ?thesis by simp
  qed
qed (auto simp: step_value_def)

lemma parse_print_if:
  assumes "wf_json v" "parse_json (print_raw v) = Some u"
  shows "u = v"
proof -
  have "lex (print_raw v) = Some (tokens_of v)"
    using lex_tokens [OF wf_tokens(1) [OF assms(1)]] spaced_value(1) [of "[]" v] by (simp add: print_raw_def)
  with assms(2) have "jrun ([], WantValue) (tokens_of v @ []) = Some ([], DoneValue u)"
    by (auto simp: parse_json_def parse_tokens_def split: option.splits prod.splits list.splits jmode.splits)
  from run_value_if(1) [OF this] show ?thesis by simp
qed

section \<open>What the machine accepts is well formed\<close>

fun frame_values :: "frame \<Rightarrow> json list" where
  "frame_values (AFrame vs) = vs"
| "frame_values (OFrame kvs k) = map snd kvs"

fun frame_keys :: "frame \<Rightarrow> string list" where
  "frame_keys (AFrame vs) = []"
| "frame_keys (OFrame kvs k) = k # map fst kvs"

fun stack_ok :: "frame list \<Rightarrow> bool" where
  "stack_ok [] = True"
| "stack_ok (f # st) = (fits 0 (Suc (length st)) \<and>
     (\<forall>v \<in> set (frame_values f). wf_json v \<and> fits (json_depth v) (Suc (length st))) \<and>
     (\<forall>k \<in> set (frame_keys f). valid_string k) \<and> stack_ok st)"

fun state_ok :: "jstate \<Rightarrow> bool" where
  "state_ok (st, DoneValue v) = (stack_ok st \<and> wf_json v \<and> fits (json_depth v) 0)"
| "state_ok (st, m) = stack_ok st"

lemma valid_string_Nil [simp]: "valid_string []"
  by (simp add: valid_string_def)

lemma state_ok_stack: "state_ok (st, m) \<Longrightarrow> stack_ok st"
  by (cases m) auto

lemma deliver_ok: "stack_ok st \<Longrightarrow> wf_json v \<Longrightarrow> fits (json_depth v) (length st) \<Longrightarrow> state_ok (deliver v st)"
  by (cases "(v, st)" rule: deliver.cases) auto

lemma fits_leaf: "stack_ok st \<Longrightarrow> fits 0 (length st)"
  by (cases st) (auto simp: fits_def maxNestingDepth_def)

lemma step_value_ok: "stack_ok st \<Longrightarrow> wf_token t \<Longrightarrow> step_value st t = Some s \<Longrightarrow> state_ok s"
proof (cases t)
  case (TLit v)
  assume "stack_ok st" "wf_token t" "step_value st t = Some s"
  with TLit show ?thesis using deliver_ok [of st v] fits_leaf [of st] by (cases v) (auto simp: step_value_def)
next
  case (TStr a)
  assume "stack_ok st" "wf_token t" "step_value st t = Some s"
  with TStr show ?thesis using deliver_ok [of st "JStr a"] fits_leaf [of st] by (auto simp: step_value_def)
qed (auto simp: step_value_def push_frame_def fits_def split: if_splits)

lemma step_key_ok: "stack_ok st \<Longrightarrow> wf_token t \<Longrightarrow> step_key st t = Some s \<Longrightarrow> state_ok s"
  by (auto simp: step_key_def split: list.splits frame.splits token.splits)

lemma fits_pop:
  "\<forall>v \<in> set vs. fits (json_depth v) (Suc l) \<Longrightarrow> fits 0 (Suc l) \<Longrightarrow> fits (json_depth (JArr vs)) l"
  "\<forall>v \<in> set (map snd kvs). fits (json_depth v) (Suc l) \<Longrightarrow> fits 0 (Suc l) \<Longrightarrow> fits (json_depth (JObj kvs)) l"
  by (induction vs) (auto simp: fits_def max_def, induction kvs, auto simp: fits_def max_def)

lemma wf_JObj: "(\<forall>k \<in> set (map fst kvs). valid_string k) \<Longrightarrow> (\<forall>v \<in> set (map snd kvs). wf_json v) \<Longrightarrow> wf_json (JObj kvs)"
  by (fastforce simp: list_all_iff)

lemma step_end_ok: "stack_ok st \<Longrightarrow> step_end st t = Some s \<Longrightarrow> state_ok s"
proof (cases st)
  case (Cons f st')
  assume ok: "stack_ok st" and e: "step_end st t = Some s"
  show ?thesis
  proof (cases f)
    case (AFrame vs)
    with e Cons have s: "s = deliver (JArr vs) st'" by (auto simp: step_end_def split: token.splits)
    have "wf_json (JArr vs)" "fits (json_depth (JArr vs)) (length st')" "stack_ok st'"
      using ok Cons AFrame fits_pop(1) [of vs "length st'"] by (auto simp: list_all_iff simp del: json_depth.simps)
    then show ?thesis unfolding s by (intro deliver_ok)
  next
    case (OFrame kvs k)
    with e Cons have s: "s = deliver (JObj kvs) st'" by (auto simp: step_end_def split: token.splits)
    have "fits (json_depth (JObj kvs)) (length st')" "stack_ok st'"
      using ok Cons OFrame by (intro fits_pop(2), auto simp del: json_depth.simps)
    moreover have "wf_json (JObj kvs)" using ok Cons OFrame by (intro wf_JObj) auto
    ultimately show ?thesis unfolding s by (intro deliver_ok)
  qed
qed (simp add: step_end_def)

lemma jstep_ok: "state_ok s \<Longrightarrow> wf_token t \<Longrightarrow> jstep s t = Some s' \<Longrightarrow> state_ok s'"
proof (cases s)
  case (Pair st m)
  assume h: "state_ok s" "wf_token t" "jstep s t = Some s'"
  have st: "stack_ok st" using h(1) Pair state_ok_stack by simp
  show ?thesis using h st Pair
    by (cases m) (auto intro: step_value_ok step_key_ok step_end_ok simp: step_comma_def split: if_splits list.splits frame.splits)
qed

lemma jrun_ok: "state_ok s \<Longrightarrow> list_all wf_token ts \<Longrightarrow> jrun s ts = Some s' \<Longrightarrow> state_ok s'"
  by (induction ts arbitrary: s) (auto dest: jstep_ok split: option.splits)

lemma lex1_wf: "lex1 s = Some (t, r) \<Longrightarrow> wf_token t"
  by (auto simp: lex1_def dest: scan_string_valid scan_number_valid split: list.splits if_splits)

lemma lex_wf: "lex s = Some ts \<Longrightarrow> list_all wf_token ts"
  by (induction s arbitrary: ts rule: lex.induct) (auto dest: lex1_wf split: if_splits option.splits)

lemma parse_json_ok:
  assumes "parse_json s = Some v"
  shows "wf_json v" "int (json_depth v) \<le> maxNestingDepth"
proof -
  from assms obtain ts where ts: "lex s = Some ts" "jrun ([], WantValue) ts = Some ([], DoneValue v)"
    by (auto simp: parse_json_def parse_tokens_def split: option.splits list.splits jmode.splits)
  have "state_ok ([], DoneValue v)" by (rule jrun_ok [OF _ lex_wf [OF ts(1)] ts(2)]) simp
  then show "wf_json v" "int (json_depth v) \<le> maxNestingDepth" by (simp_all add: fits_def)
qed

section \<open>Compaction\<close>

definition html_plain :: "char \<Rightarrow> bool" where
  "html_plain c \<longleftrightarrow> c \<noteq> CHR ''<'' \<and> c \<noteq> CHR ''>'' \<and> c \<noteq> CHR ''&'' \<and> c \<noteq> CHR 0xE2"

lemma html_escape_plain: "list_all html_plain p \<Longrightarrow> html_escape (p @ s) = p @ html_escape s"
  by (induction p) (auto simp: html_plain_def)

lemma hex_plain: "is_hex c \<Longrightarrow> html_plain c"
  by (auto simp: is_hex_def is_digit_def html_plain_def)

lemma escape_plain: "simple_escape c \<Longrightarrow> html_plain c" "html_plain backslash" "html_plain dquote" "html_plain (CHR ''u'')"
  by (auto simp: simple_escape_def html_plain_def backslash_def dquote_def)

text \<open>The ways \<^term>\<open>html_escape\<close> goes on at a character outside an escape sequence.\<close>

lemma html_escape_cases:
  obtains (escaped) h p r where "c # cs = p @ r" "p \<noteq> []" "html_escape (c # cs) = u_escape h @ html_escape r"
      "list_all is_hex h" "length h = 4" "list_all (\<lambda>x. \<not> (of_char x :: nat) < 32 \<and> x \<noteq> dquote \<and> x \<noteq> backslash) p"
      "(h, p) \<in> {(''003c'', ''<''), (''003e'', ''>''), (''0026'', ''&''), (''2028'', [CHR 0xE2, CHR 0x80, CHR 0xA8]), (''2029'', [CHR 0xE2, CHR 0x80, CHR 0xA9])}"
  | (same) "html_escape (c # cs) = c # html_escape cs" "c \<noteq> CHR ''<''" "c \<noteq> CHR ''>''" "c \<noteq> CHR ''&''"
      "c = CHR 0xE2 \<Longrightarrow> take 2 cs \<noteq> [CHR 0x80, CHR 0xA8] \<and> take 2 cs \<noteq> [CHR 0x80, CHR 0xA9]"
proof -
  have seq: "\<exists>r. cs = x # y # r" if "take 2 cs = [x, y]" for x y
    using that by (cases cs; cases "tl cs") auto
  consider "c = CHR ''<''" | "c = CHR ''>''" | "c = CHR ''&''" | "c = CHR 0xE2" "take 2 cs = [CHR 0x80, CHR 0xA8]"
    | "c = CHR 0xE2" "take 2 cs = [CHR 0x80, CHR 0xA9]"
    | "c \<noteq> CHR ''<''" "c \<noteq> CHR ''>''" "c \<noteq> CHR ''&''"
      "c = CHR 0xE2 \<Longrightarrow> take 2 cs \<noteq> [CHR 0x80, CHR 0xA8] \<and> take 2 cs \<noteq> [CHR 0x80, CHR 0xA9]"
    by blast
  then show ?thesis
  proof cases
    case 1
    then show ?thesis using that(1) [of "''<''" cs "''003c''"] by (simp add: is_hex_def is_digit_def dquote_def backslash_def)
  next
    case 2
    then show ?thesis using that(1) [of "''>''" cs "''003e''"] by (simp add: is_hex_def is_digit_def dquote_def backslash_def)
  next
    case 3
    then show ?thesis using that(1) [of "''&''" cs "''0026''"] by (simp add: is_hex_def is_digit_def dquote_def backslash_def)
  next
    case 4
    with seq obtain r where "cs = CHR 0x80 # CHR 0xA8 # r" by blast
    with 4 show ?thesis using that(1) [of "[CHR 0xE2, CHR 0x80, CHR 0xA8]" r "''2028''"]
      by (simp add: is_hex_def is_digit_def dquote_def backslash_def)
  next
    case 5
    with seq obtain r where "cs = CHR 0x80 # CHR 0xA9 # r" by blast
    with 5 show ?thesis using that(1) [of "[CHR 0xE2, CHR 0x80, CHR 0xA9]" r "''2029''"]
      by (simp add: is_hex_def is_digit_def dquote_def backslash_def)
  next
    case 6
    have "html_escape (c # cs) = c # html_escape cs" using 6 by auto
    from that(2) [OF this 6] show ?thesis .
  qed
qed

lemma scan_plain:
  assumes "list_all (\<lambda>x. \<not> (of_char x :: nat) < 32 \<and> x \<noteq> dquote \<and> x \<noteq> backslash) p" "scan_string (p @ s) = Some (a, r)"
  shows "\<exists>a'. a = p @ a' \<and> scan_string s = Some (a', r)"
  using assms by (induction p arbitrary: a) (auto simp: with_prefix_Some)

lemma scan_u_escape:
  assumes "list_all is_hex h" "length h = 4" "scan_string s = Some (a, r)"
  shows "scan_string (u_escape h @ s) = Some (u_escape h @ a, r)"
proof -
  obtain h1 h2 h3 h4 where "h = [h1, h2, h3, h4]" using assms(2)
    by (auto simp: length_Suc_conv eval_nat_numeral)
  with assms(1,3) show ?thesis
    by (simp add: u_escape_def with_prefix_def simple_escape_def dquote_def backslash_def)
qed

lemma html_escape_valid:
  "scan_string (a @ [dquote]) = Some (a, []) \<Longrightarrow> scan_string (html_escape a @ [dquote]) = Some (html_escape a, [])"
proof (induction "length a" arbitrary: a rule: less_induct)
  case less
  show ?case
  proof (cases a)
    case (Cons c cs)
    from less.prems [unfolded Cons append_Cons] show ?thesis
    proof (cases rule: scan_string_cases)
      case (escape e cs' a')
      then have cs: "cs = e # a'" "scan_string (a' @ [dquote]) = Some (a', [])" by auto
      have "html_escape a = [c, e] @ html_escape a'"
        using html_escape_plain [of "[c, e]" a'] escape escape_plain Cons cs(1) by simp
      then show ?thesis using less.hyps [OF _ cs(2)] Cons cs(1) escape
        by (simp add: with_prefix_def dquote_def backslash_def)
    next
      case (unicode h1 h2 h3 h4 cs' a')
      then have cs: "cs = CHR ''u'' # h1 # h2 # h3 # h4 # a'" "scan_string (a' @ [dquote]) = Some (a', [])" by auto
      have "html_escape a = u_escape [h1, h2, h3, h4] @ html_escape a'"
        using html_escape_plain [of "[c, CHR ''u'', h1, h2, h3, h4]" a'] unicode escape_plain hex_plain Cons cs(1)
        by (simp add: u_escape_def)
      then show ?thesis
        using scan_u_escape [of "[h1, h2, h3, h4]" "html_escape a' @ [dquote]"] less.hyps [OF _ cs(2)] unicode Cons cs(1) by simp
    next
      case (plain a')
      then have p: "scan_string (cs @ [dquote]) = Some (cs, [])" by simp
      show ?thesis
      proof (cases rule: html_escape_cases [of c cs])
        case (escaped h p r)
        have "scan_string (p @ (r @ [dquote])) = Some (p @ r, [])" using less.prems Cons escaped(1) by (simp add: append_assoc [symmetric] del: append_assoc)
        from scan_plain [OF escaped(6) this] have r: "scan_string (r @ [dquote]) = Some (r, [])" by simp
        have len: "length r < length a" using arg_cong [OF escaped(1), of length] escaped(2) Cons by (cases p) auto
        from scan_u_escape [OF escaped(4,5) less.hyps [OF len r]] show ?thesis
          unfolding Cons escaped(3) by simp
      next
        case same
        have "scan_string (html_escape cs @ [dquote]) = Some (html_escape cs, [])" using less.hyps [OF _ p] Cons by simp
        with plain(1-3) have "scan_string (c # html_escape cs @ [dquote]) = Some (c # html_escape cs, [])"
          by (simp add: with_prefix_def)
        then show ?thesis unfolding Cons same(1) by simp
      qed
    qed simp
  qed simp
qed

lemma valid_html_escape: "valid_string a \<Longrightarrow> valid_string (html_escape a)"
  unfolding valid_string_def by (rule html_escape_valid)

lemma take2_html:
  "take 2 (html_escape s) = [CHR 0x80, x] \<Longrightarrow> x = CHR 0xA8 \<or> x = CHR 0xA9 \<Longrightarrow> take 2 s = [CHR 0x80, x]"
proof (cases s)
  case (Cons c cs)
  assume h: "take 2 (html_escape s) = [CHR 0x80, x]" and x: "x = CHR 0xA8 \<or> x = CHR 0xA9"
  then have c: "c = CHR 0x80" "html_escape s = c # html_escape cs"
    using Cons by (auto simp: u_escape_def backslash_def split: if_splits)
  with h have "take 1 (html_escape cs) = [x]" by (simp add: eval_nat_numeral)
  with x have "take 1 cs = [x]" by (cases cs) (auto simp: u_escape_def backslash_def split: if_splits)
  with c Cons show ?thesis by (simp add: eval_nat_numeral)
qed simp

lemma html_escape_idem [simp]: "html_escape (html_escape s) = html_escape s"
proof (induction "length s" arbitrary: s rule: less_induct)
  case less
  show ?case
  proof (cases s)
    case (Cons c cs)
    show ?thesis
    proof (cases rule: html_escape_cases [of c cs])
      case (escaped h p r)
      have len: "length r < length s" using arg_cong [OF escaped(1), of length] escaped(2) Cons by (cases p) auto
      have "list_all html_plain (u_escape h)"
        using escaped(4) hex_plain by (auto simp: u_escape_def escape_plain list_all_iff)
      from html_escape_plain [OF this, of "html_escape r"] less.hyps [OF len] show ?thesis
        unfolding Cons escaped(3) by (simp only:)
    next
      case same
      have "take 2 (html_escape cs) \<noteq> [CHR 0x80, CHR 0xA8] \<and> take 2 (html_escape cs) \<noteq> [CHR 0x80, CHR 0xA9]" if "c = CHR 0xE2"
        using same(5) [OF that] take2_html [of cs] by blast
      then have "html_escape (c # html_escape cs) = c # html_escape (html_escape cs)"
        using same(2-4) by auto
      moreover have "html_escape (html_escape cs) = html_escape cs" using less.hyps [of cs] Cons by simp
      ultimately show ?thesis unfolding Cons same(1) by (simp only:)
    qed
  qed simp
qed

lemma compact_idem [simp]: "compact_json (compact_json v) = compact_json v"
  by (induction v rule: compact_json.induct) auto

lemma compact_wf: "wf_json v \<Longrightarrow> wf_json (compact_json v)"
  by (induction v rule: compact_json.induct) (auto simp: list_all_iff intro: valid_html_escape)

lemma foldr_max_cong: "(\<And>x. x \<in> set xs \<Longrightarrow> f x = g x) \<Longrightarrow> foldr max (map f xs) (0::nat) = foldr max (map g xs) 0"
  by (metis map_cong)

lemma compact_depth [simp]: "json_depth (compact_json v) = json_depth v"
  by (induction v rule: compact_json.induct)
    (auto simp: comp_def case_prod_beta intro!: arg_cong [where f = "\<lambda>xs. foldr max xs 0"])

text \<open>Reading back what the encoder wrote gives the compacted value.\<close>

lemma parse_print_json:
  assumes "wf_json v" "int (json_depth v) \<le> maxNestingDepth"
  shows "parse_json (print_json v) = Some (compact_json v)"
  unfolding print_json_def using compact_wf [OF assms(1)] assms(2) by (intro parse_print_raw) simp_all

end
