(* ===== verification/Json_Text.thy ===== *)
theory Json_Text imports Json_Parse Go_Sha256 begin

text \<open>
  The text of JSON strings: what \<^verbatim>\<open>encoding/json\<close> decodes the characters between two quotes to,
  and what it writes for a Go string. Decoding what was encoded gives the string back when the
  string is valid UTF-8, as every decoded string is.
\<close>

section \<open>Scalar values\<close>

definition scalar :: "nat \<Rightarrow> bool" where
  "scalar r \<longleftrightarrow> r < 1114112 \<and> \<not> (55296 \<le> r \<and> r \<le> 57343)"

definition decodes :: "nat list \<Rightarrow> nat \<Rightarrow> nat \<Rightarrow> bool" where
  "decodes bs r w \<longleftrightarrow> decode_rune bs = (r, w) \<and> \<not> (r = rune_error \<and> w = 1)"

lemma decode_rune_cases:
  obtains (bad) "decode_rune bs = (rune_error, 1)"
  | (one) b0 t where "bs = b0 # t" "b0 < 128" "decode_rune bs = (b0, 1)"
  | (two) b0 b1 t where "bs = b0 # b1 # t" "194 \<le> b0" "b0 \<le> 223" "cont_byte b1"
      "decode_rune bs = ((b0 - 192) * 64 + (b1 - 128), 2)"
  | (three) b0 b1 b2 t where "bs = b0 # b1 # b2 # t" "224 \<le> b0" "b0 \<le> 239"
      "(if b0 = 224 then 160 else 128) \<le> b1" "b1 \<le> (if b0 = 237 then 159 else 191)" "cont_byte b2"
      "decode_rune bs = ((b0 - 224) * 4096 + (b1 - 128) * 64 + (b2 - 128), 3)"
  | (four) b0 b1 b2 b3 t where "bs = b0 # b1 # b2 # b3 # t" "240 \<le> b0" "b0 \<le> 244"
      "(if b0 = 240 then 144 else 128) \<le> b1" "b1 \<le> (if b0 = 244 then 143 else 191)" "cont_byte b2" "cont_byte b3"
      "decode_rune bs = ((b0 - 240) * 262144 + (b1 - 128) * 4096 + (b2 - 128) * 64 + (b3 - 128), 4)"
proof (cases bs)
  case Nil
  then show ?thesis using bad by simp
next
  case (Cons b0 t)
  note d = decode_rune.simps(1) [of b0 t, folded Cons]
  consider "b0 < 128" | "194 \<le> b0" "b0 \<le> 223" | "224 \<le> b0" "b0 \<le> 239" | "240 \<le> b0" "b0 \<le> 244"
    | "128 \<le> b0" "b0 < 194 \<or> 244 < b0" by linarith
  then show ?thesis
  proof cases
    case 1
    then show ?thesis using one Cons d by simp
  next
    case 2
    then have d2: "decode_rune bs = (case t of b1 # _ \<Rightarrow> if cont_byte b1 then ((b0 - 192) * 64 + (b1 - 128), 2) else (rune_error, 1)
         | _ \<Rightarrow> (rune_error, 1))" unfolding d by simp
    show ?thesis
    proof (cases "\<exists>b1 u. t = b1 # u \<and> cont_byte b1")
      case True
      then show ?thesis using two 2 Cons d2 by auto
    next
      case False
      then have "decode_rune bs = (rune_error, 1)" unfolding d2 by (cases t) auto
      then show ?thesis by (rule bad)
    qed
  next
    case 3
    then have d3: "decode_rune bs = (case t of b1 # b2 # _ \<Rightarrow>
             if (if b0 = 224 then 160 else 128) \<le> b1 \<and> b1 \<le> (if b0 = 237 then 159 else 191) \<and> cont_byte b2
             then ((b0 - 224) * 4096 + (b1 - 128) * 64 + (b2 - 128), 3) else (rune_error, 1)
         | _ \<Rightarrow> (rune_error, 1))" unfolding d by simp
    show ?thesis
    proof (cases "\<exists>b1 b2 u. t = b1 # b2 # u \<and> (if b0 = 224 then 160 else 128) \<le> b1 \<and> b1 \<le> (if b0 = 237 then 159 else 191) \<and> cont_byte b2")
      case True
      then obtain b1 b2 u where "t = b1 # b2 # u" "(if b0 = 224 then 160 else 128) \<le> b1" "b1 \<le> (if b0 = 237 then 159 else 191)" "cont_byte b2"
        by blast
      then show ?thesis using three [of b0 b1 b2 u] 3 Cons d3 by simp
    next
      case False
      then have "decode_rune bs = (rune_error, 1)" unfolding d3 by (cases t; cases "tl t") simp_all
      then show ?thesis by (rule bad)
    qed
  next
    case 4
    then have d4: "decode_rune bs = (case t of b1 # b2 # b3 # _ \<Rightarrow>
             if (if b0 = 240 then 144 else 128) \<le> b1 \<and> b1 \<le> (if b0 = 244 then 143 else 191)
                \<and> cont_byte b2 \<and> cont_byte b3
             then ((b0 - 240) * 262144 + (b1 - 128) * 4096 + (b2 - 128) * 64 + (b3 - 128), 4)
             else (rune_error, 1)
         | _ \<Rightarrow> (rune_error, 1))" unfolding d by simp
    show ?thesis
    proof (cases "\<exists>b1 b2 b3 u. t = b1 # b2 # b3 # u \<and> (if b0 = 240 then 144 else 128) \<le> b1 \<and> b1 \<le> (if b0 = 244 then 143 else 191) \<and> cont_byte b2 \<and> cont_byte b3")
      case True
      then obtain b1 b2 b3 u where "t = b1 # b2 # b3 # u" "(if b0 = 240 then 144 else 128) \<le> b1" "b1 \<le> (if b0 = 244 then 143 else 191)" "cont_byte b2" "cont_byte b3"
        by blast
      then show ?thesis using four [of b0 b1 b2 b3 u] 4 Cons d4 by simp
    next
      case False
      then have "decode_rune bs = (rune_error, 1)" unfolding d4 by (cases t; cases "tl t"; cases "tl (tl t)") simp_all
      then show ?thesis by (rule bad)
    qed
  next
    case 5
    then have "decode_rune bs = (rune_error, 1)" unfolding d by auto
    then show ?thesis by (rule bad)
  qed
qed

lemma decode_rune_scalar: "scalar (fst (decode_rune bs))"
proof (cases rule: decode_rune_cases [of bs])
  case (three b0 b1 b2 t)
  then have "b2 \<le> 191" "128 \<le> b2" by (simp_all add: cont_byte_def)
  with three show ?thesis by (auto simp: scalar_def split: if_splits)
qed (auto simp: scalar_def rune_error_def cont_byte_def split: if_splits)

lemma decode_fixed:
  "b0 < 128 \<Longrightarrow> decode_rune (b0 # t) = (b0, 1)"
  "194 \<le> b0 \<Longrightarrow> b0 \<le> 223 \<Longrightarrow> cont_byte b1 \<Longrightarrow> decode_rune (b0 # b1 # t) = ((b0 - 192) * 64 + (b1 - 128), 2)"
  "224 \<le> b0 \<Longrightarrow> b0 \<le> 239 \<Longrightarrow> (if b0 = 224 then 160 else 128) \<le> b1 \<Longrightarrow> b1 \<le> (if b0 = 237 then 159 else 191) \<Longrightarrow>
     cont_byte b2 \<Longrightarrow> decode_rune (b0 # b1 # b2 # t) = ((b0 - 224) * 4096 + (b1 - 128) * 64 + (b2 - 128), 3)"
  "240 \<le> b0 \<Longrightarrow> b0 \<le> 244 \<Longrightarrow> (if b0 = 240 then 144 else 128) \<le> b1 \<Longrightarrow> b1 \<le> (if b0 = 244 then 143 else 191) \<Longrightarrow>
     cont_byte b2 \<Longrightarrow> cont_byte b3 \<Longrightarrow>
     decode_rune (b0 # b1 # b2 # b3 # t) = ((b0 - 240) * 262144 + (b1 - 128) * 4096 + (b2 - 128) * 64 + (b3 - 128), 4)"
  by simp_all

lemma decodes_take:
  assumes "decodes bs r w"
  shows "w \<le> length bs \<and> decode_rune (take w bs @ rest) = (r, w) \<and> bs \<noteq> []"
proof (cases rule: decode_rune_cases [of bs])
  case bad
  with assms show ?thesis by (auto simp: decodes_def simp del: decode_rune.simps)
next
  case (one b0 t)
  with assms show ?thesis by (auto simp: decodes_def decode_fixed simp del: decode_rune.simps)
next
  case (two b0 b1 t)
  with assms have "take w bs = [b0, b1]" "w = 2" "r = (b0 - 192) * 64 + (b1 - 128)"
    by (simp_all add: decodes_def del: decode_rune.simps)
  with two show ?thesis by (simp add: decode_fixed(2) del: decode_rune.simps)
next
  case (three b0 b1 b2 t)
  with assms have "take w bs = [b0, b1, b2]" "w = 3" "r = (b0 - 224) * 4096 + (b1 - 128) * 64 + (b2 - 128)"
    by (simp_all add: decodes_def del: decode_rune.simps)
  with three(1) decode_fixed(3) [OF three(2-6)] show ?thesis by (simp del: decode_rune.simps)
next
  case (four b0 b1 b2 b3 t)
  with assms have "take w bs = [b0, b1, b2, b3]" "w = 4"
      "r = (b0 - 240) * 262144 + (b1 - 128) * 4096 + (b2 - 128) * 64 + (b3 - 128)"
    by (simp_all add: decodes_def del: decode_rune.simps)
  with four(1) decode_fixed(4) [OF four(2-7)] show ?thesis by (simp del: decode_rune.simps)
qed

lemma decode_encode:
  assumes "scalar r"
  shows "decode_rune (encode_rune r @ bs) = (r, length (encode_rune r))"
proof -
  have m: "x mod 64 < 64" for x :: nat by simp
  have "r < 1114112" using assms by (simp add: scalar_def)
  then consider "r < 128" | "128 \<le> r" "r < 2048" | "2048 \<le> r" "r < 65536" | "65536 \<le> r" "r < 1114112"
    by linarith
  then show ?thesis
  proof cases
    case 1
    then show ?thesis by (simp add: encode_rune_def)
  next
    case 2
    define q k where "q = r div 64" and "k = r mod 64"
    have r: "r = q * 64 + k" "k < 64" by (simp_all add: q_def k_def)
    have "2 \<le> q" "q < 32" using 2 r by linarith+
    with 2 r show ?thesis unfolding encode_rune_def q_def [symmetric] k_def [symmetric] by (simp add: cont_byte_def)
  next
    case 3
    define q j k where "q = r div 4096" and "j = r div 64 mod 64" and "k = r mod 64"
    have "r div 64 = q * 64 + j" using div_mult_mod_eq [of "r div 64" 64] by (simp add: q_def j_def div_mult2_eq [symmetric])
    moreover have "r = r div 64 * 64 + k" by (simp add: k_def)
    ultimately have r: "r = q * 4096 + j * 64 + k" by linarith
    have jk: "j < 64" "k < 64" by (simp_all add: j_def k_def)
    note r = r jk
    have q: "q < 16" using 3 r by linarith
    have lo: "q = 0 \<Longrightarrow> 32 \<le> j" using 3 r by linarith
    have hi: "q = 13 \<Longrightarrow> j < 32" using assms r by (auto simp: scalar_def)
    have "\<not> (55296 \<le> r \<and> r \<le> 57343)" "\<not> 1114111 < r" using assms by (auto simp: scalar_def)
    with 3 have e: "encode_rune r = [224 + q, 128 + j, 128 + k]"
      unfolding encode_rune_def q_def j_def k_def by auto
    show ?thesis unfolding e using q lo hi r by (auto simp: cont_byte_def)
  next
    case 4
    define q i j k where "q = r div 262144" and "i = r div 4096 mod 64" and "j = r div 64 mod 64" and "k = r mod 64"
    have "r div 4096 = q * 64 + i" using div_mult_mod_eq [of "r div 4096" 64] by (simp add: q_def i_def div_mult2_eq [symmetric])
    moreover have "r div 64 = r div 4096 * 64 + j" using div_mult_mod_eq [of "r div 64" 64] by (simp add: j_def div_mult2_eq [symmetric])
    moreover have "r = r div 64 * 64 + k" by (simp add: k_def)
    ultimately have r: "r = q * 262144 + i * 4096 + j * 64 + k" by linarith
    have jk: "i < 64" "j < 64" "k < 64" by (simp_all add: i_def j_def k_def)
    note r = r jk
    have q: "q \<le> 4" using 4 r by linarith
    have lo: "q = 0 \<Longrightarrow> 16 \<le> i" using 4 r by linarith
    have hi: "q = 4 \<Longrightarrow> i < 16" using 4 r by linarith
    from 4 have e: "encode_rune r = [240 + q, 128 + i, 128 + j, 128 + k]"
      unfolding encode_rune_def q_def i_def j_def k_def by simp
    show ?thesis unfolding e using q lo hi r by (auto simp: cont_byte_def)
  qed
qed

lemma encode_rune_nonempty: "encode_rune r \<noteq> []"
  by (simp add: encode_rune_def)

lemma runes_of_encoded: "list_all scalar rs \<Longrightarrow> runes_of (concat (map encode_rune rs)) = rs"
proof (induction rs)
  case (Cons r rs)
  then have "decode_rune (concat (map encode_rune (r # rs))) = (r, length (encode_rune r))"
    using decode_encode by simp
  with Cons show ?case by (subst runes_of.simps) (simp add: encode_rune_nonempty)
qed (simp add: runes_of.simps)

lemma runes_of_scalar: "list_all scalar (runes_of bs)"
proof (induction bs rule: runes_of.induct)
  case (1 bs)
  then show ?case using decode_rune_scalar [of bs] by (subst runes_of.simps) simp
qed

section \<open>Decoding the characters of a string\<close>

definition hex_val :: "char \<Rightarrow> nat" where
  "hex_val c =
     (let n = of_char c in if is_digit c then n - 48 else if 97 \<le> n then n - 87 else n - 55)"

definition hex_code :: "string \<Rightarrow> nat" where
  "hex_code h = foldl (\<lambda>n c. 16 * n + hex_val c) 0 h"

fun escape_rune :: "char \<Rightarrow> nat" where
  "escape_rune c =
     (if c = CHR ''b'' then 8 else if c = CHR ''f'' then 12 else if c = CHR ''n'' then 10
      else if c = CHR ''r'' then 13 else if c = CHR ''t'' then 9 else of_char c)"

text \<open>The second half of a surrogate pair, when the next characters are such an escape.\<close>

definition low_surrogate :: "string \<Rightarrow> nat option" where
  "low_surrogate s =
     (if take 2 s = [backslash, CHR ''u''] \<and> length (take 4 (drop 2 s)) = 4 \<and> list_all is_hex (take 4 (drop 2 s))
      then (let r = hex_code (take 4 (drop 2 s)) in if 56320 \<le> r \<and> r \<le> 57343 then Some r else None)
      else None)"

function unquote_runes :: "string \<Rightarrow> nat list" where
  "unquote_runes [] = []"
| "unquote_runes (c # cs) =
     (if c = backslash then
        (case cs of
           [] \<Rightarrow> []
         | e # cs' \<Rightarrow>
             if e = CHR ''u'' then
               (let rr = hex_code (take 4 cs')
                in if 55296 \<le> rr \<and> rr \<le> 57343 then
                     (case (if rr \<le> 56319 then low_surrogate (drop 4 cs') else None) of
                        Some lo \<Rightarrow> ((rr - 55296) * 1024 + (lo - 56320) + 65536) # unquote_runes (drop 10 cs')
                      | None \<Rightarrow> rune_error # unquote_runes (drop 4 cs'))
                   else rr # unquote_runes (drop 4 cs'))
             else escape_rune e # unquote_runes cs')
      else fst (decode_rune (bytes_of (c # cs))) # unquote_runes (drop (snd (decode_rune (bytes_of (c # cs))) - 1) cs))"
  by pat_completeness auto
termination by (relation "measure length") auto

definition utf8_text :: "nat list \<Rightarrow> string" where
  "utf8_text rs = string_of (concat (map encode_rune rs))"

definition unquote :: "string \<Rightarrow> string" where
  "unquote raw = utf8_text (unquote_runes raw)"

section \<open>Encoding a Go string\<close>

definition encode_ascii :: "char \<Rightarrow> string" where
  "encode_ascii c =
     (if c = dquote \<or> c = backslash then [backslash, c]
      else if c = CHR 0x08 then [backslash, CHR ''b'']
      else if c = CHR 0x0C then [backslash, CHR ''f'']
      else if c = CHR 0x0A then [backslash, CHR ''n'']
      else if c = CHR 0x0D then [backslash, CHR ''r'']
      else if c = CHR 0x09 then [backslash, CHR ''t'']
      else if (of_char c :: nat) < 32 \<or> c = CHR ''<'' \<or> c = CHR ''>'' \<or> c = CHR ''&''
      then u_escape (CHR ''0'' # CHR ''0'' # hex_byte (of_char c))
      else [c])"

function encode_text :: "string \<Rightarrow> string" where
  "encode_text [] = []"
| "encode_text (c # cs) =
     (let (r, w) = decode_rune (bytes_of (c # cs))
      in if (of_char c :: nat) < 128 then encode_ascii c @ encode_text cs
         else if r = rune_error \<and> w = 1 then u_escape ''fffd'' @ encode_text cs
         else if r = 8232 then u_escape ''2028'' @ encode_text (drop (w - 1) cs)
         else if r = 8233 then u_escape ''2029'' @ encode_text (drop (w - 1) cs)
         else take w (c # cs) @ encode_text (drop (w - 1) cs))"
  by pat_completeness auto
termination by (relation "measure length") auto

section \<open>Bytes and characters\<close>

lemma bytes_of_simps [simp]:
  "bytes_of [] = []" "bytes_of (c # s) = of_char c # bytes_of s" "bytes_of (s @ t) = bytes_of s @ bytes_of t"
  "length (bytes_of s) = length s" "bytes_of (take n s) = take n (bytes_of s)" "bytes_of (drop n s) = drop n (bytes_of s)"
  by (simp_all add: bytes_of_def take_map drop_map)

lemma string_of_bytes_of [simp]: "string_of (bytes_of s) = s"
  by (simp add: string_of_def bytes_of_def comp_def)

lemma encode_rune_bytes: "list_all (\<lambda>b. b < 256) (encode_rune r)"
  by (auto simp: encode_rune_def)

lemma bytes_of_utf8 [simp]: "bytes_of (utf8_text rs) = concat (map encode_rune rs)"
proof -
  have "map (of_char \<circ> char_of) bs = bs" if "list_all (\<lambda>b. b < 256) bs" for bs :: "nat list"
    using that by (induction bs) (simp_all add: of_char_of)
  moreover have "list_all (\<lambda>b. b < 256) (concat (map encode_rune rs))"
    using encode_rune_bytes by (induction rs) auto
  ultimately show ?thesis by (simp add: bytes_of_def utf8_text_def string_of_def)
qed

definition valid_utf8 :: "string \<Rightarrow> bool" where
  "valid_utf8 s \<longleftrightarrow> utf8_text (runes_of (bytes_of s)) = s"

definition clean_rune :: "nat \<Rightarrow> nat" where
  "clean_rune r = (if scalar r then r else rune_error)"

lemma encode_clean: "encode_rune (clean_rune r) = encode_rune r"
  by (auto simp: clean_rune_def encode_rune_def scalar_def rune_error_def)

lemma utf8_text_valid: "valid_utf8 (utf8_text rs)"
proof -
  have "concat (map encode_rune rs) = concat (map encode_rune (map clean_rune rs))"
    by (simp add: comp_def encode_clean)
  moreover have "list_all scalar (map clean_rune rs)"
  proof -
    have "scalar (clean_rune r)" for r by (simp add: clean_rune_def) (simp add: scalar_def rune_error_def)
    then show ?thesis by (simp add: list_all_iff)
  qed
  ultimately have "runes_of (concat (map encode_rune rs)) = map clean_rune rs"
    using runes_of_encoded by metis
  then show ?thesis unfolding valid_utf8_def bytes_of_utf8 by (simp add: utf8_text_def comp_def encode_clean)
qed

lemma unquote_valid: "valid_utf8 (unquote raw)"
  by (simp add: unquote_def utf8_text_valid)

section \<open>Decoding what was encoded\<close>

lemma hex_digit_facts:
  assumes "k < 16"
  shows "is_hex (hex_digit k)" "hex_val (hex_digit k) = k"
proof -
  have "k \<in> set [0..<16]" using assms by simp
  also have "[0..<16] = [0, 1, 2, 3, 4, 5, 6, 7, 8, 9, 10, 11, 12, 13, 14, 15 :: nat]" by (simp add: upt_rec)
  finally have "k \<in> {0, 1, 2, 3, 4, 5, 6, 7, 8, 9, 10, 11, 12, 13, 14, 15}" by simp
  then show "is_hex (hex_digit k)" "hex_val (hex_digit k) = k"
    by (auto simp: hex_digit_def is_hex_def hex_val_def is_digit_def)
qed

lemma hex_byte_facts:
  assumes "n < 256"
  shows "list_all is_hex (hex_byte n)" "length (hex_byte n) = 2" "hex_code (CHR ''0'' # CHR ''0'' # hex_byte n) = n"
proof -
  have d: "n div 16 < 16" "n mod 16 < 16" using assms by auto
  show "list_all is_hex (hex_byte n)" "length (hex_byte n) = 2" using hex_digit_facts [OF d(1)] hex_digit_facts [OF d(2)]
    by (simp_all add: hex_byte_def)
  have "hex_val (CHR ''0'') = 0" by (simp add: hex_val_def is_digit_def)
  then show "hex_code (CHR ''0'' # CHR ''0'' # hex_byte n) = n"
    using hex_digit_facts [OF d(1)] hex_digit_facts [OF d(2)] by (simp add: hex_byte_def hex_code_def)
qed

lemma zero_hex: "is_hex (CHR ''0'')"
  by (simp add: is_hex_def is_digit_def)

lemma unquote_u_escape:
  assumes "length h = 4" "\<not> (55296 \<le> hex_code h \<and> hex_code h \<le> 57343)"
  shows "unquote_runes (u_escape h @ t) = hex_code h # unquote_runes t"
  using assms by (auto simp: u_escape_def)

lemma decode_ascii: "(of_char c :: nat) < 128 \<Longrightarrow> decode_rune (bytes_of (c # s)) = (of_char c, 1)"
  by simp

lemma encode_ascii_cases:
  assumes "(of_char c :: nat) < 128"
  obtains (pair) e where "encode_ascii c = [backslash, e]" "simple_escape e" "escape_rune e = of_char c"
  | (code) h where "encode_ascii c = u_escape h" "length h = 4" "list_all is_hex h" "hex_code h = of_char c"
  | (same) "encode_ascii c = [c]" "html_plain c" "\<not> (of_char c :: nat) < 32" "c \<noteq> dquote" "c \<noteq> backslash"
proof -
  have q: "simple_escape dquote" "simple_escape backslash" "escape_rune dquote = of_char dquote" "escape_rune backslash = of_char backslash"
    by (simp_all add: simple_escape_def dquote_def backslash_def)
  consider "c = dquote" | "c = backslash" | "c = CHR 0x08" | "c = CHR 0x0C" | "c = CHR 0x0A" | "c = CHR 0x0D" | "c = CHR 0x09"
    | "\<not> (c = dquote \<or> c = backslash)" "c \<noteq> CHR 0x08" "c \<noteq> CHR 0x0C" "c \<noteq> CHR 0x0A" "c \<noteq> CHR 0x0D" "c \<noteq> CHR 0x09" by blast
  then show ?thesis
  proof cases
    case 1 then show ?thesis using that(1) [of dquote] q by (simp add: encode_ascii_def)
  next
    case 2 then show ?thesis using that(1) [of backslash] q by (simp add: encode_ascii_def)
  next
    case 3 then show ?thesis using that(1) [of "CHR ''b''"] by (simp add: encode_ascii_def simple_escape_def dquote_def backslash_def)
  next
    case 4 then show ?thesis using that(1) [of "CHR ''f''"] by (simp add: encode_ascii_def simple_escape_def dquote_def backslash_def)
  next
    case 5 then show ?thesis using that(1) [of "CHR ''n''"] by (simp add: encode_ascii_def simple_escape_def dquote_def backslash_def)
  next
    case 6 then show ?thesis using that(1) [of "CHR ''r''"] by (simp add: encode_ascii_def simple_escape_def dquote_def backslash_def)
  next
    case 7 then show ?thesis using that(1) [of "CHR ''t''"] by (simp add: encode_ascii_def simple_escape_def dquote_def backslash_def)
  next
    case 8
    let ?esc = "(of_char c :: nat) < 32 \<or> c = CHR ''<'' \<or> c = CHR ''>'' \<or> c = CHR ''&''"
    have e: "encode_ascii c = (if ?esc then u_escape (CHR ''0'' # CHR ''0'' # hex_byte (of_char c)) else [c])"
      using 8 by (simp add: encode_ascii_def)
    show ?thesis
    proof (cases ?esc)
      case True
      then have "encode_ascii c = u_escape (CHR ''0'' # CHR ''0'' # hex_byte (of_char c))" unfolding e by (rule if_P)
      then show ?thesis using that(2) hex_byte_facts [of "of_char c"] zero_hex assms by simp
    next
      case False
      then have "encode_ascii c = [c]" unfolding e by (rule if_not_P)
      moreover have "html_plain c" using False assms by (auto simp: html_plain_def)
      ultimately show ?thesis using that(3) False 8 by blast
    qed
  qed
qed

lemma decodes_width: "decodes bs r w \<Longrightarrow> 1 \<le> w"
  using decode_rune_width [of bs] by (simp add: decodes_def)

text \<open>The bytes of a multi-byte rune: none is below 128, and a lead byte E2 comes only first.\<close>

lemma decodes_multi:
  assumes "decodes bs r w" "128 \<le> hd bs"
  obtains (no_E2) "list_all (\<lambda>b. 128 \<le> b \<and> b \<noteq> 226) (take w bs)"
  | (E2) b1 b2 t where "bs = 226 # b1 # b2 # t" "w = 3" "128 \<le> b1" "b1 \<le> 191" "128 \<le> b2" "b2 \<le> 191"
      "r = 8192 + (b1 - 128) * 64 + (b2 - 128)"
proof (cases rule: decode_rune_cases [of bs])
  case bad
  with assms show ?thesis by (auto simp: decodes_def simp del: decode_rune.simps)
next
  case (one b0 t)
  with assms show ?thesis by simp
next
  case (two b0 b1 t)
  with assms have "take w bs = [b0, b1]" by (simp add: decodes_def del: decode_rune.simps)
  with two that(1) show ?thesis by (simp add: cont_byte_def)
next
  case (three b0 b1 b2 t)
  with assms have t: "take w bs = [b0, b1, b2]" "w = 3" "r = (b0 - 224) * 4096 + (b1 - 128) * 64 + (b2 - 128)"
    by (simp_all add: decodes_def del: decode_rune.simps)
  have b1: "128 \<le> b1" "b1 \<le> 191" using three(4,5) by (auto split: if_splits)
  show ?thesis
  proof (cases "b0 = 226")
    case True
    with t three b1 that(2) show ?thesis by (simp add: cont_byte_def)
  next
    case False
    with t three b1 that(1) show ?thesis by (simp add: cont_byte_def)
  qed
next
  case (four b0 b1 b2 b3 t)
  with assms have t: "take w bs = [b0, b1, b2, b3]" by (simp add: decodes_def del: decode_rune.simps)
  have "128 \<le> b1" "b1 \<le> 191" using four(4,5) by (auto split: if_splits)
  with t four that(1) show ?thesis by (simp add: cont_byte_def)
qed

lemma decodes_high:
  assumes "decodes bs r w" "128 \<le> hd bs"
  shows "list_all (\<lambda>b. 128 \<le> b) (take w bs)"
  using assms by (cases rule: decodes_multi) (auto simp: list_all_iff)

lemma high_html_plain: "128 \<le> (of_char c :: nat) \<Longrightarrow> (of_char c :: nat) \<noteq> 226 \<Longrightarrow> html_plain c"
  by (auto simp: html_plain_def)

text \<open>A multi-byte rune passes through the HTML escaping unless it is a line separator.\<close>

lemma decodes_html:
  assumes "decodes (bytes_of s) r w" "r \<noteq> 8232" "r \<noteq> 8233" "128 \<le> hd (bytes_of s)"
  shows "html_escape (take w s @ t) = take w s @ html_escape t"
  using assms(1,4)
proof (cases rule: decodes_multi)
  case no_E2
  then have "list_all (\<lambda>b. 128 \<le> b \<and> b \<noteq> 226) (bytes_of (take w s))" by simp
  then have "list_all html_plain (take w s)" using high_html_plain by (simp add: bytes_of_def list_all_iff)
  then show ?thesis by (rule html_escape_plain)
next
  case (E2 b1 b2 u)
  then obtain c0 c1 c2 v where s: "s = c0 # c1 # c2 # v" "of_char c0 = (226 :: nat)" "of_char c1 = b1" "of_char c2 = b2"
    by (auto simp: bytes_of_def map_eq_Cons_conv)
  have "(of_char c0 :: nat) = of_char (CHR 0xE2)" using s(2) by simp
  then have "c0 = CHR 0xE2" by (simp only: of_char_eq_iff)
  have n: "\<not> (c1 = CHR 0x80 \<and> (c2 = CHR 0xA8 \<or> c2 = CHR 0xA9))"
  proof
    assume "c1 = CHR 0x80 \<and> (c2 = CHR 0xA8 \<or> c2 = CHR 0xA9)"
    then have "b1 = 128" "b2 = 168 \<or> b2 = 169" using s(3,4) by auto
    with E2(7) assms(2,3) show False by auto
  qed
  have "list_all html_plain [c1, c2]" using E2 s high_html_plain by simp
  from html_escape_plain [OF this, of t] have rest: "html_escape (c1 # c2 # t) = c1 # c2 # html_escape t" by simp
  have t2: "take 2 (c1 # c2 # t) = [c1, c2]" by simp
  have "html_escape (c0 # c1 # c2 # t) = c0 # html_escape (c1 # c2 # t)"
    using n unfolding \<open>c0 = CHR 0xE2\<close> html_escape.simps(2) [of "CHR 0xE2" "c1 # c2 # t"] t2 by auto
  moreover have "take w s = [c0, c1, c2]" using s(1) E2(2) by simp
  ultimately show ?thesis using rest by simp
qed

lemma encode_ascii_unquote:
  assumes "(of_char c :: nat) < 128"
  shows "unquote_runes (encode_ascii c @ t) = of_char c # unquote_runes t"
  using assms
proof (cases rule: encode_ascii_cases)
  case (pair e)
  moreover have "e \<noteq> CHR ''u''" using pair(2) by (auto simp: simple_escape_def dquote_def backslash_def)
  ultimately show ?thesis by (simp del: escape_rune.simps)
next
  case (code h)
  then have "\<not> (55296 \<le> hex_code h \<and> hex_code h \<le> 57343)" using assms by simp
  then show ?thesis using unquote_u_escape [OF code(2)] code by simp
next
  case same
  then show ?thesis using assms by simp
qed

lemma encode_ascii_html:
  assumes "(of_char c :: nat) < 128"
  shows "html_escape (encode_ascii c @ t) = encode_ascii c @ html_escape t"
  using assms
proof (cases rule: encode_ascii_cases)
  case (pair e)
  then have "list_all html_plain (encode_ascii c)" using escape_plain by simp
  then show ?thesis by (rule html_escape_plain)
next
  case (code h)
  then have "list_all html_plain (encode_ascii c)" using escape_plain hex_plain by (auto simp: u_escape_def list_all_iff)
  then show ?thesis by (rule html_escape_plain)
next
  case same
  then have "list_all html_plain (encode_ascii c)" by simp
  then show ?thesis by (rule html_escape_plain)
qed

lemma u_escape_html: "list_all is_hex h \<Longrightarrow> html_escape (u_escape h @ t) = u_escape h @ html_escape t"
  using hex_plain escape_plain by (intro html_escape_plain) (auto simp: u_escape_def list_all_iff)

lemma encode_ascii_scan:
  assumes "(of_char c :: nat) < 128" "scan_string s = Some (a, r)"
  shows "scan_string (encode_ascii c @ s) = Some (encode_ascii c @ a, r)"
  using assms(1)
proof (cases rule: encode_ascii_cases)
  case (pair e)
  then show ?thesis using assms(2) by (simp add: with_prefix_def dquote_def backslash_def)
next
  case (code h)
  then show ?thesis using scan_u_escape [OF code(3,2) assms(2)] by simp
next
  case same
  then show ?thesis using assms(2) by (simp add: with_prefix_def)
qed

lemma scan_high:
  "list_all (\<lambda>c. 128 \<le> (of_char c :: nat)) p \<Longrightarrow> scan_string s = Some (a, r) \<Longrightarrow> scan_string (p @ s) = Some (p @ a, r)"
  by (induction p) (auto simp: with_prefix_def dquote_def backslash_def)

lemma known_hex: "list_all is_hex ''fffd''" "list_all is_hex ''2028''" "list_all is_hex ''2029''"
    "hex_code ''fffd'' = rune_error" "hex_code ''2028'' = 8232" "hex_code ''2029'' = 8233"
  by (simp_all add: is_hex_def is_digit_def hex_code_def hex_val_def rune_error_def)

text \<open>The ways the encoder goes on.\<close>

lemma encode_text_cases:
  obtains (ascii) "(of_char c :: nat) < 128" "encode_text (c # cs) = encode_ascii c @ encode_text cs"
      "runes_of (bytes_of (c # cs)) = of_char c # runes_of (bytes_of cs)"
  | (code) h n where "128 \<le> (of_char c :: nat)" "encode_text (c # cs) = u_escape h @ encode_text (drop n cs)" "length h = 4" "list_all is_hex h"
      "\<not> (55296 \<le> hex_code h \<and> hex_code h \<le> 57343)" "runes_of (bytes_of (c # cs)) = hex_code h # runes_of (bytes_of (drop n cs))"
  | (multi) r w where "128 \<le> (of_char c :: nat)" "decodes (bytes_of (c # cs)) r w" "r \<noteq> 8232" "r \<noteq> 8233"
      "encode_text (c # cs) = take w (c # cs) @ encode_text (drop (w - 1) cs)"
      "runes_of (bytes_of (c # cs)) = r # runes_of (bytes_of (drop (w - 1) cs))"
proof -
  obtain r w where rw: "decode_rune (bytes_of (c # cs)) = (r, w)" by fastforce
  have w: "1 \<le> w" using decode_rune_width [of "bytes_of (c # cs)"] rw by simp
  then have dr: "drop w (bytes_of (c # cs)) = bytes_of (drop (w - 1) cs)" by (cases w) simp_all
  have ru: "runes_of (bytes_of (c # cs)) = r # runes_of (bytes_of (drop (w - 1) cs))"
    by (subst runes_of.simps) (simp only: rw fst_conv snd_conv dr, simp)
  note e = encode_text.simps(2) [of c cs, unfolded rw prod.case Let_def]
  consider "(of_char c :: nat) < 128" | "128 \<le> (of_char c :: nat)" "r = rune_error" "w = 1"
    | "128 \<le> (of_char c :: nat)" "r = 8232" | "128 \<le> (of_char c :: nat)" "r = 8233"
    | "128 \<le> (of_char c :: nat)" "\<not> (r = rune_error \<and> w = 1)" "r \<noteq> 8232" "r \<noteq> 8233" by linarith
  then show ?thesis
  proof cases
    case 1
    then have "r = of_char c" "w = 1" using rw decode_ascii [of c cs] by simp_all
    with 1 e ru that(1) show ?thesis by simp
  next
    case 2
    then have "encode_text (c # cs) = u_escape ''fffd'' @ encode_text (drop 0 cs)" using e by simp
    then show ?thesis using that(2) [of "''fffd''" 0] 2 ru known_hex by (simp add: rune_error_def)
  next
    case 3
    then have "encode_text (c # cs) = u_escape ''2028'' @ encode_text (drop (w - 1) cs)" using e by (simp add: rune_error_def)
    then show ?thesis using that(2) [of "''2028''" "w - 1"] 3 ru known_hex by simp
  next
    case 4
    then have "encode_text (c # cs) = u_escape ''2029'' @ encode_text (drop (w - 1) cs)" using e by (simp add: rune_error_def)
    then show ?thesis using that(2) [of "''2029''" "w - 1"] 4 ru known_hex by simp
  next
    case 5
    then have "encode_text (c # cs) = take w (c # cs) @ encode_text (drop (w - 1) cs)" using e by auto
    then show ?thesis using that(3) [of r w] 5 rw ru by (simp add: decodes_def)
  qed
qed

lemma encode_text_facts:
  "unquote_runes (encode_text s) = runes_of (bytes_of s) \<and>
   html_escape (encode_text s) = encode_text s \<and>
   scan_string (encode_text s @ [dquote]) = Some (encode_text s, [])"
proof (induction "length s" arbitrary: s rule: less_induct)
  case less
  show ?case
  proof (cases s)
    case Nil
    then show ?thesis by (simp add: runes_of.simps)
  next
    case (Cons c cs)
    have ih: "unquote_runes (encode_text (drop n cs)) = runes_of (bytes_of (drop n cs))"
        "html_escape (encode_text (drop n cs)) = encode_text (drop n cs)"
        "scan_string (encode_text (drop n cs) @ [dquote]) = Some (encode_text (drop n cs), [])" for n
      using less [of "drop n cs"] Cons by simp_all
    show ?thesis
    proof (cases rule: encode_text_cases [of c cs])
      case ascii
      show ?thesis unfolding Cons ascii(2,3)
        using ih [of 0] encode_ascii_unquote [OF ascii(1)] encode_ascii_html [OF ascii(1)] encode_ascii_scan [OF ascii(1) ih(3) [of 0]]
        by simp
    next
      case (code h n)
      show ?thesis unfolding Cons code(2,6)
        using ih [of n] unquote_u_escape [OF code(3,5)] u_escape_html [OF code(4)] scan_u_escape [OF code(4,3) ih(3) [of n]]
        by simp
    next
      case (multi r w)
      have hd: "128 \<le> hd (bytes_of (c # cs))" using multi(1) by simp
      have w: "1 \<le> w" using decodes_width [OF multi(2)] .
      have high: "list_all (\<lambda>x. 128 \<le> (of_char x :: nat)) (take w (c # cs))"
        using decodes_high [OF multi(2) hd] unfolding bytes_of_simps(5) [symmetric] by (simp add: bytes_of_def list_all_iff)
      have len: "length (take w (c # cs)) = w" using decodes_take [OF multi(2)] by simp
      obtain p where p: "take w (c # cs) = c # p" using w by (cases w) simp_all
      have "decode_rune (bytes_of (take w (c # cs) @ t)) = (r, w)" for t
        using decodes_take [OF multi(2), of "bytes_of t"] by simp
      then have d: "decode_rune (bytes_of (c # p @ t)) = (r, w)" for t unfolding p by simp
      have "length p = w - 1" using len p by simp
      then have un: "unquote_runes (c # p @ t) = r # unquote_runes t" for t
        using multi(1) d [of t] by (simp add: backslash_def del: bytes_of_simps) (auto simp: backslash_def)
      show ?thesis unfolding Cons multi(5,6)
        using ih [of "w - 1"] un decodes_html [OF multi(2-4) hd] scan_high [OF high ih(3) [of "w - 1"]]
        unfolding p by simp
    qed
  qed
qed

lemma encode_text_valid: "valid_string (encode_text s)"
  using encode_text_facts by (simp add: valid_string_def)

lemma html_encode_text [simp]: "html_escape (encode_text s) = encode_text s"
  using encode_text_facts by blast

lemma unquote_encode: "unquote (encode_text s) = utf8_text (runes_of (bytes_of s))"
  using encode_text_facts by (simp add: unquote_def)

lemma unquote_encode_valid: "valid_utf8 s \<Longrightarrow> unquote (encode_text s) = s"
  by (simp add: unquote_encode valid_utf8_def)

section \<open>Decimal numbers\<close>

lemma nat_digits_head: "nat_digits n = c # t \<Longrightarrow> c = CHR ''0'' \<Longrightarrow> t = []"
proof (induction n arbitrary: t rule: nat_digits.induct)
  case (1 n)
  show ?case
  proof (cases "n < 10")
    case True
    then show ?thesis using "1.prems" by (simp add: nat_digits.simps [of n])
  next
    case False
    obtain d u where d: "nat_digits (n div 10) = d # u" using nat_digits_props by (cases "nat_digits (n div 10)") auto
    then have "c = d" using "1.prems" False by (simp add: nat_digits.simps [of n])
    with 1 d False have u: "u = []" by simp
    have "digits_val [d] = n div 10" using nat_digits_props [of "n div 10"] d u by simp
    then have "n div 10 = 0" using \<open>c = d\<close> "1.prems"(2) by (auto simp: digits_val_def digit_val_def)
    with False show ?thesis by simp
  qed
qed

lemma valid_number_itoa: "valid_number (itoa n)"
proof -
  have nd: "scan_seq scan_int (scan_seq scan_frac scan_exp) (nat_digits k) = Some (nat_digits k, [])" for k
  proof -
    obtain c t where ct: "nat_digits k = c # t" using nat_digits_props by (cases "nat_digits k") auto
    have all: "list_all is_digit (c # t)" using nat_digits_props [of k] ct by simp
    then have w: "takeWhile is_digit (c # t) = c # t" "dropWhile is_digit (c # t) = []"
      by (simp_all add: takeWhile_eq_all_conv dropWhile_eq_Nil_conv list_all_iff)
    have "scan_int (c # t) = Some (c # t, [])"
      using w all nat_digits_head [OF ct] by (auto simp: scan_int_def)
    then show ?thesis unfolding ct by (simp add: scan_seq_def scan_frac_def scan_exp_def with_prefix_def)
  qed
  have sg: "take (Suc 0) (nat_digits k) \<noteq> ''-''" for k using nat_digits_sign [of k] by simp
  show ?thesis
    using nd [of "nat n"] nd [of "nat (- n)"] sg [of "nat n"]
    by (cases "n < 0") (simp_all add: valid_number_def scan_number_def itoa_def scan_seq_def [of scan_sign] scan_sign_def with_prefix_def)
qed

end
