(* ===== verification/Priority_Doc.thy ===== *)
theory Priority_Doc imports Refresh_Types Json_Text "HOL-Library.AList" begin

text \<open>
  \<^verbatim>\<open>internal/refreshquota/priority.go\<close>: the JSON documents of the temporary priority override. A
  credential file is an object; \<^verbatim>\<open>map[string]json.RawMessage\<close> is an association list with distinct
  keys, a raw message the value it holds. The override writes the new priority and a marker
  member that remembers the old one; the restoration undoes both.
\<close>

section \<open>Definitions\<close>

definition priorityOverrideMarkerKey :: string where
  "priorityOverrideMarkerKey = ''_cpa_auto_refresh_quota_priority_override''"

definition priorityOverrideOwner :: string where
  "priorityOverrideOwner = ''cpa-auto-refresh-quota''"

definition priorityOverrideVersion :: int where
  "priorityOverrideVersion = 1"

definition maxAuthFileBytes :: int where
  "maxAuthFileBytes = 4 * 1024 * 1024"

record marker =
  mk_Version :: int
  mk_Owner :: string
  mk_RunID :: string
  mk_AuthIndex :: string
  mk_OverridePriority :: int
  mk_OriginalPriorityPresent :: bool
  mk_OriginalPriority :: "json option"
  mk_OriginalFilePriority :: int

definition zero_marker :: marker where
  "zero_marker = \<lparr> mk_Version = 0, mk_Owner = [], mk_RunID = [], mk_AuthIndex = [], mk_OverridePriority = 0,
     mk_OriginalPriorityPresent = False, mk_OriginalPriority = None, mk_OriginalFilePriority = 0 \<rparr>"

record priority_lease =
  pl_AuthIndex :: string
  pl_AuthID :: string
  pl_Name :: string
  pl_Marker :: marker

subsection \<open>Priorities of the listed credentials\<close>

fun highest_loop :: "int \<Rightarrow> bool \<Rightarrow> auth list \<Rightarrow> int \<times> bool" where
  "highest_loop highest found [] = (highest, found)"
| "highest_loop highest found (a # auths) =
     (if au_Disabled a \<or> equal_fold_ascii (trim_space (au_Status a)) ''disabled''
      then highest_loop highest found auths
      else if \<not> found \<or> au_Priority a > highest then highest_loop (au_Priority a) True auths
      else highest_loop highest found auths)"

definition highest_available_priority :: "auth list \<Rightarrow> int \<times> bool" where
  "highest_available_priority auths = highest_loop 0 False auths"

definition desired_priority_for_auth :: "auth \<Rightarrow> int \<Rightarrow> bool \<Rightarrow> int" where
  "desired_priority_for_auth a highest found =
     (if \<not> found \<or> highest < au_Priority a then au_Priority a else highest)"

subsection \<open>Reading a priority\<close>

text \<open>
  \<^verbatim>\<open>json.Number.Float64\<close> of a literal and its conversion to \<^verbatim>\<open>int\<close>: the exact decimal, rounded
  to a double, cut to an integer. \<^term>\<open>None\<close> is the range error. A double outside the 64-bit range
  converts to the least integer, as on amd64.
\<close>

definition split_exponent :: "string \<Rightarrow> string \<times> string" where
  "split_exponent s = (takeWhile (\<lambda>c. c \<noteq> CHR ''e'' \<and> c \<noteq> CHR ''E'') s, drop 1 (dropWhile (\<lambda>c. c \<noteq> CHR ''e'' \<and> c \<noteq> CHR ''E'') s))"

definition exponent_val :: "string \<Rightarrow> int" where
  "exponent_val s =
     (if take 1 s = ''-'' then - int (digits_val (drop 1 s))
      else if take 1 s = ''+'' then int (digits_val (drop 1 s)) else int (digits_val s))"

definition float_to_int :: "string \<Rightarrow> int option" where
  "float_to_int lit =
     (let neg = (take 1 lit = ''-'');
          (mant, ex) = split_exponent (if neg then drop 1 lit else lit);
          ip = takeWhile is_digit mant;
          fp = drop 1 (dropWhile is_digit mant);
          m = digits_val (ip @ fp);
          e = exponent_val ex - int (length fp);
          size = int (length (nat_digits m)) + e
      in if m = 0 \<or> size < - 330 then Some 0
         else if size > 310 then None
         else let q = (if e \<ge> 0 then (m * 10 ^ nat e, 1) else (m, 10 ^ nat (- e)))
              in if fl64_overflow q then None
                 else let t = int (fl64_trunc (fl64 q)); v = (if neg then - t else t)
                      in Some (if int64_min \<le> v \<and> v \<le> int64_max then v else int64_min))"

definition priority_from_raw :: "json option \<Rightarrow> int" where
  "priority_from_raw raw =
     (case raw of
        Some (JNum lit) \<Rightarrow>
          (case atoi lit of
             Some n \<Rightarrow> n
           | None \<Rightarrow> (case float_to_int lit of Some n \<Rightarrow> n | None \<Rightarrow> 0))
      | Some (JStr s) \<Rightarrow> (case atoi (trim_space (unquote s)) of Some n \<Rightarrow> n | None \<Rightarrow> 0)
      | _ \<Rightarrow> 0)"

subsection \<open>Objects\<close>

type_synonym fields = "(string \<times> json) list"

definition decode_fields :: "(string \<times> json) list \<Rightarrow> fields" where
  "decode_fields kvs = foldl (\<lambda>m kv. AList.update (unquote (fst kv)) (snd kv) m) [] kvs"

definition fields_json :: "fields \<Rightarrow> json" where
  "fields_json fs = JObj (map (\<lambda>kv. (encode_text (fst kv), snd kv)) (sort_key fst fs))"

text \<open>\<^verbatim>\<open>json.Marshal\<close> of the map: sorted keys, compacted values.\<close>

definition marshal_fields :: "fields \<Rightarrow> bytes" where
  "marshal_fields fs = print_json (fields_json fs)"

definition decode_auth_file_object :: "bytes \<Rightarrow> err + fields" where
  "decode_auth_file_object raw =
     (let trimmed = trim_space raw
      in if trimmed = [] then Inl (ErrNew ''credential JSON is empty'')
         else if int (length trimmed) > maxAuthFileBytes
         then Inl (ErrNew (''credential JSON exceeds '' @ itoa maxAuthFileBytes @ '' bytes''))
         else case parse_json trimmed of
           None \<Rightarrow> Inl (ErrWrap ''decode credential JSON: '' ErrJson)
         | Some (JObj kvs) \<Rightarrow> Inr (decode_fields kvs)
         | Some JNull \<Rightarrow> Inl (ErrNew ''credential JSON must be an object'')
         | Some _ \<Rightarrow> Inl (ErrWrap ''decode credential JSON: '' ErrJson))"

subsection \<open>The marker\<close>

definition marker_json :: "marker \<Rightarrow> json" where
  "marker_json m = JObj (
     [(''version'', JNum (itoa (mk_Version m))),
      (''owner'', JStr (encode_text (mk_Owner m))),
      (''run_id'', JStr (encode_text (mk_RunID m))),
      (''auth_index'', JStr (encode_text (mk_AuthIndex m))),
      (''override_priority'', JNum (itoa (mk_OverridePriority m))),
      (''original_priority_present'', JBool (mk_OriginalPriorityPresent m))] @
     (case mk_OriginalPriority m of None \<Rightarrow> [] | Some v \<Rightarrow> [(''original_priority'', v)]) @
     [(''original_file_priority'', JNum (itoa (mk_OriginalFilePriority m)))])"

text \<open>One value of a member of the kind of a field: \<^verbatim>\<open>null\<close> leaves it, another kind is an error.\<close>

definition json_int :: "json \<Rightarrow> int \<Rightarrow> int option" where
  "json_int v old = (case v of JNull \<Rightarrow> Some old | JNum lit \<Rightarrow> atoi lit | _ \<Rightarrow> None)"

definition json_string :: "json \<Rightarrow> string \<Rightarrow> string option" where
  "json_string v old = (case v of JNull \<Rightarrow> Some old | JStr s \<Rightarrow> Some (unquote s) | _ \<Rightarrow> None)"

definition json_bool :: "json \<Rightarrow> bool \<Rightarrow> bool option" where
  "json_bool v old = (case v of JNull \<Rightarrow> Some old | JBool b \<Rightarrow> Some b | _ \<Rightarrow> None)"

definition set_marker_field :: "marker \<Rightarrow> string \<times> json \<Rightarrow> marker option" where
  "set_marker_field m kv =
     (let k = unquote (fst kv); v = snd kv
      in if equal_fold_ascii k ''version'' then map_option (\<lambda>x. m\<lparr>mk_Version := x\<rparr>) (json_int v (mk_Version m))
         else if equal_fold_ascii k ''owner'' then map_option (\<lambda>x. m\<lparr>mk_Owner := x\<rparr>) (json_string v (mk_Owner m))
         else if equal_fold_ascii k ''run_id'' then map_option (\<lambda>x. m\<lparr>mk_RunID := x\<rparr>) (json_string v (mk_RunID m))
         else if equal_fold_ascii k ''auth_index'' then map_option (\<lambda>x. m\<lparr>mk_AuthIndex := x\<rparr>) (json_string v (mk_AuthIndex m))
         else if equal_fold_ascii k ''override_priority''
         then map_option (\<lambda>x. m\<lparr>mk_OverridePriority := x\<rparr>) (json_int v (mk_OverridePriority m))
         else if equal_fold_ascii k ''original_priority_present''
         then map_option (\<lambda>x. m\<lparr>mk_OriginalPriorityPresent := x\<rparr>) (json_bool v (mk_OriginalPriorityPresent m))
         else if equal_fold_ascii k ''original_priority'' then Some (m\<lparr>mk_OriginalPriority := Some v\<rparr>)
         else if equal_fold_ascii k ''original_file_priority''
         then map_option (\<lambda>x. m\<lparr>mk_OriginalFilePriority := x\<rparr>) (json_int v (mk_OriginalFilePriority m))
         else Some m)"

fun set_marker_fields :: "marker \<Rightarrow> (string \<times> json) list \<Rightarrow> marker option" where
  "set_marker_fields m [] = Some m"
| "set_marker_fields m (kv # kvs) =
     (case set_marker_field m kv of None \<Rightarrow> None | Some m' \<Rightarrow> set_marker_fields m' kvs)"

definition unmarshal_marker :: "json \<Rightarrow> marker option" where
  "unmarshal_marker v =
     (case v of
        JObj kvs \<Rightarrow> set_marker_fields zero_marker kvs
      | JNull \<Rightarrow> Some zero_marker
      | _ \<Rightarrow> None)"

definition decode_priority_override_marker :: "json \<Rightarrow> err + marker" where
  "decode_priority_override_marker raw =
     (case unmarshal_marker raw of
        None \<Rightarrow> Inl (ErrWrap ''decode priority override marker: '' ErrJson)
      | Some m \<Rightarrow>
          if mk_Version m \<noteq> priorityOverrideVersion \<or> mk_Owner m \<noteq> priorityOverrideOwner \<or> trim_space (mk_AuthIndex m) = []
          then Inl (ErrNew ''credential contains an unsupported priority override marker'')
          else if mk_OriginalPriorityPresent m \<and> mk_OriginalPriority m = None
          then Inl (ErrNew ''priority override marker is missing the original priority'')
          else Inr m)"

subsection \<open>Build, read, restore\<close>

definition build_priority_override_json :: "bytes \<Rightarrow> string \<Rightarrow> string \<Rightarrow> int \<Rightarrow> err + bytes \<times> marker" where
  "build_priority_override_json raw authIndex runID overridePriority =
     rbind (decode_auth_file_object raw) (\<lambda>fs.
       if map_of fs priorityOverrideMarkerKey \<noteq> None
       then Inl (ErrNew ''credential already contains a priority override marker'')
       else let original = map_of fs ''priority'';
                m = \<lparr> mk_Version = priorityOverrideVersion, mk_Owner = priorityOverrideOwner,
                      mk_RunID = trim_space runID, mk_AuthIndex = trim_space authIndex,
                      mk_OverridePriority = overridePriority, mk_OriginalPriorityPresent = (original \<noteq> None),
                      mk_OriginalPriority = original, mk_OriginalFilePriority = priority_from_raw original \<rparr>
            in Inr (marshal_fields (AList.update priorityOverrideMarkerKey (marker_json m)
                      (AList.update ''priority'' (JNum (itoa overridePriority)) fs)), m))"

definition priority_override_marker_from_json :: "bytes \<Rightarrow> err + marker option" where
  "priority_override_marker_from_json raw =
     rbind (decode_auth_file_object raw) (\<lambda>fs.
       case map_of fs priorityOverrideMarkerKey of
         None \<Rightarrow> Inr None
       | Some rawMarker \<Rightarrow> rbind (decode_priority_override_marker rawMarker) (\<lambda>m. Inr (Some m)))"

text \<open>The document, the expected priority, whether to save, whether the priority was changed by others.\<close>

definition apply_restore :: "bytes \<Rightarrow> fields \<Rightarrow> bool \<Rightarrow> marker \<Rightarrow> bytes \<times> int \<times> bool \<times> bool" where
  "apply_restore raw fs markerPresent m =
     (let current = priority_from_raw (map_of fs ''priority'');
          external = (current \<noteq> mk_OverridePriority m);
          expected = (if external then current else mk_OriginalFilePriority m);
          fs1 = (if external then fs
                 else if mk_OriginalPriorityPresent m
                 then AList.update ''priority'' (case mk_OriginalPriority m of Some v \<Rightarrow> v | None \<Rightarrow> JNull) fs
                 else AList.delete ''priority'' fs);
          fs2 = AList.delete priorityOverrideMarkerKey fs1
      in if \<not> markerPresent \<and> external then (raw, expected, False, True)
         else (marshal_fields fs2, expected, True, external))"

definition restore_priority_override_json :: "bytes \<Rightarrow> marker option \<Rightarrow> err + bytes \<times> int \<times> bool \<times> bool" where
  "restore_priority_override_json raw fallback =
     rbind (decode_auth_file_object raw) (\<lambda>fs.
       case map_of fs priorityOverrideMarkerKey of
         Some rawMarker \<Rightarrow>
           rbind (decode_priority_override_marker rawMarker) (\<lambda>m.
             case fallback of
               Some f \<Rightarrow>
                 if mk_AuthIndex m \<noteq> mk_AuthIndex f \<or> mk_RunID m \<noteq> mk_RunID f \<or> mk_OverridePriority m \<noteq> mk_OverridePriority f
                 then Inl (ErrNew ''credential priority override marker belongs to another transaction'')
                 else Inr (apply_restore raw fs True m)
             | None \<Rightarrow> Inr (apply_restore raw fs True m))
       | None \<Rightarrow>
           (case fallback of
              Some f \<Rightarrow> Inr (apply_restore raw fs False f)
            | None \<Rightarrow> Inr (raw, 0, False, False)))"

section \<open>Association lists\<close>

definition fields_ok :: "fields \<Rightarrow> bool" where
  "fields_ok fs \<longleftrightarrow> distinct (map fst fs) \<and> (\<forall>kv \<in> set fs. valid_utf8 (fst kv) \<and> wf_json (snd kv))"

lemma map_of_sort_key:
  assumes "distinct (map fst fs)"
  shows "map_of (sort_key fst fs) = map_of fs"
proof -
  have "distinct (map fst (sort_key fst fs))"
    using assms by (metis distinct_map distinct_sort set_sort)
  then show ?thesis using assms by (simp add: map_of_inject_set)
qed

lemma set_update_subset: "kv \<in> set (AList.update k v fs) \<Longrightarrow> kv = (k, v) \<or> kv \<in> set fs"
  by (induction fs) (auto split: if_splits)

lemma set_delete_subset: "kv \<in> set (AList.delete k fs) \<Longrightarrow> kv \<in> set fs"
  by (auto simp: AList.delete_eq)

lemma fields_ok_update: "fields_ok fs \<Longrightarrow> valid_utf8 k \<Longrightarrow> wf_json v \<Longrightarrow> fields_ok (AList.update k v fs)"
proof -
  assume ok: "fields_ok fs" and k: "valid_utf8 k" and v: "wf_json v"
  have "valid_utf8 (fst kv) \<and> wf_json (snd kv)" if "kv \<in> set (AList.update k v fs)" for kv
    using set_update_subset [OF that] ok k v by (auto simp: fields_ok_def)
  moreover have "distinct (map fst (AList.update k v fs))" using ok by (simp add: fields_ok_def distinct_update)
  ultimately show ?thesis by (simp add: fields_ok_def)
qed

lemma fields_ok_delete: "fields_ok fs \<Longrightarrow> fields_ok (AList.delete k fs)"
  unfolding fields_ok_def by (auto simp: AList.distinct_delete dest: set_delete_subset)

lemma fold_update_facts:
  fixes m :: fields
  shows "map_of (foldl (\<lambda>m kv. AList.update (unquote (fst kv)) (snd kv) m) m kvs) =
     map_of m ++ map_of (rev (map (\<lambda>kv. (unquote (fst kv), snd kv)) kvs))"
  by (induction kvs arbitrary: m rule: rev_induct) (auto simp: update_conv map_add_def fun_eq_iff)

lemma decode_fields_map: "map_of (decode_fields kvs) = map_of (rev (map (\<lambda>kv. (unquote (fst kv), snd kv)) kvs))"
  using fold_update_facts [of "[]" kvs] by (simp add: decode_fields_def)

lemma fold_update_ok:
  "fields_ok m \<Longrightarrow> \<forall>kv \<in> set kvs. wf_json (snd kv) \<Longrightarrow>
     fields_ok (foldl (\<lambda>m kv. AList.update (unquote (fst kv)) (snd kv) m) m kvs)"
  by (induction kvs arbitrary: m) (auto intro: fields_ok_update unquote_valid)

lemma decode_fields_ok: "wf_json (JObj kvs) \<Longrightarrow> fields_ok (decode_fields kvs)"
  unfolding decode_fields_def by (rule fold_update_ok) (auto simp: fields_ok_def list_all_iff)

lemma decode_fields_values: "kv \<in> set (decode_fields kvs) \<Longrightarrow> snd kv \<in> snd ` set kvs"
proof -
  have "kv \<in> set (foldl (\<lambda>m kv. AList.update (unquote (fst kv)) (snd kv) m) m kvs) \<Longrightarrow> snd kv \<in> snd ` set m \<union> snd ` set kvs" for m
  proof (induction kvs arbitrary: m)
    case (Cons a kvs)
    have "snd ` set (AList.update (unquote (fst a)) (snd a) m) \<subseteq> insert (snd a) (snd ` set m)"
      using set_update_subset by fastforce
    with Cons.IH [of "AList.update (unquote (fst a)) (snd a) m"] Cons.prems show ?case by auto
  qed auto
  then show "kv \<in> set (decode_fields kvs) \<Longrightarrow> snd kv \<in> snd ` set kvs" by (fastforce simp: decode_fields_def)
qed

lemma decode_auth_file_ok: "decode_auth_file_object raw = Inr fs \<Longrightarrow> fields_ok fs"
  by (auto simp: decode_auth_file_object_def Let_def split: if_splits option.splits json.splits
      intro: decode_fields_ok dest!: parse_json_ok(1))

section \<open>Reading back a marshalled object\<close>

lemma decode_encoded_members:
  assumes "fields_ok fs"
  shows "map_of (decode_fields (map (\<lambda>kv. (encode_text (fst kv), compact_json (snd kv))) (sort_key fst fs))) =
     map_option compact_json \<circ> map_of fs"
proof -
  let ?ss = "sort_key fst fs"
  have d: "distinct (map fst ?ss)" using assms by (metis fields_ok_def distinct_map distinct_sort set_sort)
  have u: "unquote (encode_text (fst kv)) = fst kv" if "kv \<in> set fs" for kv
    using assms that by (auto simp: fields_ok_def intro: unquote_encode_valid)
  have A: "map (\<lambda>kv. (unquote (fst kv), snd kv)) (map (\<lambda>kv. (encode_text (fst kv), compact_json (snd kv))) ?ss) =
      map (\<lambda>(k, v). (k, compact_json v)) ?ss"
    using u by (auto simp: case_prod_beta)
  have B: "map_of (rev (map (\<lambda>(k, v). (k, compact_json v)) ?ss)) = map_of (map (\<lambda>(k, v). (k, compact_json v)) ?ss)"
  proof -
    have "distinct (map fst (map (\<lambda>(k, v). (k, compact_json v)) ?ss))" using d by (simp add: comp_def case_prod_beta)
    then show ?thesis by (subst map_of_inject_set) (simp_all add: rev_map [symmetric])
  qed
  show ?thesis unfolding decode_fields_map A B
    using assms by (simp add: map_of_map map_of_sort_key fields_ok_def)
qed

lemma marshal_parse:
  assumes "fields_ok fs" "\<forall>kv \<in> set fs. int (json_depth (snd kv)) < maxNestingDepth"
  shows "\<exists>kvs. parse_json (marshal_fields fs) = Some (JObj kvs) \<and> map_of (decode_fields kvs) = map_option compact_json \<circ> map_of fs"
proof -
  have wf: "wf_json (fields_json fs)"
    using assms(1) encode_text_valid by (auto simp: fields_json_def fields_ok_def list_all_iff)
  have "json_depth (fields_json fs) \<le> Suc (nat (maxNestingDepth - 1))"
    unfolding fields_json_def depth_le_iff using assms(2) by (fastforce simp: nat_le_eq_zle le_nat_iff)
  then have "int (json_depth (fields_json fs)) \<le> maxNestingDepth" by (simp add: maxNestingDepth_def)
  from parse_print_json [OF wf this] have "parse_json (marshal_fields fs) =
      Some (JObj (map (\<lambda>kv. (encode_text (fst kv), compact_json (snd kv))) (sort_key fst fs)))"
    by (simp add: marshal_fields_def fields_json_def comp_def case_prod_beta)
  with decode_encoded_members [OF assms(1)] show ?thesis by blast
qed

lemma space_free_ends:
  assumes "s = c # t" "s = u @ [d]" "\<not> digit7 c" "\<not> ascii_space c" "\<not> digit7 d" "\<not> ascii_space d"
  shows "trim_space s = s"
proof -
  have "trim_left s = s" using assms(1,3,4) by (simp add: trim_left_def trim_front_fix space_len_def)
  moreover have "trim_right s = s" using assms(2,5,6) by (simp add: trim_right_def trim_front_fix space_len_def)
  ultimately show ?thesis by (simp add: trim_space_def)
qed

lemma marshal_shape: "\<exists>u. marshal_fields fs = ''{'' @ u @ ''}''"
  by (simp add: marshal_fields_def fields_json_def print_json_def print_raw_def)

lemma trim_marshal [simp]: "trim_space (marshal_fields fs) = marshal_fields fs" "marshal_fields fs \<noteq> []"
proof -
  obtain u where u: "marshal_fields fs = ''{'' @ u @ ''}''" using marshal_shape by blast
  show "trim_space (marshal_fields fs) = marshal_fields fs"
    by (rule space_free_ends [of _ "CHR ''{''" "u @ ''}''" "''{'' @ u" "CHR ''}''"])
      (simp_all add: u ascii_space_def)
  show "marshal_fields fs \<noteq> []" using u by simp
qed

lemma decode_marshal:
  assumes "fields_ok fs" "\<forall>kv \<in> set fs. int (json_depth (snd kv)) < maxNestingDepth"
    "int (length (marshal_fields fs)) \<le> maxAuthFileBytes"
  shows "\<exists>fs'. decode_auth_file_object (marshal_fields fs) = Inr fs' \<and> map_of fs' = map_option compact_json \<circ> map_of fs"
proof -
  obtain kvs where "parse_json (marshal_fields fs) = Some (JObj kvs)" "map_of (decode_fields kvs) = map_option compact_json \<circ> map_of fs"
    using marshal_parse [OF assms(1,2)] by blast
  then show ?thesis using assms(3) by (simp add: decode_auth_file_object_def Let_def)
qed

section \<open>Numbers and the marker\<close>

lemma priority_range: "int64_min \<le> priority_from_raw v \<and> priority_from_raw v \<le> int64_max"
proof -
  have z: "int64_min \<le> 0" "0 \<le> int64_max" "int64_min \<le> int64_max" by (simp_all add: int64_min_def int64_max_def)
  have a: "int64_min \<le> n \<and> n \<le> int64_max" if "atoi s = Some n" for s n
    using that by (auto simp: atoi_def Let_def split: if_splits)
  have f: "int64_min \<le> n \<and> n \<le> int64_max" if "float_to_int s = Some n" for s n
    using that z by (auto simp: float_to_int_def Let_def split: if_splits prod.splits)
  show ?thesis using z a f by (auto simp: priority_from_raw_def split: option.splits json.splits)
qed

definition marker_ok :: "marker \<Rightarrow> bool" where
  "marker_ok m \<longleftrightarrow> mk_Version m = priorityOverrideVersion \<and> mk_Owner m = priorityOverrideOwner \<and>
     valid_utf8 (mk_RunID m) \<and> valid_utf8 (mk_AuthIndex m) \<and> trim_space (mk_AuthIndex m) \<noteq> [] \<and>
     int64_min \<le> mk_OverridePriority m \<and> mk_OverridePriority m \<le> int64_max \<and>
     int64_min \<le> mk_OriginalFilePriority m \<and> mk_OriginalFilePriority m \<le> int64_max \<and>
     (mk_OriginalPriorityPresent m \<longleftrightarrow> mk_OriginalPriority m \<noteq> None) \<and>
     (\<forall>v. mk_OriginalPriority m = Some v \<longrightarrow> wf_json v)"

definition compact_marker :: "marker \<Rightarrow> marker" where
  "compact_marker m = m\<lparr>mk_OriginalPriority := map_option compact_json (mk_OriginalPriority m)\<rparr>"

lemma marker_names:
  "unquote ''version'' = ''version''" "unquote ''owner'' = ''owner''" "unquote ''run_id'' = ''run_id''"
  "unquote ''auth_index'' = ''auth_index''" "unquote ''override_priority'' = ''override_priority''"
  "unquote ''original_priority_present'' = ''original_priority_present''"
  "unquote ''original_priority'' = ''original_priority''" "unquote ''original_file_priority'' = ''original_file_priority''"
  "valid_string ''version''" "valid_string ''owner''" "valid_string ''run_id''" "valid_string ''auth_index''"
  "valid_string ''override_priority''" "valid_string ''original_priority_present''" "valid_string ''original_priority''"
  "valid_string ''original_file_priority''"
  "html_escape ''version'' = ''version''" "html_escape ''owner'' = ''owner''" "html_escape ''run_id'' = ''run_id''"
  "html_escape ''auth_index'' = ''auth_index''" "html_escape ''override_priority'' = ''override_priority''"
  "html_escape ''original_priority_present'' = ''original_priority_present''"
  "html_escape ''original_priority'' = ''original_priority''" "html_escape ''original_file_priority'' = ''original_file_priority''"
  "valid_utf8 ''priority''" "valid_utf8 priorityOverrideMarkerKey" "valid_utf8 priorityOverrideOwner"
  by code_simp+

lemma folded_names:
  "fold_ascii ''version'' = ''version''" "fold_ascii ''owner'' = ''owner''" "fold_ascii ''run_id'' = ''run_id''"
  "fold_ascii ''auth_index'' = ''auth_index''" "fold_ascii ''override_priority'' = ''override_priority''"
  "fold_ascii ''original_priority_present'' = ''original_priority_present''"
  "fold_ascii ''original_priority'' = ''original_priority''" "fold_ascii ''original_file_priority'' = ''original_file_priority''"
  by code_simp+

lemmas set_field_simps = set_marker_field_def Let_def fst_conv snd_conv marker_names(1-8) equal_fold_ascii_def folded_names

lemma set_field_known:
  "set_marker_field m (''version'', v) = map_option (\<lambda>x. m\<lparr>mk_Version := x\<rparr>) (json_int v (mk_Version m))"
  "set_marker_field m (''owner'', v) = map_option (\<lambda>x. m\<lparr>mk_Owner := x\<rparr>) (json_string v (mk_Owner m))"
  "set_marker_field m (''run_id'', v) = map_option (\<lambda>x. m\<lparr>mk_RunID := x\<rparr>) (json_string v (mk_RunID m))"
  "set_marker_field m (''auth_index'', v) = map_option (\<lambda>x. m\<lparr>mk_AuthIndex := x\<rparr>) (json_string v (mk_AuthIndex m))"
  "set_marker_field m (''override_priority'', v) = map_option (\<lambda>x. m\<lparr>mk_OverridePriority := x\<rparr>) (json_int v (mk_OverridePriority m))"
  "set_marker_field m (''original_priority_present'', v) =
     map_option (\<lambda>x. m\<lparr>mk_OriginalPriorityPresent := x\<rparr>) (json_bool v (mk_OriginalPriorityPresent m))"
  "set_marker_field m (''original_priority'', v) = Some (m\<lparr>mk_OriginalPriority := Some v\<rparr>)"
  "set_marker_field m (''original_file_priority'', v) =
     map_option (\<lambda>x. m\<lparr>mk_OriginalFilePriority := x\<rparr>) (json_int v (mk_OriginalFilePriority m))"
  by (simp_all only: set_field_simps) simp_all

lemma marker_json_wf: "marker_ok m \<Longrightarrow> wf_json (marker_json m)"
  by (cases "mk_OriginalPriority m") (simp_all add: marker_json_def marker_ok_def marker_names encode_text_valid valid_number_itoa)

lemma unmarshal_marker_json:
  assumes "marker_ok m"
  shows "unmarshal_marker (compact_json (marker_json m)) = Some (compact_marker m)"
proof -
  note ok = assms [unfolded marker_ok_def]
  have ints: "atoi (itoa (mk_Version m)) = Some (mk_Version m)" "atoi (itoa (mk_OverridePriority m)) = Some (mk_OverridePriority m)"
      "atoi (itoa (mk_OriginalFilePriority m)) = Some (mk_OriginalFilePriority m)"
    using ok by (auto intro!: atoi_itoa simp: priorityOverrideVersion_def int64_min_def int64_max_def)
  have strs: "unquote (encode_text (mk_Owner m)) = mk_Owner m" "unquote (encode_text (mk_RunID m)) = mk_RunID m"
      "unquote (encode_text (mk_AuthIndex m)) = mk_AuthIndex m"
    using ok marker_names(27) by (auto intro!: unquote_encode_valid)
  show ?thesis
    by (cases "mk_OriginalPriority m")
      (simp_all add: unmarshal_marker_def marker_json_def marker_names set_field_known json_int_def json_string_def json_bool_def
        ints strs zero_marker_def compact_marker_def)
qed

lemma decode_marker_json:
  assumes "marker_ok m"
  shows "decode_priority_override_marker (compact_json (marker_json m)) = Inr (compact_marker m)"
  using assms unmarshal_marker_json [OF assms]
  by (auto simp: decode_priority_override_marker_def compact_marker_def marker_ok_def)

lemma marker_json_depth:
  "json_depth (marker_json m) \<le> Suc (case mk_OriginalPriority m of None \<Rightarrow> 0 | Some v \<Rightarrow> json_depth v)"
  by (cases "mk_OriginalPriority m") (auto simp: marker_json_def)

section \<open>Restoring\<close>

lemma decode_auth_file_depth:
  assumes "decode_auth_file_object raw = Inr fs" "kv \<in> set fs"
  shows "int (json_depth (snd kv)) < maxNestingDepth"
proof -
  from assms(1) obtain kvs where k: "parse_json (trim_space raw) = Some (JObj kvs)" "fs = decode_fields kvs"
    by (auto simp: decode_auth_file_object_def Let_def split: if_splits option.splits json.splits)
  obtain kv' where kv': "kv' \<in> set kvs" "snd kv' = snd kv" using decode_fields_values assms(2) k(2) by fastforce
  have "fits (json_depth (JObj kvs)) 0" using parse_json_ok(2) [OF k(1)] by (simp add: fits_def)
  moreover have "(fst kv', snd kv) \<in> set kvs" using kv' by (metis prod.collapse)
  ultimately have "fits (json_depth (snd kv)) (Suc 0)" by (rule fits_JObj)
  then show ?thesis by (simp add: fits_def)
qed

lemma marker_key_other [simp]: "priorityOverrideMarkerKey \<noteq> ''priority''" "''priority'' \<noteq> priorityOverrideMarkerKey"
  by (simp_all add: priorityOverrideMarkerKey_def)

text \<open>The fields a restoration writes back.\<close>

definition restored_fields :: "fields \<Rightarrow> marker \<Rightarrow> string \<Rightarrow> json option" where
  "restored_fields fs m =
     (map_of fs)(priorityOverrideMarkerKey := None,
       ''priority'' := (if priority_from_raw (map_of fs ''priority'') \<noteq> mk_OverridePriority m then map_of fs ''priority''
                      else if mk_OriginalPriorityPresent m then Some (case mk_OriginalPriority m of Some v \<Rightarrow> v | None \<Rightarrow> JNull)
                      else None))"

lemma apply_restore_spec:
  assumes "fields_ok fs" "\<forall>kv \<in> set fs. int (json_depth (snd kv)) < maxNestingDepth"
    "\<forall>v. mk_OriginalPriority m = Some v \<longrightarrow> wf_json v \<and> int (json_depth v) < maxNestingDepth"
    "apply_restore raw fs markerPresent m = (restored, expected, needsSave, external)"
  shows "external \<longleftrightarrow> priority_from_raw (map_of fs ''priority'') \<noteq> mk_OverridePriority m"
    "expected = (if external then priority_from_raw (map_of fs ''priority'') else mk_OriginalFilePriority m)"
    "needsSave \<longleftrightarrow> markerPresent \<or> \<not> external" "\<not> needsSave \<Longrightarrow> restored = raw"
    "needsSave \<Longrightarrow> \<exists>kvs. parse_json restored = Some (JObj kvs) \<and> map_of (decode_fields kvs) = map_option compact_json \<circ> restored_fields fs m"
proof -
  let ?v = "case mk_OriginalPriority m of Some v \<Rightarrow> v | None \<Rightarrow> JNull"
  let ?ext = "priority_from_raw (map_of fs ''priority'') \<noteq> mk_OverridePriority m"
  define fs2 where "fs2 = AList.delete priorityOverrideMarkerKey (if ?ext then fs
      else if mk_OriginalPriorityPresent m then AList.update ''priority'' ?v fs else AList.delete ''priority'' fs)"
  show e: "external \<longleftrightarrow> ?ext"
    and "expected = (if external then priority_from_raw (map_of fs ''priority'') else mk_OriginalFilePriority m)"
    and "needsSave \<longleftrightarrow> markerPresent \<or> \<not> external" and "\<not> needsSave \<Longrightarrow> restored = raw"
    using assms(4) by (auto simp: apply_restore_def Let_def split: if_splits)
  assume "needsSave"
  then have r: "restored = marshal_fields fs2"
    using assms(4) by (auto simp: apply_restore_def Let_def fs2_def split: if_splits)
  have v: "wf_json ?v" "int (json_depth ?v) < maxNestingDepth"
    using assms(3) by (cases "mk_OriginalPriority m"; simp add: maxNestingDepth_def)+
  have "fields_ok fs2" unfolding fs2_def using assms(1) v(1) marker_names(25) by (auto intro: fields_ok_delete fields_ok_update)
  moreover have "\<forall>kv \<in> set fs2. int (json_depth (snd kv)) < maxNestingDepth"
    unfolding fs2_def using assms(2) v(2) by (auto dest!: set_delete_subset set_update_subset split: if_splits)
  moreover have "map_of fs2 = restored_fields fs m"
    by (auto simp: fs2_def restored_fields_def delete_conv update_conv fun_eq_iff)
  ultimately show "\<exists>kvs. parse_json restored = Some (JObj kvs) \<and> map_of (decode_fields kvs) = map_option compact_json \<circ> restored_fields fs m"
    unfolding r using marshal_parse by metis
qed

lemma build_shape:
  assumes "build_priority_override_json raw authIndex runID p = Inr (modified, m)" "decode_auth_file_object raw = Inr fs"
  shows "map_of fs priorityOverrideMarkerKey = None"
    "modified = marshal_fields (AList.update priorityOverrideMarkerKey (marker_json m) (AList.update ''priority'' (JNum (itoa p)) fs))"
    "m = \<lparr> mk_Version = priorityOverrideVersion, mk_Owner = priorityOverrideOwner, mk_RunID = trim_space runID,
        mk_AuthIndex = trim_space authIndex, mk_OverridePriority = p, mk_OriginalPriorityPresent = (map_of fs ''priority'' \<noteq> None),
        mk_OriginalPriority = map_of fs ''priority'', mk_OriginalFilePriority = priority_from_raw (map_of fs ''priority'') \<rparr>"
  using assms by (auto simp: build_priority_override_json_def Let_def split: if_splits)

definition nesting_ok :: "fields \<Rightarrow> bool" where
  "nesting_ok fs \<longleftrightarrow> (\<forall>kv \<in> set fs. int (json_depth (snd kv)) + 1 < maxNestingDepth)"

lemma build_reads_back:
  assumes "decode_auth_file_object raw = Inr fs" "build_priority_override_json raw authIndex runID p = Inr (modified, m)"
    "int (length modified) \<le> maxAuthFileBytes" "nesting_ok fs"
    "valid_utf8 (trim_space runID)" "valid_utf8 (trim_space authIndex)" "trim_space authIndex \<noteq> []"
    "int64_min \<le> p" "p \<le> int64_max"
  shows "marker_ok m"
    "\<exists>fs'. decode_auth_file_object modified = Inr fs' \<and>
       map_of fs' = (map_option compact_json \<circ> map_of fs)(''priority'' \<mapsto> JNum (itoa p), priorityOverrideMarkerKey \<mapsto> compact_json (marker_json m))"
proof -
  note b = build_shape [OF assms(2,1)]
  have ok: "fields_ok fs" by (rule decode_auth_file_ok [OF assms(1)])
  have orig: "wf_json v" "int (json_depth v) + 1 < maxNestingDepth" if "map_of fs ''priority'' = Some v" for v
    using map_of_SomeD [OF that] ok assms(4) by (auto simp: fields_ok_def nesting_ok_def)
  show mok: "marker_ok m" unfolding b(3) marker_ok_def using assms(5-9) priority_range orig(1) by auto
  let ?f1 = "AList.update ''priority'' (JNum (itoa p)) fs"
  have f: "fields_ok (AList.update priorityOverrideMarkerKey (marker_json m) ?f1)"
    using ok mok marker_json_wf valid_number_itoa marker_names by (auto intro!: fields_ok_update)
  have md: "int (json_depth (marker_json m)) < maxNestingDepth"
    using marker_json_depth [of m] orig(2) by (cases "map_of fs ''priority''") (auto simp: b(3) maxNestingDepth_def)
  have d: "\<forall>kv \<in> set (AList.update priorityOverrideMarkerKey (marker_json m) ?f1). int (json_depth (snd kv)) < maxNestingDepth"
    using assms(4) md by (fastforce simp: nesting_ok_def maxNestingDepth_def dest!: set_update_subset)
  from decode_marshal [OF f d] assms(3) b(2) obtain fs' where
    fs': "decode_auth_file_object modified = Inr fs'"
      "map_of fs' = map_option compact_json \<circ> map_of (AList.update priorityOverrideMarkerKey (marker_json m) ?f1)" by auto
  show "\<exists>fs'. decode_auth_file_object modified = Inr fs' \<and>
       map_of fs' = (map_option compact_json \<circ> map_of fs)(''priority'' \<mapsto> JNum (itoa p), priorityOverrideMarkerKey \<mapsto> compact_json (marker_json m))"
    using fs' by (auto simp: update_conv fun_eq_iff)
qed

section \<open>Properties\<close>

text \<open>C6. The override is undone exactly: a document \<^verbatim>\<open>buildPriorityOverrideJSON\<close> wrote carries the new priority, a marker
  that reads back, and every other field; \<^verbatim>\<open>restorePriorityOverrideJSON\<close> then yields the fields of the
  original document, the original priority to wait for, and no external change.\<close>

theorem priority_override_roundtrip:
  assumes "decode_auth_file_object raw = Inr fs" "build_priority_override_json raw authIndex runID p = Inr (modified, m)"
    "int (length modified) \<le> maxAuthFileBytes" "nesting_ok fs"
    "valid_utf8 (trim_space runID)" "valid_utf8 (trim_space authIndex)" "trim_space authIndex \<noteq> []"
    "int64_min \<le> p" "p \<le> int64_max"
  shows "\<exists>fs' restored kvs.
     decode_auth_file_object modified = Inr fs' \<and> priority_from_raw (map_of fs' ''priority'') = p \<and>
     (\<forall>k. k \<noteq> ''priority'' \<and> k \<noteq> priorityOverrideMarkerKey \<longrightarrow> map_of fs' k = map_option compact_json (map_of fs k)) \<and>
     priority_override_marker_from_json modified = Inr (Some (compact_marker m)) \<and>
     restore_priority_override_json modified (Some m) = Inr (restored, priority_from_raw (map_of fs ''priority''), True, False) \<and>
     parse_json restored = Some (JObj kvs) \<and> map_of (decode_fields kvs) = map_option compact_json \<circ> map_of fs"
proof -
  note b = build_shape [OF assms(2,1)]
  note mok = build_reads_back(1) [OF assms]
  obtain fs' where fs': "decode_auth_file_object modified = Inr fs'"
    "map_of fs' = (map_option compact_json \<circ> map_of fs)(''priority'' \<mapsto> JNum (itoa p), priorityOverrideMarkerKey \<mapsto> compact_json (marker_json m))"
    using build_reads_back(2) [OF assms] by blast
  have cur: "priority_from_raw (map_of fs' ''priority'') = p"
    using atoi_itoa [OF assms(8,9)] by (simp add: fs'(2) priority_from_raw_def)
  note mk = decode_marker_json [OF mok]
  obtain restored expected needs ext where ar: "apply_restore modified fs' True (compact_marker m) = (restored, expected, needs, ext)"
    by (cases "apply_restore modified fs' True (compact_marker m)") auto
  have orig: "wf_json v \<and> int (json_depth v) < maxNestingDepth" if "mk_OriginalPriority (compact_marker m) = Some v" for v
  proof -
    from that obtain w where w: "map_of fs ''priority'' = Some w" "v = compact_json w" by (auto simp: compact_marker_def b(3))
    note e = map_of_SomeD [OF w(1)]
    have "wf_json w" using e decode_auth_file_ok [OF assms(1)] by (fastforce simp: fields_ok_def)
    then show ?thesis using w(2) decode_auth_file_depth [OF assms(1) e] by (simp add: compact_wf)
  qed
  have "\<forall>kv \<in> set fs'. int (json_depth (snd kv)) < maxNestingDepth" using decode_auth_file_depth [OF fs'(1)] by blast
  note sp = apply_restore_spec [OF decode_auth_file_ok [OF fs'(1)] this _ ar]
  have r: "ext = False" "expected = priority_from_raw (map_of fs ''priority'')" "needs"
    using sp(1-3) orig cur by (auto simp: compact_marker_def b(3))
  have "restored_fields fs' (compact_marker m) = map_option compact_json \<circ> map_of fs"
    using cur b(1) by (cases "map_of fs ''priority''") (auto simp: restored_fields_def compact_marker_def b(3) fs'(2) fun_eq_iff)
  then obtain kvs where kvs: "parse_json restored = Some (JObj kvs)" "map_of (decode_fields kvs) = map_option compact_json \<circ> map_of fs"
    using sp(5) orig r(3) by (auto simp: comp_assoc [symmetric] option.map_comp fun_eq_iff comp_def)
  have "restore_priority_override_json modified (Some m) = Inr (restored, priority_from_raw (map_of fs ''priority''), True, False)"
    using ar r by (simp add: restore_priority_override_json_def fs' mk compact_marker_def)
  moreover have "priority_override_marker_from_json modified = Inr (Some (compact_marker m))"
    by (simp add: priority_override_marker_from_json_def fs' mk)
  ultimately show ?thesis using fs' cur kvs by (intro exI conjI) auto
qed

lemma set_marker_original:
  "set_marker_fields m kvs = Some m' \<Longrightarrow>
     mk_OriginalPriority m' = mk_OriginalPriority m \<or> (\<exists>kv \<in> set kvs. mk_OriginalPriority m' = Some (snd kv))"
proof (induction kvs arbitrary: m)
  case (Cons kv kvs)
  then obtain m1 where m1: "set_marker_field m kv = Some m1" "set_marker_fields m1 kvs = Some m'"
    by (auto split: option.splits)
  have "mk_OriginalPriority m1 = mk_OriginalPriority m \<or> mk_OriginalPriority m1 = Some (snd kv)"
    using m1(1) by (auto simp: set_marker_field_def Let_def split: if_splits)
  with Cons.IH [OF m1(2)] show ?case by auto
qed simp

lemma decoded_original:
  assumes "decode_priority_override_marker rm = Inr m" "mk_OriginalPriority m = Some v"
  shows "(wf_json rm \<longrightarrow> wf_json v) \<and> json_depth v \<le> json_depth rm"
proof -
  from assms obtain kvs where k: "rm = JObj kvs" "set_marker_fields zero_marker kvs = Some m"
    by (auto simp: decode_priority_override_marker_def unmarshal_marker_def zero_marker_def split: option.splits if_splits json.splits)
  then obtain kv where kv: "kv \<in> set kvs" "v = snd kv"
    using set_marker_original [OF k(2)] assms(2) by (auto simp: zero_marker_def)
  have "json_depth v \<le> foldr max (map (\<lambda>kv. json_depth (snd kv)) kvs) 0"
    using kv depth_elements(2) [of kvs "foldr max (map (\<lambda>kv. json_depth (snd kv)) kvs) 0"] by simp
  with kv k(1) show ?thesis by (auto simp: list_all_iff)
qed


definition auth_active :: "auth \<Rightarrow> bool" where
  "auth_active a \<longleftrightarrow> \<not> (au_Disabled a \<or> equal_fold_ascii (trim_space (au_Status a)) ''disabled'')"

lemma highest_loop_active:
  "highest_loop h f (a # auths) =
     (if auth_active a \<and> (\<not> f \<or> au_Priority a > h) then highest_loop (au_Priority a) True auths else highest_loop h f auths)"
  by (simp add: auth_active_def)

lemma highest_loop_spec:
  "highest_loop h f auths = (h', f') \<Longrightarrow>
     (f' \<longleftrightarrow> f \<or> (\<exists>a \<in> set auths. auth_active a)) \<and> (\<forall>a \<in> set auths. auth_active a \<longrightarrow> au_Priority a \<le> h') \<and>
     (f \<longrightarrow> h \<le> h') \<and> (f \<and> h' = h \<or> \<not> f' \<or> (\<exists>a \<in> set auths. auth_active a \<and> h' = au_Priority a))"
proof (induction auths arbitrary: h f)
  case (Cons a auths)
  show ?case
  proof (cases "auth_active a \<and> (\<not> f \<or> au_Priority a > h)")
    case True
    have "highest_loop (au_Priority a) True auths = (h', f')"
      using Cons.prems unfolding highest_loop_active if_P [OF True] .
    from Cons.IH [OF this] True show ?thesis by auto
  next
    case False
    have "highest_loop h f auths = (h', f')" using Cons.prems unfolding highest_loop_active if_not_P [OF False] .
    from Cons.IH [OF this] False show ?thesis by auto
  qed
qed simp

text \<open>The priority a target is raised to is the highest one among the credentials that are not disabled:
  no such credential is above it, one of them or the target itself has it, and it is never below
  the target's own.\<close>

theorem desired_priority_highest:
  assumes "highest_available_priority auths = (highest, found)" "desired_priority_for_auth a highest found = d"
  shows "au_Priority a \<le> d \<and> (\<forall>b \<in> set auths. auth_active b \<longrightarrow> au_Priority b \<le> d) \<and>
    (d = au_Priority a \<or> (\<exists>b \<in> set auths. auth_active b \<and> d = au_Priority b))"
proof -
  note sp = highest_loop_spec [OF assms(1) [unfolded highest_available_priority_def]]
  show ?thesis
  proof (cases "\<not> found \<or> highest < au_Priority a")
    case True
    then have "d = au_Priority a" using assms(2) by (simp add: desired_priority_for_auth_def)
    with sp True show ?thesis by fastforce
  next
    case False
    then have "d = highest" using assms(2) by (simp add: desired_priority_for_auth_def)
    with sp False show ?thesis by auto
  qed
qed

section \<open>Witnesses\<close>

definition sample_document :: bytes where
  "sample_document = ''{'' @ [CHR 0x22] @ ''type'' @ [CHR 0x22] @ '':1,'' @ [CHR 0x22] @ ''priority'' @ [CHR 0x22] @ '': 2 }''"

definition sample_fields :: fields where
  "sample_fields = (case decode_auth_file_object sample_document of Inr fs \<Rightarrow> fs | Inl _ \<Rightarrow> [])"

definition sample_override :: "bytes \<times> marker" where
  "sample_override = (case build_priority_override_json sample_document ''auth-1'' ''run-1'' 9 of Inr r \<Rightarrow> r | Inl _ \<Rightarrow> ([], zero_marker))"

lemma sample_decoded: "decode_auth_file_object sample_document = Inr sample_fields"
  by code_simp

lemma sample_built: "build_priority_override_json sample_document ''auth-1'' ''run-1'' 9 = Inr (fst sample_override, snd sample_override)"
  by code_simp

lemma priority_override_roundtrip_witness:
  "\<exists>restored kvs. restore_priority_override_json (fst sample_override) (Some (snd sample_override)) = Inr (restored, 2, True, False) \<and>
     parse_json restored = Some (JObj kvs) \<and> map_of (decode_fields kvs) = map_option compact_json \<circ> map_of sample_fields"
proof -
  have b: "int (length (fst sample_override)) \<le> maxAuthFileBytes" "nesting_ok sample_fields"
      "valid_utf8 (trim_space ''run-1'')" "valid_utf8 (trim_space ''auth-1'')" "trim_space ''auth-1'' \<noteq> []"
      "int64_min \<le> 9" "9 \<le> int64_max" "priority_from_raw (map_of sample_fields ''priority'') = 2"
    by code_simp+
  show ?thesis
    using priority_override_roundtrip [OF sample_decoded sample_built b(1-7)] b(8) by auto
qed

definition quoted :: "string \<Rightarrow> string" where
  "quoted = map (\<lambda>c. if c = CHR ''`'' then CHR 0x22 else c)"

definition sample_changed :: bytes where
  "sample_changed = quoted ''{`priority`:5,`_cpa_auto_refresh_quota_priority_override`:{`version`:1,`owner`:`cpa-auto-refresh-quota`,`auth_index`:`a`,`override_priority`:9}}''"

definition sample_marker :: marker where
  "sample_marker = \<lparr> mk_Version = 1, mk_Owner = priorityOverrideOwner, mk_RunID = [], mk_AuthIndex = ''a'',
     mk_OverridePriority = 9, mk_OriginalPriorityPresent = False, mk_OriginalPriority = None, mk_OriginalFilePriority = 0 \<rparr>"

lemma sample_changed_decoded:
  "case decode_auth_file_object sample_changed of
     Inr fs \<Rightarrow> priority_from_raw (map_of fs ''priority'') = 5 \<and>
       (case map_of fs priorityOverrideMarkerKey of
          Some rm \<Rightarrow> decode_priority_override_marker rm = Inr sample_marker
        | None \<Rightarrow> False)
   | Inl _ \<Rightarrow> False"
  by code_simp


definition sample_active :: "int \<Rightarrow> auth" where
  "sample_active p = \<lparr> au_ID = ''id'', au_AuthIndex = ''index'', au_Provider = ''codex'', au_Status = ''active'', au_Disabled = False,
     au_Unavailable = False, au_RuntimeOnly = False, au_Source = ''file'', au_Priority = p \<rparr>"

lemma desired_priority_highest_witness:
  "\<exists>d. desired_priority_for_auth (sample_active 1) 7 True = d \<and> 1 \<le> d \<and> d \<in> {1, 3, 7}"
proof -
  have "highest_available_priority [sample_active 3, sample_active 7] = (7, True)"
    by code_simp
  from desired_priority_highest [OF this refl, of "sample_active 1"] show ?thesis
    by (auto simp: sample_active_def)
qed

end
