(* ===== verification/Request_Body.thy ===== *)
theory Request_Body imports Plugin_Config Json_Text begin

text \<open>
  \<^verbatim>\<open>internal/refreshquota/request.go\<close>: the chat completion request. \<^verbatim>\<open>json.Marshal\<close> of the structs writes
  the members in the order of the fields; it cannot fail on strings, booleans and integers, so the
  error branch of \<^verbatim>\<open>BuildRequestBody\<close> is never taken.
\<close>

section \<open>Definitions\<close>

record chat_message =
  cm_Role :: string
  cm_Content :: string

record chat_request =
  cq_Model :: string
  cq_Stream :: bool
  cq_Messages :: "chat_message list"
  cq_MaxTokens :: int

definition chat_message_json :: "chat_message \<Rightarrow> json" where
  "chat_message_json m = JObj [(''role'', JStr (encode_text (cm_Role m))), (''content'', JStr (encode_text (cm_Content m)))]"

definition chat_request_json :: "chat_request \<Rightarrow> json" where
  "chat_request_json r = JObj
     [(''model'', JStr (encode_text (cq_Model r))), (''stream'', JBool (cq_Stream r)),
      (''messages'', JArr (map chat_message_json (cq_Messages r))), (''max_tokens'', JNum (itoa (cq_MaxTokens r)))]"

definition request_of_config :: "config \<Rightarrow> chat_request" where
  "request_of_config cfg =
     \<lparr> cq_Model = cf_Model cfg, cq_Stream = False,
       cq_Messages = [\<lparr> cm_Role = ''user'', cm_Content = cf_Message cfg \<rparr>], cq_MaxTokens = cf_MaxTokens cfg \<rparr>"

definition build_request_body :: "config \<Rightarrow> err + bytes" where
  "build_request_body cfg = Inr (print_json (chat_request_json (request_of_config cfg)))"

section \<open>Reading it back\<close>

text \<open>A receiver of the body: the request a JSON document stands for.\<close>

definition read_message :: "json \<Rightarrow> chat_message option" where
  "read_message v =
     (case v of
        JObj kvs \<Rightarrow>
          (case (map_of kvs ''role'', map_of kvs ''content'') of
             (Some (JStr r), Some (JStr c)) \<Rightarrow> Some \<lparr> cm_Role = unquote r, cm_Content = unquote c \<rparr>
           | _ \<Rightarrow> None)
      | _ \<Rightarrow> None)"

fun read_messages :: "json list \<Rightarrow> chat_message list option" where
  "read_messages [] = Some []"
| "read_messages (v # vs) =
     (case read_message v of None \<Rightarrow> None | Some m \<Rightarrow> map_option ((#) m) (read_messages vs))"

definition read_request :: "json \<Rightarrow> chat_request option" where
  "read_request v =
     (case v of
        JObj kvs \<Rightarrow>
          (case (map_of kvs ''model'', map_of kvs ''stream'', map_of kvs ''messages'', map_of kvs ''max_tokens'') of
             (Some (JStr model), Some (JBool stream), Some (JArr ms), Some (JNum mt)) \<Rightarrow>
               (case (read_messages ms, atoi mt) of
                  (Some ms', Some n) \<Rightarrow>
                    Some \<lparr> cq_Model = unquote model, cq_Stream = stream, cq_Messages = ms', cq_MaxTokens = n \<rparr>
                | _ \<Rightarrow> None)
           | _ \<Rightarrow> None)
      | _ \<Rightarrow> None)"

lemma body_names:
  "valid_string ''role''" "valid_string ''content''" "valid_string ''model''" "valid_string ''stream''"
  "valid_string ''messages''" "valid_string ''max_tokens''"
  "html_escape ''role'' = ''role''" "html_escape ''content'' = ''content''" "html_escape ''model'' = ''model''"
  "html_escape ''stream'' = ''stream''" "html_escape ''messages'' = ''messages''" "html_escape ''max_tokens'' = ''max_tokens''"
  by code_simp+

lemma request_json_wf:
  assumes "valid_number (itoa (cq_MaxTokens r))"
  shows "wf_json (chat_request_json r)"
  using assms by (simp add: chat_request_json_def chat_message_json_def body_names encode_text_valid list_all_iff)

lemma request_json_depth: "json_depth (chat_request_json r) \<le> 3"
proof -
  have "foldr max (map json_depth (map chat_message_json ms)) 0 \<le> 1" for ms
    by (induction ms) (simp_all add: chat_message_json_def)
  from this [of "cq_Messages r"] show ?thesis by (simp add: chat_request_json_def)
qed

definition request_text_ok :: "chat_request \<Rightarrow> bool" where
  "request_text_ok r \<longleftrightarrow> valid_utf8 (cq_Model r) \<and> int64_min \<le> cq_MaxTokens r \<and> cq_MaxTokens r \<le> int64_max \<and>
     (\<forall>m \<in> set (cq_Messages r). valid_utf8 (cm_Role m) \<and> valid_utf8 (cm_Content m))"

lemma read_messages_compact:
  "\<forall>m \<in> set ms. valid_utf8 (cm_Role m) \<and> valid_utf8 (cm_Content m) \<Longrightarrow>
     read_messages (map (compact_json \<circ> chat_message_json) ms) = Some ms"
  by (induction ms) (simp_all add: read_message_def chat_message_json_def body_names unquote_encode_valid)

lemma read_request_compact:
  assumes "request_text_ok r"
  shows "read_request (compact_json (chat_request_json r)) = Some r"
proof -
  have "read_messages (map compact_json (map chat_message_json (cq_Messages r))) = Some (cq_Messages r)"
    using read_messages_compact [of "cq_Messages r"] assms by (simp add: request_text_ok_def comp_def)
  then show ?thesis
    using assms by (simp add: read_request_def chat_request_json_def body_names request_text_ok_def unquote_encode_valid atoi_itoa)
qed

section \<open>Property\<close>

text \<open>The body the plugin sends is a JSON document that a receiver reads back to exactly the configured
  request: the model, no streaming, one user message with the configured content byte for byte, and
  the token limit.\<close>

theorem request_body_reads_back:
  assumes "build_request_body cfg = Inr body" "valid_utf8 (cf_Model cfg)" "valid_utf8 (cf_Message cfg)"
    "1 \<le> cf_MaxTokens cfg" "cf_MaxTokens cfg \<le> 4096"
  shows "\<exists>v. parse_json body = Some v \<and>
    read_request v = Some \<lparr> cq_Model = cf_Model cfg, cq_Stream = False,
      cq_Messages = [\<lparr> cm_Role = ''user'', cm_Content = cf_Message cfg \<rparr>], cq_MaxTokens = cf_MaxTokens cfg \<rparr>"
proof -
  let ?r = "request_of_config cfg"
  have user: "valid_utf8 ''user''" by code_simp
  have ok: "request_text_ok ?r"
    using assms user by (simp add: request_text_ok_def request_of_config_def int64_min_def int64_max_def)
  have "json_depth (chat_request_json ?r) \<le> 3" by (rule request_json_depth)
  then have "int (json_depth (chat_request_json ?r)) \<le> maxNestingDepth" by (simp add: maxNestingDepth_def)
  from parse_print_json [OF request_json_wf [OF valid_number_itoa] this] read_request_compact [OF ok] assms(1)
  show ?thesis by (simp add: build_request_body_def request_of_config_def)
qed

lemma request_body_reads_back_witness:
  "\<exists>body v. build_request_body (zero_config\<lparr>cf_Model := ''m'', cf_Message := ''a<b'', cf_MaxTokens := 16\<rparr>) = Inr body \<and>
     parse_json body = Some v \<and>
     read_request v = Some \<lparr> cq_Model = ''m'', cq_Stream = False,
       cq_Messages = [\<lparr> cm_Role = ''user'', cm_Content = ''a<b'' \<rparr>], cq_MaxTokens = 16 \<rparr>"
proof -
  let ?cfg = "zero_config\<lparr>cf_Model := ''m'', cf_Message := ''a<b'', cf_MaxTokens := 16\<rparr>"
  have v: "valid_utf8 ''m''" "valid_utf8 ''a<b''" by code_simp+
  obtain body where b: "build_request_body ?cfg = Inr body" by (simp add: build_request_body_def)
  from request_body_reads_back [OF b] v b show ?thesis by simp
qed

end
