(* ===== verification/Host_Interface.thy ===== *)
theory Host_Interface imports Service_State Priority_Doc Request_Body begin

text \<open>
  What a run and the priority override ask of their environment: contexts, the clock, and the
  interface \<^verbatim>\<open>Host\<close> of \<^verbatim>\<open>internal/refreshquota/types.go\<close>. The host is a parameter: a record of functions,
  each given the instant of the call and the host's own state, and giving its result, the time it took and the
  new state; so the clock never runs back. What another goroutine does to a context is told in advance: a
  context is the instant at which it is cancelled, if it ever is, and its deadline. Timers fire at their instant.
  A world also records, in order, everything that was asked of the environment and what came back.
\<close>

section \<open>Contexts\<close>

record ctx =
  cx_CancelledAt :: "instant option"
  cx_Deadline :: "instant option"

definition background :: ctx where
  "background = \<lparr> cx_CancelledAt = None, cx_Deadline = None \<rparr>"

definition earlier :: "instant option \<Rightarrow> instant option \<Rightarrow> instant option" where
  "earlier a b = (case a of None \<Rightarrow> b | Some x \<Rightarrow> (case b of None \<Rightarrow> Some x | Some y \<Rightarrow> Some (min x y)))"

definition ctx_end :: "ctx \<Rightarrow> instant option" where
  "ctx_end c = earlier (cx_CancelledAt c) (cx_Deadline c)"

definition with_timeout :: "ctx \<Rightarrow> instant \<Rightarrow> duration \<Rightarrow> ctx" where
  "with_timeout c now d = c\<lparr>cx_Deadline := earlier (cx_Deadline c) (Some (now + d))\<rparr>"

text \<open>\<^verbatim>\<open>ctx.Err ()\<close>: what ended the context first.\<close>

definition ctx_err :: "ctx \<Rightarrow> instant \<Rightarrow> err option" where
  "ctx_err c now =
     (case ctx_end c of
        None \<Rightarrow> None
      | Some e \<Rightarrow> if now < e then None
                  else if cx_CancelledAt c = Some e then Some CtxCanceled else Some CtxDeadlineExceeded)"

section \<open>The host and the world\<close>

record 'h host =
  ho_ListAuths :: "ctx \<Rightarrow> instant \<Rightarrow> 'h \<Rightarrow> (err + auth list) \<times> nat \<times> 'h"
  ho_GetRuntimeAuth :: "ctx \<Rightarrow> string \<Rightarrow> instant \<Rightarrow> 'h \<Rightarrow> (err + auth) \<times> nat \<times> 'h"
  ho_GetAuthFile :: "ctx \<Rightarrow> string \<Rightarrow> instant \<Rightarrow> 'h \<Rightarrow> (err + auth_file) \<times> nat \<times> 'h"
  ho_SaveAuthFile :: "ctx \<Rightarrow> auth_file \<Rightarrow> instant \<Rightarrow> 'h \<Rightarrow> (err + unit) \<times> nat \<times> 'h"
  ho_ExecutePinned :: "ctx \<Rightarrow> pinned_model_request \<Rightarrow> instant \<Rightarrow> 'h \<Rightarrow> (err + model_response) \<times> nat \<times> 'h"
  ho_Log :: "ctx \<Rightarrow> log_entry \<Rightarrow> instant \<Rightarrow> 'h \<Rightarrow> (err + unit) \<times> nat \<times> 'h"

datatype event =
    EvList "err + auth list"
  | EvRuntime string "err + auth"
  | EvGet string "err + auth_file"
  | EvSave auth_file "err + unit"
  | EvExec pinned_model_request "err + model_response"
  | EvLog log_entry
  | EvPublish run_report
  | EvFinish run_report

record 'h world =
  w_now :: instant
  w_host :: 'h
  w_trace :: "event list"

definition ask :: "(instant \<Rightarrow> 'h \<Rightarrow> 'a \<times> nat \<times> 'h) \<Rightarrow> ('a \<Rightarrow> event) \<Rightarrow> 'h world \<Rightarrow> 'a \<times> 'h world" where
  "ask f ev w =
     (case f (w_now w) (w_host w) of
        (r, d, h) \<Rightarrow> (r, w\<lparr>w_now := w_now w + int d, w_host := h, w_trace := w_trace w @ [ev r]\<rparr>))"

definition list_auths :: "'h host \<Rightarrow> ctx \<Rightarrow> 'h world \<Rightarrow> (err + auth list) \<times> 'h world" where
  "list_auths H c = ask (ho_ListAuths H c) EvList"

definition get_runtime_auth :: "'h host \<Rightarrow> ctx \<Rightarrow> string \<Rightarrow> 'h world \<Rightarrow> (err + auth) \<times> 'h world" where
  "get_runtime_auth H c authIndex = ask (ho_GetRuntimeAuth H c authIndex) (EvRuntime authIndex)"

definition get_auth_file :: "'h host \<Rightarrow> ctx \<Rightarrow> string \<Rightarrow> 'h world \<Rightarrow> (err + auth_file) \<times> 'h world" where
  "get_auth_file H c authIndex = ask (ho_GetAuthFile H c authIndex) (EvGet authIndex)"

definition save_auth_file :: "'h host \<Rightarrow> ctx \<Rightarrow> auth_file \<Rightarrow> 'h world \<Rightarrow> (err + unit) \<times> 'h world" where
  "save_auth_file H c file = ask (ho_SaveAuthFile H c file) (EvSave file)"

definition execute_pinned :: "'h host \<Rightarrow> ctx \<Rightarrow> pinned_model_request \<Rightarrow> 'h world \<Rightarrow> (err + model_response) \<times> 'h world" where
  "execute_pinned H c request = ask (ho_ExecutePinned H c request) (EvExec request)"

text \<open>\<^verbatim>\<open>s.log\<close>: the entry goes to the host under the background context, its error is ignored.\<close>

definition write_log :: "'h host \<Rightarrow> log_entry \<Rightarrow> 'h world \<Rightarrow> 'h world" where
  "write_log H entry w = snd (ask (ho_Log H background entry) (\<lambda>_. EvLog entry) w)"

definition note_event :: "event \<Rightarrow> 'h world \<Rightarrow> 'h world" where
  "note_event ev w = w\<lparr>w_trace := w_trace w @ [ev]\<rparr>"

text \<open>
  A \<^verbatim>\<open>select\<close> between the end of a context and a timer: whether the timer came first. A context that ends
  at the instant of the timer counts as ended.
\<close>

definition sleep_ctx :: "ctx \<Rightarrow> duration \<Rightarrow> 'h world \<Rightarrow> bool \<times> 'h world" where
  "sleep_ctx c d w =
     (let wake = w_now w + max d 0
      in case ctx_end c of
           None \<Rightarrow> (True, w\<lparr>w_now := wake\<rparr>)
         | Some e \<Rightarrow> if e \<le> wake then (False, w\<lparr>w_now := max (w_now w) e\<rparr>) else (True, w\<lparr>w_now := wake\<rparr>))"

section \<open>Traces\<close>

text \<open>\<open>extends w w' P\<close>: the computation from \<open>w\<close> to \<open>w'\<close> only added events, all of them in \<open>P\<close>, and time went on.\<close>

definition extends :: "'h world \<Rightarrow> 'h world \<Rightarrow> (event \<Rightarrow> bool) \<Rightarrow> bool" where
  "extends w w' P \<longleftrightarrow> (\<exists>evs. w_trace w' = w_trace w @ evs \<and> list_all P evs) \<and> w_now w \<le> w_now w'"

named_theorems ext_intros "steps of a computation extend the trace"

lemma extends_refl [ext_intros]: "extends w w P"
  by (simp add: extends_def)

lemma extends_trans: "extends w w' P \<Longrightarrow> extends w' w'' P \<Longrightarrow> extends w w'' P"
  by (fastforce simp: extends_def)

lemma extends_mono: "extends w w' P \<Longrightarrow> (\<And>e. P e \<Longrightarrow> Q e) \<Longrightarrow> extends w w' Q"
  by (auto simp: extends_def list_all_iff)

lemma extends_now: "extends w w' P \<Longrightarrow> w_now w \<le> w_now w'"
  by (simp add: extends_def)

lemma ask_extends: "ask f ev w = (r, w') \<Longrightarrow> P (ev r) \<Longrightarrow> extends w w' P"
  by (auto simp: ask_def extends_def split: prod.splits)

lemma ask_trace: "ask f ev w = (r, w') \<Longrightarrow> w_trace w' = w_trace w @ [ev r] \<and> w_now w \<le> w_now w'"
  by (auto simp: ask_def split: prod.splits)

lemmas host_calls = list_auths_def get_runtime_auth_def get_auth_file_def save_auth_file_def execute_pinned_def

lemma host_call_trace:
  "list_auths H c w = (r1, w') \<Longrightarrow> w_trace w' = w_trace w @ [EvList r1] \<and> w_now w \<le> w_now w'"
  "get_runtime_auth H c i w = (r2, w') \<Longrightarrow> w_trace w' = w_trace w @ [EvRuntime i r2] \<and> w_now w \<le> w_now w'"
  "get_auth_file H c i w = (r3, w') \<Longrightarrow> w_trace w' = w_trace w @ [EvGet i r3] \<and> w_now w \<le> w_now w'"
  "save_auth_file H c f w = (r4, w') \<Longrightarrow> w_trace w' = w_trace w @ [EvSave f r4] \<and> w_now w \<le> w_now w'"
  "execute_pinned H c q w = (r5, w') \<Longrightarrow> w_trace w' = w_trace w @ [EvExec q r5] \<and> w_now w \<le> w_now w'"
  unfolding host_calls by (erule ask_trace)+

lemma write_log_trace: "w_trace (write_log H e w) = w_trace w @ [EvLog e]" "w_now w \<le> w_now (write_log H e w)"
  using ask_trace [OF prod.collapse [symmetric], of "ho_Log H background e" "\<lambda>_. EvLog e" w]
  by (simp_all add: write_log_def)

lemma sleep_trace: "sleep_ctx c d w = (b, w') \<Longrightarrow> w_trace w' = w_trace w \<and> w_now w \<le> w_now w' \<and> w_host w' = w_host w"
  by (auto simp: sleep_ctx_def Let_def split: option.splits if_splits)

text \<open>The events one step can add.\<close>

lemma step_extends [ext_intros]:
  "list_auths H c w = (r1, w') \<Longrightarrow> P (EvList r1) \<Longrightarrow> extends w w' P"
  "get_runtime_auth H c i w = (r2, w') \<Longrightarrow> P (EvRuntime i r2) \<Longrightarrow> extends w w' P"
  "get_auth_file H c i w = (r3, w') \<Longrightarrow> P (EvGet i r3) \<Longrightarrow> extends w w' P"
  "save_auth_file H c f w = (r4, w') \<Longrightarrow> P (EvSave f r4) \<Longrightarrow> extends w w' P"
  "execute_pinned H c q w = (r5, w') \<Longrightarrow> P (EvExec q r5) \<Longrightarrow> extends w w' P"
  "sleep_ctx c d w = (b, w') \<Longrightarrow> extends w w' P"
  using host_call_trace sleep_trace by (fastforce simp: extends_def)+

lemma log_extends [ext_intros]: "P (EvLog e) \<Longrightarrow> extends w (write_log H e w) P"
  by (simp add: extends_def write_log_trace)

lemma note_extends [ext_intros]: "P ev \<Longrightarrow> extends w (note_event ev w) P"
  by (simp add: extends_def note_event_def)

lemma note_event_simps [simp]:
  "w_now (note_event ev w) = w_now w" "w_host (note_event ev w) = w_host w" "w_trace (note_event ev w) = w_trace w @ [ev]"
  by (simp_all add: note_event_def)

section \<open>Contexts end\<close>

lemma ctx_end_background [simp]: "ctx_end background = None"
  by (simp add: ctx_end_def background_def earlier_def)

lemma ctx_end_timeout: "\<exists>e. ctx_end (with_timeout c now d) = Some e \<and> e \<le> now + d"
  by (auto simp: ctx_end_def with_timeout_def earlier_def split: option.splits)

lemma ctx_err_None_iff: "ctx_err c now = None \<longleftrightarrow> (\<forall>e. ctx_end c = Some e \<longrightarrow> now < e)"
  by (auto simp: ctx_err_def split: option.splits)

lemma sleep_True:
  assumes "sleep_ctx c d w = (True, w')" "0 \<le> d"
  shows "w_now w' = w_now w + d" "ctx_end c = Some e \<Longrightarrow> w_now w + d < e"
  using assms by (auto simp: sleep_ctx_def Let_def split: option.splits if_splits)

end
