(* ===== verification/Go_Path.thy ===== *)
theory Go_Path imports Go_Strings begin

text \<open>
  The functions of \<^verbatim>\<open>path/filepath\<close> the plugin calls, for a Unix build: \<^verbatim>\<open>Clean\<close>, \<^verbatim>\<open>IsAbs\<close>, \<^verbatim>\<open>Base\<close>, \<^verbatim>\<open>Ext\<close>, \<^verbatim>\<open>Dir\<close>.
\<close>

definition slash :: char where "slash = CHR ''/''"

definition path_is_abs :: "string \<Rightarrow> bool" where
  "path_is_abs p \<longleftrightarrow> take 1 p = [slash]"

text \<open>The elements of a cleaned path: empty ones and dots go, a double dot removes the one before it, if any.\<close>

fun clean_parts :: "bool \<Rightarrow> string list \<Rightarrow> string list \<Rightarrow> string list" where
  "clean_parts rooted kept [] = rev kept"
| "clean_parts rooted kept (p # ps) =
     (if p = [] \<or> p = ''.'' then clean_parts rooted kept ps
      else if p = ''..'' then
        (case kept of
           [] \<Rightarrow> if rooted then clean_parts rooted [] ps else clean_parts rooted [''..''] ps
         | k # ks \<Rightarrow> if k = ''..'' then clean_parts rooted (''..'' # kept) ps else clean_parts rooted ks ps)
      else clean_parts rooted (p # kept) ps)"

definition path_clean :: "string \<Rightarrow> string" where
  "path_clean p =
     (let parts = clean_parts (path_is_abs p) [] (split_on slash p)
      in if path_is_abs p then slash # join_with [slash] parts
         else if parts = [] then ''.'' else join_with [slash] parts)"

text \<open>\<^verbatim>\<open>Base\<close> and \<^verbatim>\<open>Dir\<close> of any path; \<^verbatim>\<open>Ext\<close> is the suffix from the last dot of the last element.\<close>

definition drop_slashes :: "string \<Rightarrow> string" where
  "drop_slashes p = rev (dropWhile (\<lambda>c. c = slash) (rev p))"

definition path_base :: "string \<Rightarrow> string" where
  "path_base p =
     (if p = [] then ''.''
      else let q = drop_slashes p
           in if q = [] then [slash] else rev (takeWhile (\<lambda>c. c \<noteq> slash) (rev q)))"

definition path_dir :: "string \<Rightarrow> string" where
  "path_dir p = path_clean (rev (dropWhile (\<lambda>c. c \<noteq> slash) (rev p)))"

definition path_ext :: "string \<Rightarrow> string" where
  "path_ext p =
     (let last_element = takeWhile (\<lambda>c. c \<noteq> slash) (rev p)
      in if CHR ''.'' \<in> set last_element then CHR ''.'' # rev (takeWhile (\<lambda>c. c \<noteq> CHR ''.'') last_element) else [])"

lemma path_examples:
  "path_clean ''/a//b/../c/.'' = ''/a/c''" "path_clean ''../x/..'' = ''..''" "path_clean ''/../a'' = ''/a''" "path_clean [] = ''.''"
  "path_base ''/a/b.json'' = ''b.json''" "path_ext ''/a.d/b.json'' = ''.json''" "path_ext ''/a.d/b'' = []" "path_dir ''/a/b.json'' = ''/a''"
  by code_simp+

end
