(* ===== verification/Priority_Service.thy ===== *)
theory Priority_Service imports Host_Interface Go_Path begin

text \<open>
  \<^verbatim>\<open>internal/refreshquota/priority_service.go\<close>: applying and undoing the temporary priority of one credential, and
  the recovery of overrides an earlier process left behind. A computation on a world gives its result and
  the new world, \<^term>\<open>None\<close> when it never returns: the two polling loops run until the context ends.
\<close>

section \<open>Definitions\<close>

definition priorityPollInterval :: duration where
  "priorityPollInterval = 50 * millisecond"

text \<open>\<^verbatim>\<open>waitPriorityPoll\<close>.\<close>

definition wait_priority_poll :: "ctx \<Rightarrow> 'h world \<Rightarrow> bool \<times> 'h world" where
  "wait_priority_poll c w = sleep_ctx c priorityPollInterval w"

partial_function (option) get_auth_file_until ::
  "'h host \<Rightarrow> ctx \<Rightarrow> string \<Rightarrow> 'h world \<Rightarrow> ((err + auth_file) \<times> 'h world) option"
where
  "get_auth_file_until H c authIndex w =
     (case get_auth_file H c authIndex w of
        (r, w1) \<Rightarrow>
          (case r of
             Inr file \<Rightarrow> Some (Inr file, w1)
           | Inl lastErr \<Rightarrow>
               (case wait_priority_poll c w1 of
                  (again, w2) \<Rightarrow> if again then get_auth_file_until H c authIndex w2 else Some (Inl lastErr, w2))))"

declare get_auth_file_until.simps [code]

definition priority_published :: "string \<Rightarrow> string \<Rightarrow> int \<Rightarrow> auth \<Rightarrow> bool" where
  "priority_published authIndex authID expected a \<longleftrightarrow>
     trim_space (au_AuthIndex a) = trim_space authIndex \<and>
     (trim_space authID = [] \<or> trim_space (au_ID a) = trim_space authID) \<and> au_Priority a = expected"

partial_function (option) poll_runtime_priority ::
  "'h host \<Rightarrow> ctx \<Rightarrow> string \<Rightarrow> string \<Rightarrow> int \<Rightarrow> 'h world \<Rightarrow> ((err + auth) \<times> 'h world) option"
where
  "poll_runtime_priority H c authIndex authID expected w =
     (case get_runtime_auth H c authIndex w of
        (r, w1) \<Rightarrow>
          (if (case r of Inl _ \<Rightarrow> False | Inr a \<Rightarrow> priority_published authIndex authID expected a)
           then Some (r, w1)
           else (case wait_priority_poll c w1 of
                   (again, w2) \<Rightarrow>
                     if again then poll_runtime_priority H c authIndex authID expected w2
                     else Some (Inl (ErrNew (''CPA runtime did not publish priority '' @ itoa expected @ '' before timeout'')), w2))))"

declare poll_runtime_priority.simps [code]

definition wait_for_runtime_priority ::
  "'h host \<Rightarrow> ctx \<Rightarrow> duration \<Rightarrow> string \<Rightarrow> string \<Rightarrow> int \<Rightarrow> 'h world \<Rightarrow> ((err + auth) \<times> 'h world) option"
where
  "wait_for_runtime_priority H c timeout authIndex authID expected w =
     (let timeout = (if timeout \<le> 0 then defaultPrioritySyncTimeout else timeout)
      in poll_runtime_priority H (with_timeout c (w_now w) timeout) authIndex authID expected w)"

text \<open>
  \<^verbatim>\<open>restorePriorityFile\<close>: the result is an error, or whether the priority was changed by others and whether a document
  was written. \<open>attempts\<close> counts the ones left of three.
\<close>

fun restore_attempts ::
  "'h host \<Rightarrow> ctx \<Rightarrow> duration \<Rightarrow> string \<Rightarrow> string \<Rightarrow> marker option \<Rightarrow> nat \<Rightarrow> 'h world \<Rightarrow> ((err + bool \<times> bool) \<times> 'h world) option"
where
  "restore_attempts H c timeout authIndex authID m 0 w = Some (Inl ErrAuthFileChanged, w)"
| "restore_attempts H c timeout authIndex authID m (Suc attempts) w =
     (case get_auth_file_until H c authIndex w of
        None \<Rightarrow> None
      | Some (Inl e, w1) \<Rightarrow> Some (Inl (ErrWrap ''read credential for priority restoration: '' e), w1)
      | Some (Inr file, w1) \<Rightarrow>
          (case restore_priority_override_json (af_JSON file) m of
             Inl e \<Rightarrow> Some (Inl e, w1)
           | Inr (restored, expected, needsSave, external) \<Rightarrow>
               if \<not> needsSave then
                 (if m \<noteq> None then
                    (case wait_for_runtime_priority H c timeout authIndex authID expected w1 of
                       None \<Rightarrow> None
                     | Some (Inl e, w2) \<Rightarrow> Some (Inl (ErrWrap ''confirm externally restored credential priority: '' e), w2)
                     | Some (Inr _, w2) \<Rightarrow> Some (Inr (external, False), w2))
                  else Some (Inr (external, False), w1))
               else
                 (case save_auth_file H c (file\<lparr>af_JSON := restored\<rparr>) w1 of
                    (Inl e, w2) \<Rightarrow>
                      if err_is e ErrAuthFileChanged then restore_attempts H c timeout authIndex authID m attempts w2
                      else Some (Inl (ErrWrap ''save credential priority restoration: '' e), w2)
                  | (Inr _, w2) \<Rightarrow>
                      (case wait_for_runtime_priority H c timeout authIndex authID expected w2 of
                         None \<Rightarrow> None
                       | Some (Inl e, w3) \<Rightarrow> Some (Inl (ErrWrap ''confirm credential priority restoration: '' e), w3)
                       | Some (Inr _, w3) \<Rightarrow> Some (Inr (external, True), w3)))))"

definition restore_priority_file ::
  "'h host \<Rightarrow> ctx \<Rightarrow> duration \<Rightarrow> string \<Rightarrow> string \<Rightarrow> marker option \<Rightarrow> 'h world \<Rightarrow> ((err + bool \<times> bool) \<times> 'h world) option"
where
  "restore_priority_file H c timeout authIndex authID m w = restore_attempts H c timeout authIndex authID m 3 w"

definition restored_log :: "string \<Rightarrow> priority_lease \<Rightarrow> bool \<Rightarrow> log_entry" where
  "restored_log runID lease external = log_entry_of (if external then ''warn'' else ''info'') ''credential priority restored''
     [(''event'', LStr ''priority_override_restored''), (''run_id'', LStr runID), (''auth_index'', LStr (pl_AuthIndex lease)),
      (''external_change'', LBool external)]"

definition restore_priority_override ::
  "'h host \<Rightarrow> config \<Rightarrow> string \<Rightarrow> priority_lease option \<Rightarrow> 'h world \<Rightarrow> (err option \<times> 'h world) option"
where
  "restore_priority_override H cfg runID lo w =
     (case lo of
        None \<Rightarrow> Some (None, w)
      | Some lease \<Rightarrow>
          let timeout = (if cf_PrioritySyncTimeout cfg \<le> 0 then defaultPrioritySyncTimeout else cf_PrioritySyncTimeout cfg);
              c = with_timeout background (w_now w) timeout
          in (case restore_priority_file H c timeout (pl_AuthIndex lease) (pl_AuthID lease) (Some (pl_Marker lease)) w of
                None \<Rightarrow> None
              | Some (Inl e, w1) \<Rightarrow> Some (Some e, w1)
              | Some (Inr (external, _), w1) \<Rightarrow> Some (None, write_log H (restored_log runID lease external) w1)))"

definition applied_log :: "string \<Rightarrow> auth \<Rightarrow> int \<Rightarrow> log_entry" where
  "applied_log runID a p = log_entry_of ''info'' ''credential priority temporarily aligned''
     [(''event'', LStr ''priority_override_applied''), (''run_id'', LStr runID), (''auth_index'', LStr (au_AuthIndex a)),
      (''original_priority'', LInt (au_Priority a)), (''override_priority'', LInt p)]"

text \<open>\<^verbatim>\<open>beginPriorityOverride\<close>: the lease and the error, either of them or both.\<close>

fun begin_attempts ::
  "'h host \<Rightarrow> ctx \<Rightarrow> config \<Rightarrow> string \<Rightarrow> auth \<Rightarrow> int \<Rightarrow> nat \<Rightarrow> 'h world \<Rightarrow> ((priority_lease option \<times> err option) \<times> 'h world) option"
where
  "begin_attempts H c cfg runID a p 0 w = Some ((None, Some ErrAuthFileChanged), w)"
| "begin_attempts H c cfg runID a p (Suc attempts) w =
     (case get_auth_file H c (au_AuthIndex a) w of
        (Inl e, w1) \<Rightarrow> Some ((None, Some (ErrWrap ''read target credential file: '' e)), w1)
      | (Inr file, w1) \<Rightarrow>
          if trim_space (af_AuthIndex file) \<noteq> [] \<and> trim_space (af_AuthIndex file) \<noteq> trim_space (au_AuthIndex a)
          then Some ((None, Some (ErrNew ''target credential file auth_index mismatch'')), w1)
          else if trim_space (af_Name file) = []
          then Some ((None, Some (ErrNew ''target credential file name is missing'')), w1)
          else (case build_priority_override_json (af_JSON file) (au_AuthIndex a) runID p of
                  Inl e \<Rightarrow> Some ((None, Some e), w1)
                | Inr (modified, m) \<Rightarrow>
                    (case save_auth_file H c (file\<lparr>af_JSON := modified\<rparr>) w1 of
                       (Inl e, w2) \<Rightarrow>
                         if err_is e ErrAuthFileChanged then begin_attempts H c cfg runID a p attempts w2
                         else Some ((None, Some (ErrWrap ''save temporary credential priority: '' e)), w2)
                     | (Inr _, w2) \<Rightarrow>
                         let lease = \<lparr> pl_AuthIndex = au_AuthIndex a, pl_AuthID = au_ID a, pl_Name = af_Name file, pl_Marker = m \<rparr>
                         in (case wait_for_runtime_priority H c (cf_PrioritySyncTimeout cfg) (au_AuthIndex a) (au_ID a) p w2 of
                               None \<Rightarrow> None
                             | Some (Inl e, w3) \<Rightarrow>
                                 Some ((Some lease, Some (ErrWrap ''confirm temporary credential priority: '' e)), w3)
                             | Some (Inr _, w3) \<Rightarrow>
                                 Some ((Some lease, None), write_log H (applied_log runID a p) w3)))))"

definition begin_priority_override ::
  "'h host \<Rightarrow> ctx \<Rightarrow> config \<Rightarrow> string \<Rightarrow> auth \<Rightarrow> int \<Rightarrow> 'h world \<Rightarrow> ((priority_lease option \<times> err option) \<times> 'h world) option"
where
  "begin_priority_override H c cfg runID a p w =
     (if \<not> cf_TemporaryPriority cfg \<or> au_Priority a \<ge> p then Some ((None, None), w)
      else if au_RuntimeOnly a \<or> \<not> equal_fold_ascii (trim_space (au_Source a)) ''file''
      then Some ((None, Some (ErrNew ''target credential has no writable physical auth file'')), w)
      else begin_attempts H c cfg runID a p 3 w)"

definition priority_recovery_path_key :: "string \<Rightarrow> string" where
  "priority_recovery_path_key path =
     (let p = path_clean (trim_space path) in if p = ''.'' \<or> p = [] then [] else p)"

definition recovered_log :: "marker \<Rightarrow> auth \<Rightarrow> bool \<Rightarrow> log_entry" where
  "recovered_log m a external = log_entry_of (if external then ''warn'' else ''info'') ''stale credential priority override recovered''
     [(''event'', LStr ''priority_override_recovered''), (''auth_index'', LStr (mk_AuthIndex m)),
      (''access_auth_index'', LStr (au_AuthIndex a)), (''external_change'', LBool external)]"

text \<open>\<^verbatim>\<open>recoverStalePriorityOverrides\<close>: the loop over the listed credentials, the paths seen, the errors so far.\<close>

fun recover_loop ::
  "'h host \<Rightarrow> ctx \<Rightarrow> config \<Rightarrow> bool \<Rightarrow> string list \<Rightarrow> err list \<Rightarrow> auth list \<Rightarrow> 'h world \<Rightarrow> ((bool \<times> err list) \<times> 'h world) option"
where
  "recover_loop H c cfg changed seen errs [] w = Some ((changed, errs), w)"
| "recover_loop H c cfg changed seen errs (a # auths) w =
     (case ctx_err c (w_now w) of
        Some e \<Rightarrow> Some ((changed, errs @ [e]), w)
      | None \<Rightarrow>
          if au_RuntimeOnly a \<or> \<not> equal_fold_ascii (trim_space (au_Source a)) ''file'' \<or> trim_space (au_AuthIndex a) = []
          then recover_loop H c cfg changed seen errs auths w
          else (case get_auth_file H c (au_AuthIndex a) w of
                  (Inl e, w1) \<Rightarrow>
                    recover_loop H c cfg changed seen
                      (errs @ [ErrWrap (''inspect auth_index '' @ au_AuthIndex a @ '' for stale priority override: '') e]) auths w1
                | (Inr file, w1) \<Rightarrow>
                    let pathKey = priority_recovery_path_key (af_Path file)
                    in if pathKey \<noteq> [] \<and> pathKey \<in> set seen then recover_loop H c cfg changed seen errs auths w1
                       else let seen = (if pathKey \<noteq> [] then pathKey # seen else seen)
                            in (case priority_override_marker_from_json (af_JSON file) of
                                  Inl e \<Rightarrow>
                                    recover_loop H c cfg changed seen
                                      (errs @ [ErrWrap (''inspect stale priority override for auth_index '' @ au_AuthIndex a @ '': '') e]) auths w1
                                | Inr None \<Rightarrow> recover_loop H c cfg changed seen errs auths w1
                                | Inr (Some m) \<Rightarrow>
                                    (case restore_priority_file H c (cf_PrioritySyncTimeout cfg) (au_AuthIndex a) (au_ID a) (Some m) w1 of
                                       None \<Rightarrow> None
                                     | Some (Inl e, w2) \<Rightarrow>
                                         recover_loop H c cfg changed seen
                                           (errs @ [ErrWrap (''restore stale priority override for auth_index '' @ mk_AuthIndex m @ '': '') e]) auths w2
                                     | Some (Inr (external, needsSave), w2) \<Rightarrow>
                                         recover_loop H c cfg (changed \<or> needsSave) seen errs auths
                                           (write_log H (recovered_log m a external) w2)))))"

definition recover_stale_priority_overrides ::
  "'h host \<Rightarrow> ctx \<Rightarrow> config \<Rightarrow> auth list \<Rightarrow> 'h world \<Rightarrow> ((bool \<times> err option) \<times> 'h world) option"
where
  "recover_stale_priority_overrides H c cfg auths w =
     (case recover_loop H c cfg False [] [] auths w of
        None \<Rightarrow> None
      | Some ((changed, errs), w') \<Rightarrow> Some ((changed, errors_join errs), w'))"

section \<open>Polling\<close>

text \<open>
  What the two loops share: a question is asked until the answer is accepted or the context ends. The interface
  is the loop's own equation and its induction principle; what a loop that returns has asked, that it
  returns when its context ends, and how often it asks, is proved here once.
\<close>

locale polling =
  fixes poll_loop :: "ctx \<Rightarrow> 'h world \<Rightarrow> ('r \<times> 'h world) option"
    and query :: "ctx \<Rightarrow> 'h world \<Rightarrow> 'r \<times> 'h world"
    and ev :: "'r \<Rightarrow> event"
    and accept :: "'r \<Rightarrow> bool"
    and give_up :: "'r \<Rightarrow> 'r"
  assumes unfold: "query c w = (r, w1) \<Longrightarrow> poll_loop c w =
      (if accept r then Some (r, w1)
       else case wait_priority_poll c w1 of (again, w2) \<Rightarrow> if again then poll_loop c w2 else Some (give_up r, w2))"
    and loop_induct: "\<lbrakk>poll_loop c w = Some y;
      \<And>w r w1. \<lbrakk>query c w = (r, w1); accept r\<rbrakk> \<Longrightarrow> P w (r, w1);
      \<And>w r w1 w2. \<lbrakk>query c w = (r, w1); \<not> accept r; wait_priority_poll c w1 = (False, w2)\<rbrakk> \<Longrightarrow> P w (give_up r, w2);
      \<And>w r w1 w2 y. \<lbrakk>query c w = (r, w1); \<not> accept r; wait_priority_poll c w1 = (True, w2); P w2 y\<rbrakk> \<Longrightarrow> P w y\<rbrakk>
      \<Longrightarrow> P w y"
    and query_trace: "query c w = (r, w1) \<Longrightarrow> w_trace w1 = w_trace w @ [ev r] \<and> w_now w \<le> w_now w1"
begin

definition poll_events :: "'r \<Rightarrow> event list \<Rightarrow> bool" where
  "poll_events r evs \<longleftrightarrow> (\<exists>rs q. evs = map ev (rs @ [q]) \<and> list_all (\<lambda>x. \<not> accept x) rs \<and> (if accept q then r = q else r = give_up q))"

lemma poll_events_Cons: "\<not> accept q \<Longrightarrow> poll_events r evs \<Longrightarrow> poll_events r (ev q # evs)"
proof -
  assume q: "\<not> accept q" and "poll_events r evs"
  then obtain rs q' where "evs = map ev (rs @ [q'])" "list_all (\<lambda>x. \<not> accept x) rs" "if accept q' then r = q' else r = give_up q'"
    by (auto simp: poll_events_def)
  with q have "ev q # evs = map ev ((q # rs) @ [q'])" "list_all (\<lambda>x. \<not> accept x) (q # rs)" by simp_all
  with \<open>if accept q' then r = q' else r = give_up q'\<close> show ?thesis
    unfolding poll_events_def by (intro exI [of _ "q # rs"] exI [of _ q']) simp
qed

lemma loop_spec:
  assumes "poll_loop c w = Some (r, w')"
  shows "\<exists>evs. w_trace w' = w_trace w @ evs \<and> poll_events r evs \<and> w_now w \<le> w_now w'"
proof -
  have "\<exists>evs. w_trace (snd (r, w')) = w_trace w @ evs \<and> poll_events (fst (r, w')) evs \<and> w_now w \<le> w_now (snd (r, w'))"
    using assms
  proof (rule loop_induct)
    fix w r w1
    assume "query c w = (r, w1)" "accept r"
    with query_trace [OF this(1)] show "\<exists>evs. w_trace (snd (r, w1)) = w_trace w @ evs \<and> poll_events (fst (r, w1)) evs \<and> w_now w \<le> w_now (snd (r, w1))"
      by (auto simp: poll_events_def intro!: exI [of _ "[]"] exI [of _ r])
  next
    fix w r w1 w2
    assume "query c w = (r, w1)" "\<not> accept r" "wait_priority_poll c w1 = (False, w2)"
    with query_trace [OF this(1)] sleep_trace [OF this(3) [unfolded wait_priority_poll_def]]
    show "\<exists>evs. w_trace (snd (give_up r, w2)) = w_trace w @ evs \<and> poll_events (fst (give_up r, w2)) evs \<and> w_now w \<le> w_now (snd (give_up r, w2))"
      by (auto simp: poll_events_def intro!: exI [of _ "[]"] exI [of _ r])
  next
    fix w r w1 w2 y
    assume a: "query c w = (r, w1)" "\<not> accept r" "wait_priority_poll c w1 = (True, w2)"
      and ih: "\<exists>evs. w_trace (snd y) = w_trace w2 @ evs \<and> poll_events (fst y) evs \<and> w_now w2 \<le> w_now (snd y)"
    from ih obtain evs where "w_trace (snd y) = w_trace w2 @ evs" "poll_events (fst y) evs" "w_now w2 \<le> w_now (snd y)" by blast
    with query_trace [OF a(1)] sleep_trace [OF a(3) [unfolded wait_priority_poll_def]] poll_events_Cons [OF a(2)]
    show "\<exists>evs. w_trace (snd y) = w_trace w @ evs \<and> poll_events (fst y) evs \<and> w_now w \<le> w_now (snd y)"
      by (intro exI [of _ "ev r # evs"]) auto
  qed
  then show ?thesis by simp
qed

text \<open>With an end of the context the loop returns, after at most one question per poll interval.\<close>

lemma loop_returns:
  assumes "ctx_end c = Some e"
  shows "\<exists>r w' evs. poll_loop c w = Some (r, w') \<and> w_trace w' = w_trace w @ evs \<and>
     (length evs = 1 \<or> (int (length evs) - 1) * priorityPollInterval < e - w_now w)"
proof (induction "nat (e - w_now w)" arbitrary: w rule: less_induct)
  case less
  obtain r w1 where q: "query c w = (r, w1)" by force
  note t = query_trace [OF q]
  obtain again w2 where s: "wait_priority_poll c w1 = (again, w2)" by force
  note st = sleep_trace [OF s [unfolded wait_priority_poll_def]]
  show ?case
  proof (cases "accept r \<or> \<not> again")
    case True
    then show ?thesis using unfold [OF q] s t st by (cases "accept r") auto
  next
    case False
    then have step: "w_now w2 = w_now w1 + priorityPollInterval" "w_now w1 + priorityPollInterval < e"
      using sleep_True [of c priorityPollInterval w1 w2] s assms
      by (auto simp: wait_priority_poll_def priorityPollInterval_def duration_units)
    have pos: "0 < priorityPollInterval" by (simp add: priorityPollInterval_def duration_units)
    then have "nat (e - w_now w2) < nat (e - w_now w)" using step t by simp
    from less [OF this] obtain r' w' evs where IH: "poll_loop c w2 = Some (r', w')" "w_trace w' = w_trace w2 @ evs"
      "length evs = 1 \<or> (int (length evs) - 1) * priorityPollInterval < e - w_now w2" by blast
    have L: "poll_loop c w = Some (r', w')" using unfold [OF q] False s IH(1) by simp
    have T: "w_trace w' = w_trace w @ (ev r # evs)" using IH(2) t st by simp
    have "int (length evs) * priorityPollInterval < e - w_now w"
      using IH(3) step t pos by (auto simp: algebra_simps)
    with L T show ?thesis by (intro exI [of _ r'] exI [of _ w'] exI [of _ "ev r # evs"]) simp
  qed
qed

text \<open>When no answer is ever accepted and the context never ends, the loop does not return.\<close>

lemma loop_diverges:
  assumes "\<And>w. \<not> accept (fst (query c w))" "ctx_end c = None"
  shows "poll_loop c w = None"
proof (rule ccontr)
  assume "poll_loop c w \<noteq> None"
  then obtain y where "poll_loop c w = Some y" by blast
  then have "False"
  proof (rule loop_induct)
    fix w r w1
    assume "query c w = (r, w1)" "accept r"
    with assms(1) [of w] show False by simp
  next
    fix w r w1 w2
    assume "wait_priority_poll c w1 = (False, w2)"
    with assms(2) show False by (simp add: wait_priority_poll_def sleep_ctx_def Let_def)
  qed
  then show False .
qed

end

lemma get_until_unfold:
  "get_auth_file H c i w = (r, w1) \<Longrightarrow> get_auth_file_until H c i w =
     (if (\<exists>f. r = Inr f) then Some (r, w1)
      else case wait_priority_poll c w1 of (again, w2) \<Rightarrow> if again then get_auth_file_until H c i w2 else Some (r, w2))"
  by (subst get_auth_file_until.simps) (auto split: sum.splits prod.splits)

lemma get_until_induct:
  assumes "get_auth_file_until H c i w = Some y"
    "\<And>w r w1. \<lbrakk>get_auth_file H c i w = (r, w1); (\<exists>f. r = Inr f)\<rbrakk> \<Longrightarrow> P w (r, w1)"
    "\<And>w r w1 w2. \<lbrakk>get_auth_file H c i w = (r, w1); \<not> (\<exists>f. r = Inr f); wait_priority_poll c w1 = (False, w2)\<rbrakk> \<Longrightarrow> P w (r, w2)"
    "\<And>w r w1 w2 y. \<lbrakk>get_auth_file H c i w = (r, w1); \<not> (\<exists>f. r = Inr f); wait_priority_poll c w1 = (True, w2); P w2 y\<rbrakk> \<Longrightarrow> P w y"
  shows "P w y"
proof -
  have "H = H \<longrightarrow> c = c \<longrightarrow> i = i \<longrightarrow> P w y"
  proof (rule get_auth_file_until.raw_induct [OF _ assms(1), of "\<lambda>H' c' i' w y. H' = H \<longrightarrow> c' = c \<longrightarrow> i' = i \<longrightarrow> P w y"], intro impI)
    fix f H' c' i' w y
    assume ih: "\<And>H' c' i' w y. f H' c' i' w = Some y \<Longrightarrow> H' = H \<longrightarrow> c' = c \<longrightarrow> i' = i \<longrightarrow> P w y"
      and body: "(case get_auth_file H' c' i' w of (Inl e, w1) \<Rightarrow> case wait_priority_poll c' w1 of
          (again, w2) \<Rightarrow> if again then f H' c' i' w2 else Some (Inl e, w2) | (Inr file, w1) \<Rightarrow> Some (Inr file, w1)) = Some y"
      and eq: "H' = H" "c' = c" "i' = i"
    obtain r w1 where q: "get_auth_file H c i w = (r, w1)" by force
    obtain again w2 where s: "wait_priority_poll c w1 = (again, w2)" by force
    show "P w y"
    proof (cases r)
      case (Inr af)
      with body q eq assms(2) [OF q] show ?thesis by auto
    next
      case (Inl e)
      with body q eq s ih [of H c i w2 y] assms(3) [OF q] assms(4) [OF q, of w2 y] show ?thesis
        by (cases again) auto
    qed
  qed
  then show ?thesis by simp
qed

lemma poll_runtime_unfold:
  "get_runtime_auth H c i w = (r, w1) \<Longrightarrow> poll_runtime_priority H c i authID p w =
     (if (case r of Inl _ \<Rightarrow> False | Inr a \<Rightarrow> priority_published i authID p a) then Some (r, w1)
      else case wait_priority_poll c w1 of
        (again, w2) \<Rightarrow> if again then poll_runtime_priority H c i authID p w2
          else Some (Inl (ErrNew (''CPA runtime did not publish priority '' @ itoa p @ '' before timeout'')), w2))"
  by (subst poll_runtime_priority.simps) simp

lemma poll_runtime_induct:
  assumes "poll_runtime_priority H c i authID p w = Some y"
    "\<And>w r w1. \<lbrakk>get_runtime_auth H c i w = (r, w1); (case r of Inl _ \<Rightarrow> False | Inr a \<Rightarrow> priority_published i authID p a)\<rbrakk> \<Longrightarrow> P w (r, w1)"
    "\<And>w r w1 w2. \<lbrakk>get_runtime_auth H c i w = (r, w1); \<not> (case r of Inl _ \<Rightarrow> False | Inr a \<Rightarrow> priority_published i authID p a); wait_priority_poll c w1 = (False, w2)\<rbrakk> \<Longrightarrow> P w (Inl (ErrNew (''CPA runtime did not publish priority '' @ itoa p @ '' before timeout'')), w2)"
    "\<And>w r w1 w2 y. \<lbrakk>get_runtime_auth H c i w = (r, w1); \<not> (case r of Inl _ \<Rightarrow> False | Inr a \<Rightarrow> priority_published i authID p a); wait_priority_poll c w1 = (True, w2); P w2 y\<rbrakk> \<Longrightarrow> P w y"
  shows "P w y"
proof -
  let ?err = "Inl (ErrNew (''CPA runtime did not publish priority '' @ itoa p @ '' before timeout''))"
  have "H = H \<longrightarrow> c = c \<longrightarrow> i = i \<longrightarrow> authID = authID \<longrightarrow> p = p \<longrightarrow> P w y"
  proof (rule poll_runtime_priority.raw_induct [OF _ assms(1),
        of "\<lambda>H' c' i' a' p' w y. H' = H \<longrightarrow> c' = c \<longrightarrow> i' = i \<longrightarrow> a' = authID \<longrightarrow> p' = p \<longrightarrow> P w y"], intro impI)
    fix f H' c' i' a' p' w y
    assume ih: "\<And>H' c' i' a' p' w y. f H' c' i' a' p' w = Some y \<Longrightarrow>
          H' = H \<longrightarrow> c' = c \<longrightarrow> i' = i \<longrightarrow> a' = authID \<longrightarrow> p' = p \<longrightarrow> P w y"
      and body: "(case get_runtime_auth H' c' i' w of (r, w1) \<Rightarrow>
          if case r of Inl _ \<Rightarrow> False | Inr a \<Rightarrow> priority_published i' a' p' a then Some (r, w1)
          else case wait_priority_poll c' w1 of (again, w2) \<Rightarrow> if again then f H' c' i' a' p' w2
            else Some (Inl (ErrNew (''CPA runtime did not publish priority '' @ itoa p' @ '' before timeout'')), w2)) = Some y"
      and eq: "H' = H" "c' = c" "i' = i" "a' = authID" "p' = p"
    obtain r w1 where q: "get_runtime_auth H c i w = (r, w1)" by force
    obtain again w2 where s: "wait_priority_poll c w1 = (again, w2)" by force
    show "P w y"
    proof (cases "case r of Inl _ \<Rightarrow> False | Inr a \<Rightarrow> priority_published i authID p a")
      case True
      with body q eq assms(2) [OF q] show ?thesis by auto
    next
      case False
      with body q eq s ih [of H c i authID p w2 y] assms(3) [OF q] assms(4) [OF q, of w2 y] show ?thesis
        by (cases again) auto
    qed
  qed
  then show ?thesis by simp
qed

interpretation fp: polling "\<lambda>c. get_auth_file_until H c i" "\<lambda>c. get_auth_file H c i" "EvGet i" "\<lambda>r. \<exists>f. r = Inr f" "\<lambda>r. r" for H i
proof (unfold_locales, goal_cases)
  case (2 c w y P)
  show ?case by (rule get_until_induct [OF 2(1)]) (use 2(2-4) in blast)+
qed (simp_all add: get_until_unfold host_call_trace)

interpretation rp: polling "\<lambda>c. poll_runtime_priority H c i authID p" "\<lambda>c. get_runtime_auth H c i" "EvRuntime i"
    "\<lambda>r. case r of Inl _ \<Rightarrow> False | Inr a \<Rightarrow> priority_published i authID p a"
    "\<lambda>_. Inl (ErrNew (''CPA runtime did not publish priority '' @ itoa p @ '' before timeout''))" for H i authID p
proof (unfold_locales, goal_cases)
  case (2 c w y P)
  show ?case by (rule poll_runtime_induct [OF 2(1)]) (use 2(2-4) in blast)+
qed (simp_all add: poll_runtime_unfold host_call_trace)

section \<open>What the steps ask, and that they return\<close>

definition gets :: "string \<Rightarrow> event \<Rightarrow> bool" where
  "gets i ev \<longleftrightarrow> (\<exists>r. ev = EvGet i r)"

definition checks :: "string \<Rightarrow> event \<Rightarrow> bool" where
  "checks i ev \<longleftrightarrow> (\<exists>r. ev = EvRuntime i r)"

lemma get_until_spec:
  assumes "get_auth_file_until H c i w = Some (r, w')"
  shows "\<exists>evs. w_trace w' = w_trace w @ evs @ [EvGet i r] \<and> list_all (gets i) evs \<and> w_now w \<le> w_now w'"
proof -
  obtain evs where e: "w_trace w' = w_trace w @ evs" "fp.poll_events i r evs" "w_now w \<le> w_now w'"
    using fp.loop_spec [OF assms] by blast
  then obtain rs q where q: "evs = map (EvGet i) (rs @ [q])" "r = q" by (auto simp: fp.poll_events_def split: if_splits)
  show ?thesis using e q by (intro exI [of _ "map (EvGet i) rs"]) (auto simp: list_all_iff gets_def)
qed

lemma get_until_returns: "ctx_end c \<noteq> None \<Longrightarrow> \<exists>r w'. get_auth_file_until H c i w = Some (r, w')"
  using fp.loop_returns [of c _ H i w] by blast

lemma wait_spec:
  assumes "wait_for_runtime_priority H c timeout i authID p w = Some (r, w')"
  shows "\<exists>evs. w_trace w' = w_trace w @ evs \<and> list_all (checks i) evs \<and> w_now w \<le> w_now w' \<and>
     (\<forall>a. r = Inr a \<longrightarrow> (\<exists>evs1. evs = evs1 @ [EvRuntime i (Inr a)]) \<and> priority_published i authID p a)"
proof -
  let ?t = "if timeout \<le> 0 then defaultPrioritySyncTimeout else timeout"
  have "poll_runtime_priority H (with_timeout c (w_now w) ?t) i authID p w = Some (r, w')"
    using assms by (simp add: wait_for_runtime_priority_def Let_def)
  from rp.loop_spec [OF this] obtain evs where e: "w_trace w' = w_trace w @ evs" "rp.poll_events i authID p r evs" "w_now w \<le> w_now w'"
    by blast
  from e(2) obtain rs q where "evs = map (EvRuntime i) (rs @ [q])"
      and r: "if case q of Inl _ \<Rightarrow> False | Inr a \<Rightarrow> priority_published i authID p a then r = q else (\<exists>e. r = Inl e)"
    unfolding rp.poll_events_def by (metis (no_types))
  then have q: "evs = map (EvRuntime i) rs @ [EvRuntime i q]"
      "\<forall>a. r = Inr a \<longrightarrow> q = Inr a \<and> priority_published i authID p a"
    by (auto split: if_splits sum.splits)
  show ?thesis using e(1,3) q by (intro exI [of _ evs]) (auto simp: list_all_iff checks_def)
qed

lemma wait_returns: "\<exists>r w'. wait_for_runtime_priority H c timeout i authID p w = Some (r, w')"
proof -
  let ?t = "if timeout \<le> 0 then defaultPrioritySyncTimeout else timeout"
  obtain e where "ctx_end (with_timeout c (w_now w) ?t) = Some e" using ctx_end_timeout by blast
  from rp.loop_returns [OF this, of H i authID p w] show ?thesis by (auto simp: wait_for_runtime_priority_def Let_def)
qed

text \<open>The events a restoration that succeeded ends with.\<close>

definition restoration_confirmed :: "string \<Rightarrow> string \<Rightarrow> marker option \<Rightarrow> bool \<Rightarrow> bool \<Rightarrow> event list \<Rightarrow> bool" where
  "restoration_confirmed i authID m external needsSave evs \<longleftrightarrow>
     (\<exists>file restored expected a evs1 evs2.
        restore_priority_override_json (af_JSON file) m = Inr (restored, expected, needsSave, external) \<and>
        evs = evs1 @ [EvGet i (Inr file)] @ (if needsSave then [EvSave (file\<lparr>af_JSON := restored\<rparr>) (Inr ())] else []) @
                evs2 @ [EvRuntime i (Inr a)] \<and>
        list_all (checks i) evs2 \<and> priority_published i authID expected a)"

lemma restoration_confirmed_append: "restoration_confirmed i authID m x n evs \<Longrightarrow> restoration_confirmed i authID m x n (evs0 @ evs)"
  unfolding restoration_confirmed_def by (metis append_assoc)

definition file_events :: "string \<Rightarrow> event \<Rightarrow> bool" where
  "file_events i ev \<longleftrightarrow> gets i ev \<or> checks i ev \<or> (\<exists>f r. ev = EvSave f r)"

lemma list_all_file_events:
  "list_all (gets i) evs \<Longrightarrow> list_all (file_events i) evs" "list_all (checks i) evs \<Longrightarrow> list_all (file_events i) evs"
  by (auto simp: list_all_iff file_events_def)

lemma file_events_single [simp]:
  "file_events i (EvGet i r1)" "file_events i (EvRuntime i r2)" "file_events i (EvSave f r3)"
  by (simp_all add: file_events_def gets_def checks_def)

lemma restore_attempts_cases:
  assumes "restore_attempts H c timeout i authID (Some m) (Suc n) w = Some (res, w')"
  obtains (unread) r e where "get_auth_file_until H c i w = Some (r, w')" "res = Inl e"
  | (unchanged) af restored p x v w1 where "get_auth_file_until H c i w = Some (Inr af, w1)"
      "restore_priority_override_json (af_JSON af) (Some m) = Inr (restored, p, False, x)"
      "wait_for_runtime_priority H c timeout i authID p w1 = Some (v, w')"
      "\<And>x' s'. res = Inr (x', s') \<Longrightarrow> x' = x \<and> \<not> s' \<and> (\<exists>a. v = Inr a)"
  | (retry) af restored p x e w1 w2 where "get_auth_file_until H c i w = Some (Inr af, w1)"
      "restore_priority_override_json (af_JSON af) (Some m) = Inr (restored, p, True, x)"
      "save_auth_file H c (af\<lparr>af_JSON := restored\<rparr>) w1 = (Inl e, w2)" "restore_attempts H c timeout i authID (Some m) n w2 = Some (res, w')"
  | (unsaved) af restored p x e e' w1 where "get_auth_file_until H c i w = Some (Inr af, w1)"
      "restore_priority_override_json (af_JSON af) (Some m) = Inr (restored, p, True, x)"
      "save_auth_file H c (af\<lparr>af_JSON := restored\<rparr>) w1 = (Inl e, w')" "res = Inl e'"
  | (saved) af restored p x v w1 w2 where "get_auth_file_until H c i w = Some (Inr af, w1)"
      "restore_priority_override_json (af_JSON af) (Some m) = Inr (restored, p, True, x)"
      "save_auth_file H c (af\<lparr>af_JSON := restored\<rparr>) w1 = (Inr (), w2)"
      "wait_for_runtime_priority H c timeout i authID p w2 = Some (v, w')"
      "\<And>x' s'. res = Inr (x', s') \<Longrightarrow> x' = x \<and> s' \<and> (\<exists>a. v = Inr a)"
proof -
  note run = assms [unfolded restore_attempts.simps]
  from run obtain g w1 where g: "get_auth_file_until H c i w = Some (g, w1)" by (auto split: option.splits)
  show ?thesis
  proof (cases g)
    case (Inl e)
    with run g show ?thesis by (auto intro: unread)
  next
    case gr: (Inr af)
    show ?thesis
    proof (cases "restore_priority_override_json (af_JSON af) (Some m)")
      case (Inl e)
      with run g gr show ?thesis by (auto intro: unread)
    next
      case (Inr r)
      obtain restored p needs x where r: "r = (restored, p, needs, x)" by (cases r)
      note g' = g [unfolded gr]
      obtain q w2 where q: "save_auth_file H c (af\<lparr>af_JSON := restored\<rparr>) w1 = (q, w2)" by force
      obtain v1 w3 where v1: "wait_for_runtime_priority H c timeout i authID p w1 = Some (v1, w3)" using wait_returns by metis
      obtain v2 w4 where v2: "wait_for_runtime_priority H c timeout i authID p w2 = Some (v2, w4)" using wait_returns by metis
      note run' = run [unfolded g option.case prod.case gr sum.case Inr r q v1 v2]
      show ?thesis
      proof (cases needs)
        case False
        have j: "restore_priority_override_json (af_JSON af) (Some m) = Inr (restored, p, False, x)" using Inr r False by simp
        have e: "w' = w3" "\<And>x' s'. res = Inr (x', s') \<Longrightarrow> x' = x \<and> \<not> s' \<and> (\<exists>a. v1 = Inr a)"
          using run' False by (auto split: sum.splits)
        show ?thesis by (rule unchanged [OF g' j v1 [folded e(1)] e(2)])
      next
        case True
        have j: "restore_priority_override_json (af_JSON af) (Some m) = Inr (restored, p, True, x)" using Inr r True by simp
        show ?thesis
        proof (cases q)
          case qe: (Inl e)
          show ?thesis
          proof (cases "err_is e ErrAuthFileChanged")
            case True
            with run' \<open>needs\<close> qe have "restore_attempts H c timeout i authID (Some m) n w2 = Some (res, w')" by simp
            then show ?thesis by (rule retry [OF g' j q [unfolded qe]])
          next
            case False
            with run' \<open>needs\<close> qe obtain e' where e: "w' = w2" "res = Inl e'" by auto
            show ?thesis by (rule unsaved [OF g' j _ e(2)]) (use q qe e(1) in simp)
          qed
        next
          case (Inr u)
          have e: "w' = w4" "\<And>x' s'. res = Inr (x', s') \<Longrightarrow> x' = x \<and> s' \<and> (\<exists>a. v2 = Inr a)"
            using run' True Inr by (auto split: sum.splits)
          show ?thesis by (rule saved [OF g' j _ v2 [folded e(1)] e(2)]) (use q Inr in simp)
        qed
      qed
    qed
  qed
qed

lemma confirmedI:
  assumes "restore_priority_override_json (af_JSON af) m = Inr (restored, p, s, x)"
    "list_all (checks i) evs" "evs = evs1 @ [EvRuntime i (Inr a)]" "priority_published i authID p a"
  shows "restoration_confirmed i authID m x s
    (pre @ EvGet i (Inr af) # (if s then [EvSave (af\<lparr>af_JSON := restored\<rparr>) (Inr ())] else []) @ evs)"
  unfolding restoration_confirmed_def
  by (rule exI [of _ af], rule exI [of _ restored], rule exI [of _ p], rule exI [of _ a], rule exI [of _ pre], rule exI [of _ evs1])
    (use assms in auto)

lemma restore_attempts_spec:
  "restore_attempts H c timeout i authID (Some m) n w = Some (res, w') \<Longrightarrow>
     \<exists>evs. w_trace w' = w_trace w @ evs \<and> list_all (file_events i) evs \<and> w_now w \<le> w_now w' \<and>
       (\<forall>x s. res = Inr (x, s) \<longrightarrow> restoration_confirmed i authID (Some m) x s evs)"
proof (induction n arbitrary: w)
  case (Suc n)
  from Suc.prems show ?case
  proof (cases rule: restore_attempts_cases)
    case (unread r e)
    from get_until_spec [OF unread(1)] obtain pre where pre: "w_trace w' = w_trace w @ pre @ [EvGet i r]" "list_all (gets i) pre" "w_now w \<le> w_now w'"
      by blast
    then show ?thesis using list_all_file_events(1) [OF pre(2)] unread(2) by (intro exI [of _ "pre @ [EvGet i r]"]) simp
  next
    case (unchanged af restored p x v w1)
    from get_until_spec [OF unchanged(1)] obtain pre where pre: "w_trace w1 = w_trace w @ pre @ [EvGet i (Inr af)]" "list_all (gets i) pre" "w_now w \<le> w_now w1"
      by blast
    from wait_spec [OF unchanged(3)] obtain evs where evs: "w_trace w' = w_trace w1 @ evs" "list_all (checks i) evs" "w_now w1 \<le> w_now w'"
      "\<forall>a. v = Inr a \<longrightarrow> (\<exists>evs1. evs = evs1 @ [EvRuntime i (Inr a)]) \<and> priority_published i authID p a" by blast
    have "restoration_confirmed i authID (Some m) x' s' (pre @ EvGet i (Inr af) # evs)" if "res = Inr (x', s')" for x' s'
      using unchanged(4) [OF that] evs(4) confirmedI [OF unchanged(2) evs(2), of _ _ authID pre] by auto
    then show ?thesis using pre evs list_all_file_events(1) [OF pre(2)] list_all_file_events(2) [OF evs(2)]
      by (intro exI [of _ "pre @ EvGet i (Inr af) # evs"]) auto
  next
    case (retry af restored p x e w1 w2)
    from get_until_spec [OF retry(1)] obtain pre where pre: "w_trace w1 = w_trace w @ pre @ [EvGet i (Inr af)]" "list_all (gets i) pre" "w_now w \<le> w_now w1"
      by blast
    from Suc.IH [OF retry(4)] obtain evs where evs: "w_trace w' = w_trace w2 @ evs" "list_all (file_events i) evs" "w_now w2 \<le> w_now w'"
      "\<forall>x s. res = Inr (x, s) \<longrightarrow> restoration_confirmed i authID (Some m) x s evs" by blast
    show ?thesis
      using pre evs host_call_trace(4) [OF retry(3)] list_all_file_events(1) [OF pre(2)]
        restoration_confirmed_append [of i authID "Some m" _ _ evs "pre @ [EvGet i (Inr af), EvSave (af\<lparr>af_JSON := restored\<rparr>) (Inl e)]"]
      by (intro exI [of _ "(pre @ [EvGet i (Inr af), EvSave (af\<lparr>af_JSON := restored\<rparr>) (Inl e)]) @ evs"]) auto
  next
    case (unsaved af restored p x e e' w1)
    from get_until_spec [OF unsaved(1)] obtain pre where pre: "w_trace w1 = w_trace w @ pre @ [EvGet i (Inr af)]" "list_all (gets i) pre" "w_now w \<le> w_now w1"
      by blast
    then show ?thesis using unsaved(4) host_call_trace(4) [OF unsaved(3)] list_all_file_events(1) [OF pre(2)]
      by (intro exI [of _ "pre @ [EvGet i (Inr af), EvSave (af\<lparr>af_JSON := restored\<rparr>) (Inl e)]"]) auto
  next
    case (saved af restored p x v w1 w2)
    from get_until_spec [OF saved(1)] obtain pre where pre: "w_trace w1 = w_trace w @ pre @ [EvGet i (Inr af)]" "list_all (gets i) pre" "w_now w \<le> w_now w1"
      by blast
    from wait_spec [OF saved(4)] obtain evs where evs: "w_trace w' = w_trace w2 @ evs" "list_all (checks i) evs" "w_now w2 \<le> w_now w'"
      "\<forall>a. v = Inr a \<longrightarrow> (\<exists>evs1. evs = evs1 @ [EvRuntime i (Inr a)]) \<and> priority_published i authID p a" by blast
    let ?all = "pre @ EvGet i (Inr af) # EvSave (af\<lparr>af_JSON := restored\<rparr>) (Inr ()) # evs"
    have "restoration_confirmed i authID (Some m) x' s' ?all" if "res = Inr (x', s')" for x' s'
      using saved(5) [OF that] evs(4) confirmedI [OF saved(2) evs(2), of _ _ authID pre] by auto
    then show ?thesis using pre evs host_call_trace(4) [OF saved(3)] list_all_file_events(1) [OF pre(2)] list_all_file_events(2) [OF evs(2)]
      by (intro exI [of _ ?all]) auto
  qed
qed auto

text \<open>The events of a restoration: the credential is read and checked, and every document written is a restored one.\<close>

definition restoration_event :: "event \<Rightarrow> bool" where
  "restoration_event ev \<longleftrightarrow> (\<exists>i. gets i ev \<or> checks i ev) \<or>
     (\<exists>f r doc m p x. ev = EvSave f r \<and> restore_priority_override_json doc (Some m) = Inr (af_JSON f, p, True, x))"

lemma restoration_event_kinds [simp]: "restoration_event (EvGet i r1)" "restoration_event (EvRuntime i r2)"
  by (auto simp: restoration_event_def gets_def checks_def)

lemma get_until_extends: "get_auth_file_until H c i w = Some (r, w') \<Longrightarrow> extends w w' restoration_event"
proof -
  assume "get_auth_file_until H c i w = Some (r, w')"
  from get_until_spec [OF this] obtain evs where "w_trace w' = w_trace w @ evs @ [EvGet i r]" "list_all (gets i) evs" "w_now w \<le> w_now w'" by blast
  then show ?thesis unfolding extends_def
    by (intro conjI exI [of _ "evs @ [EvGet i r]"]) (auto simp: list_all_iff restoration_event_def, auto simp: gets_def)
qed

lemma wait_extends: "wait_for_runtime_priority H c timeout i authID p w = Some (r, w') \<Longrightarrow> extends w w' restoration_event"
proof -
  assume "wait_for_runtime_priority H c timeout i authID p w = Some (r, w')"
  from wait_spec [OF this] obtain evs where "w_trace w' = w_trace w @ evs" "list_all (checks i) evs" "w_now w \<le> w_now w'" by blast
  then show ?thesis unfolding extends_def
    by (intro conjI exI [of _ evs]) (auto simp: list_all_iff restoration_event_def)
qed

lemma save_extends:
  "save_auth_file H c (af\<lparr>af_JSON := restored\<rparr>) w = (r, w') \<Longrightarrow> restore_priority_override_json doc (Some m) = Inr (restored, p, True, x) \<Longrightarrow>
     extends w w' restoration_event"
  by (rule step_extends(4)) (auto simp: restoration_event_def)

lemma restore_attempts_extends:
  "restore_attempts H c timeout i authID (Some m) n w = Some (res, w') \<Longrightarrow> extends w w' restoration_event"
proof (induction n arbitrary: w)
  case (Suc n)
  from Suc.prems show ?case
  proof (cases rule: restore_attempts_cases)
    case (unread r e)
    then show ?thesis using get_until_extends by blast
  next
    case (unchanged af restored p x v w1)
    show ?thesis by (rule extends_trans [OF get_until_extends [OF unchanged(1)] wait_extends [OF unchanged(3)]])
  next
    case (retry af restored p x e w1 w2)
    show ?thesis
      by (rule extends_trans [OF get_until_extends [OF retry(1)] extends_trans [OF save_extends [OF retry(3,2)] Suc.IH [OF retry(4)]]])
  next
    case (unsaved af restored p x e e' w1)
    show ?thesis by (rule extends_trans [OF get_until_extends [OF unsaved(1)] save_extends [OF unsaved(3,2)]])
  next
    case (saved af restored p x v w1 w2)
    show ?thesis
      by (rule extends_trans [OF get_until_extends [OF saved(1)] extends_trans [OF save_extends [OF saved(3,2)] wait_extends [OF saved(4)]]])
  qed
qed (simp add: ext_intros)

lemma restore_attempts_returns: "ctx_end c \<noteq> None \<Longrightarrow> \<exists>r w'. restore_attempts H c timeout i authID m n w = Some (r, w')"
proof (induction n arbitrary: w)
  case (Suc n)
  obtain g w1 where g: "get_auth_file_until H c i w = Some (g, w1)" using get_until_returns [OF Suc.prems] by metis
  show ?case
  proof (cases g)
    case (Inl e)
    with g show ?thesis by simp
  next
    case gr: (Inr af)
    show ?thesis
    proof (cases "restore_priority_override_json (af_JSON af) m")
      case (Inl e)
      with g gr show ?thesis by simp
    next
      case (Inr r)
      obtain restored p needs x where r: "r = (restored, p, needs, x)" by (cases r)
      obtain q w2 where q: "save_auth_file H c (af\<lparr>af_JSON := restored\<rparr>) w1 = (q, w2)" by force
      obtain v1 w3 where v1: "wait_for_runtime_priority H c timeout i authID p w1 = Some (v1, w3)" using wait_returns by metis
      obtain v2 w4 where v2: "wait_for_runtime_priority H c timeout i authID p w2 = Some (v2, w4)" using wait_returns by metis
      show ?thesis unfolding restore_attempts.simps g option.case prod.case gr sum.case Inr r q v1 v2
        using Suc.IH [OF Suc.prems, of w2] by (cases v1; cases v2; cases q; auto)
    qed
  qed
qed simp

lemma begin_attempts_returns: "\<exists>r w'. begin_attempts H c cfg runID a p n w = Some (r, w')"
proof (induction n arbitrary: w)
  case (Suc n)
  obtain g w1 where g: "get_auth_file H c (au_AuthIndex a) w = (g, w1)" by force
  show ?case
  proof (cases g)
    case (Inl e)
    with g show ?thesis by simp
  next
    case gr: (Inr af)
    show ?thesis
    proof (cases "build_priority_override_json (af_JSON af) (au_AuthIndex a) runID p")
      case (Inl e)
      with g gr show ?thesis by auto
    next
      case (Inr b)
      obtain modified m where b: "b = (modified, m)" by force
      obtain q w2 where q: "save_auth_file H c (af\<lparr>af_JSON := modified\<rparr>) w1 = (q, w2)" by force
      obtain v w3 where v: "wait_for_runtime_priority H c (cf_PrioritySyncTimeout cfg) (au_AuthIndex a) (au_ID a) p w2 = Some (v, w3)"
        using wait_returns by metis
      show ?thesis unfolding begin_attempts.simps g prod.case gr sum.case Inr b q v option.case Let_def
        using Suc.IH [of w2] by (cases v; cases q; auto)
    qed
  qed
qed simp

lemma restore_override_returns: "\<exists>r w'. restore_priority_override H cfg runID lo w = Some (r, w')"
proof (cases lo)
  case (Some lease)
  let ?t = "if cf_PrioritySyncTimeout cfg \<le> 0 then defaultPrioritySyncTimeout else cf_PrioritySyncTimeout cfg"
  have "ctx_end (with_timeout background (w_now w) ?t) \<noteq> None" using ctx_end_timeout by (metis option.distinct(1))
  from restore_attempts_returns [OF this] obtain r w' where
    r: "restore_priority_file H (with_timeout background (w_now w) ?t) ?t (pl_AuthIndex lease) (pl_AuthID lease) (Some (pl_Marker lease)) w = Some (r, w')"
    unfolding restore_priority_file_def by metis
  show ?thesis unfolding restore_priority_override_def Some option.case Let_def r by (cases r) auto
qed (simp add: restore_priority_override_def)

lemma begin_override_returns: "\<exists>r w'. begin_priority_override H c cfg runID a p w = Some (r, w')"
  using begin_attempts_returns by (auto simp: begin_priority_override_def)

lemma recover_loop_returns: "ctx_end c \<noteq> None \<Longrightarrow> \<exists>r w'. recover_loop H c cfg changed seen errs auths w = Some (r, w')"
proof (induction auths arbitrary: changed seen errs w)
  case (Cons a auths)
  obtain g w1 where g: "get_auth_file H c (au_AuthIndex a) w = (g, w1)" by force
  have r: "\<exists>v w'. restore_priority_file H c t i d m w1 = Some (v, w')" for t i d m
    unfolding restore_priority_file_def using restore_attempts_returns [OF Cons.prems] .
  show ?case
  proof (cases g)
    case (Inl e)
    then show ?thesis using g Cons.IH [OF Cons.prems] by (auto split: option.splits)
  next
    case (Inr af)
    show ?thesis
    proof (cases "priority_override_marker_from_json (af_JSON af)")
      case e: (Inl e)
      then show ?thesis using g Inr Cons.IH [OF Cons.prems] by (auto simp: Let_def split: option.splits)
    next
      case mo: (Inr mo)
      have "\<forall>m. \<exists>v w'. restore_priority_file H c (cf_PrioritySyncTimeout cfg) (au_AuthIndex a) (au_ID a) (Some m) w1 = Some (v, w')"
        using r by blast
      then obtain v w2 where v: "\<forall>m. restore_priority_file H c (cf_PrioritySyncTimeout cfg) (au_AuthIndex a) (au_ID a) (Some m) w1 = Some (v m, w2 m)"
        by metis
      then show ?thesis using g Inr mo Cons.IH [OF Cons.prems]
        by (cases mo) (auto simp: Let_def split: option.splits sum.splits)
    qed
  qed
qed simp

definition recovery_event :: "event \<Rightarrow> bool" where
  "recovery_event ev \<longleftrightarrow> restoration_event ev \<or> (\<exists>l. ev = EvLog l)"

lemma recover_loop_extends:
  "recover_loop H c cfg changed seen errs auths w = Some (r, w') \<Longrightarrow> extends w w' recovery_event"
proof (induction auths arbitrary: changed seen errs w)
  case (Cons a auths)
  obtain g w1 where g: "get_auth_file H c (au_AuthIndex a) w = (g, w1)" by force
  have e1: "extends w w1 recovery_event" by (rule step_extends(3) [OF g]) (simp add: recovery_event_def)
  note step = extends_trans [OF e1 Cons.IH]
  show ?case
  proof (cases "ctx_err c (w_now w) \<noteq> None \<or> au_RuntimeOnly a \<or> \<not> equal_fold_ascii (trim_space (au_Source a)) ''file'' \<or> trim_space (au_AuthIndex a) = []")
    case True
    then show ?thesis using Cons.prems Cons.IH extends_refl by (auto split: option.splits if_splits)
  next
    case False
    note run = Cons.prems [unfolded recover_loop.simps g prod.case]
    show ?thesis
    proof (cases "\<exists>af m. g = Inr af \<and> priority_override_marker_from_json (af_JSON af) = Inr (Some m) \<and>
        (priority_recovery_path_key (af_Path af) = [] \<or> priority_recovery_path_key (af_Path af) \<notin> set seen)")
      case no: False
      then show ?thesis using run False step by (cases g) (auto simp: Let_def split: option.splits if_splits sum.splits)
    next
      case yes: True
      then obtain af m where af: "g = Inr af" "priority_override_marker_from_json (af_JSON af) = Inr (Some m)"
        "priority_recovery_path_key (af_Path af) = [] \<or> priority_recovery_path_key (af_Path af) \<notin> set seen" by blast
      from run False af obtain v w2 where v: "restore_priority_file H c (cf_PrioritySyncTimeout cfg) (au_AuthIndex a) (au_ID a) (Some m) w1 = Some (v, w2)"
        by (auto simp: Let_def split: option.splits if_splits sum.splits)
      have e2: "extends w1 w2 recovery_event"
        by (rule extends_mono [OF restore_attempts_extends [OF v [unfolded restore_priority_file_def]]]) (simp add: recovery_event_def)
      have "\<exists>ch se er w3. recover_loop H c cfg ch se er auths w3 = Some (r, w') \<and> extends w2 w3 recovery_event"
      proof (cases v)
        case (Inl e)
        with run False af v have "\<exists>se er. recover_loop H c cfg changed se er auths w2 = Some (r, w')"
          by (auto simp: Let_def split: option.splits if_splits)
        then show ?thesis using extends_refl by blast
      next
        case (Inr xs)
        obtain x s where xs: "xs = (x, s)" by force
        have "extends w2 (write_log H (recovered_log m a x) w2) recovery_event"
          by (rule log_extends) (simp add: recovery_event_def)
        moreover have "\<exists>ch se er. recover_loop H c cfg ch se er auths (write_log H (recovered_log m a x) w2) = Some (r, w')"
          using run False af v Inr xs by (auto simp: Let_def split: option.splits if_splits)
        ultimately show ?thesis by blast
      qed
      then show ?thesis using Cons.IH extends_trans [OF extends_trans [OF e1 e2]] extends_trans by metis
    qed
  qed
qed (auto intro: extends_refl)

text \<open>What applying the priority did, told by the lease it gives back.\<close>

definition saved_ok :: "event \<Rightarrow> bool" where
  "saved_ok ev \<longleftrightarrow> (\<exists>f. ev = EvSave f (Inr ()))"

definition lease_matches :: "auth \<Rightarrow> string \<Rightarrow> int \<Rightarrow> priority_lease \<Rightarrow> err option \<Rightarrow> event list \<Rightarrow> bool" where
  "lease_matches a runID p lease e evs \<longleftrightarrow>
     (\<exists>file modified pre post.
        evs = pre @ EvGet (au_AuthIndex a) (Inr file) # EvSave (file\<lparr>af_JSON := modified\<rparr>) (Inr ()) # post \<and>
        build_priority_override_json (af_JSON file) (au_AuthIndex a) runID p = Inr (modified, pl_Marker lease) \<and>
        pl_AuthIndex lease = au_AuthIndex a \<and> pl_AuthID lease = au_ID a \<and>
        list_all (\<lambda>ev. \<not> saved_ok ev) pre \<and> list_all (\<lambda>ev. \<not> saved_ok ev) post \<and>
        (e = None \<longrightarrow> (\<exists>r. EvRuntime (au_AuthIndex a) (Inr r) \<in> set post \<and> priority_published (au_AuthIndex a) (au_ID a) p r)))"

lemma lease_matches_prepend:
  "lease_matches a runID p lease e evs \<Longrightarrow> list_all (\<lambda>ev. \<not> saved_ok ev) pre \<Longrightarrow> lease_matches a runID p lease e (pre @ evs)"
proof -
  assume "lease_matches a runID p lease e evs" and pre: "list_all (\<lambda>ev. \<not> saved_ok ev) pre"
  then obtain f md pre' post where "evs = pre' @ EvGet (au_AuthIndex a) (Inr f) # EvSave (f\<lparr>af_JSON := md\<rparr>) (Inr ()) # post"
    "build_priority_override_json (af_JSON f) (au_AuthIndex a) runID p = Inr (md, pl_Marker lease)"
    "pl_AuthIndex lease = au_AuthIndex a" "pl_AuthID lease = au_ID a"
    "list_all (\<lambda>ev. \<not> saved_ok ev) pre'" "list_all (\<lambda>ev. \<not> saved_ok ev) post"
    "e = None \<longrightarrow> (\<exists>r. EvRuntime (au_AuthIndex a) (Inr r) \<in> set post \<and> priority_published (au_AuthIndex a) (au_ID a) p r)"
    unfolding lease_matches_def by blast
  with pre show ?thesis unfolding lease_matches_def
    by (intro exI [of _ f] exI [of _ md] exI [of _ "pre @ pre'"] exI [of _ post]) simp
qed

lemma begin_attempts_cases:
  assumes "begin_attempts H c cfg runID a p (Suc n) w = Some ((lease, e), w')"
  obtains (unread) g where "get_auth_file H c (au_AuthIndex a) w = (g, w')" "lease = None" "e \<noteq> None"
  | (retry) af modified x w1 w2 where "get_auth_file H c (au_AuthIndex a) w = (Inr af, w1)"
      "save_auth_file H c (af\<lparr>af_JSON := modified\<rparr>) w1 = (Inl x, w2)" "begin_attempts H c cfg runID a p n w2 = Some ((lease, e), w')"
      "\<exists>m. build_priority_override_json (af_JSON af) (au_AuthIndex a) runID p = Inr (modified, m)"
  | (unsaved) af modified x w1 where "get_auth_file H c (au_AuthIndex a) w = (Inr af, w1)"
      "save_auth_file H c (af\<lparr>af_JSON := modified\<rparr>) w1 = (Inl x, w')" "lease = None" "e \<noteq> None"
      "\<exists>m. build_priority_override_json (af_JSON af) (au_AuthIndex a) runID p = Inr (modified, m)"
  | (saved) af modified m v w1 w2 w3 where "get_auth_file H c (au_AuthIndex a) w = (Inr af, w1)"
      "build_priority_override_json (af_JSON af) (au_AuthIndex a) runID p = Inr (modified, m)"
      "save_auth_file H c (af\<lparr>af_JSON := modified\<rparr>) w1 = (Inr (), w2)"
      "wait_for_runtime_priority H c (cf_PrioritySyncTimeout cfg) (au_AuthIndex a) (au_ID a) p w2 = Some (v, w3)"
      "lease = Some \<lparr> pl_AuthIndex = au_AuthIndex a, pl_AuthID = au_ID a, pl_Name = af_Name af, pl_Marker = m \<rparr>"
      "(\<exists>x. v = Inl x \<and> e \<noteq> None \<and> w' = w3) \<or> (\<exists>r. v = Inr r \<and> e = None \<and> w' = write_log H (applied_log runID a p) w3)"
proof -
  note run = assms [unfolded begin_attempts.simps]
  obtain g w1 where g: "get_auth_file H c (au_AuthIndex a) w = (g, w1)" by force
  show ?thesis
  proof (cases "\<exists>af modified m. g = Inr af \<and> \<not> (trim_space (af_AuthIndex af) \<noteq> [] \<and> trim_space (af_AuthIndex af) \<noteq> trim_space (au_AuthIndex a)) \<and>
      trim_space (af_Name af) \<noteq> [] \<and> build_priority_override_json (af_JSON af) (au_AuthIndex a) runID p = Inr (modified, m)")
    case False
    have "lease = None \<and> e \<noteq> None \<and> w' = w1"
      using run g False by (cases g) (auto split: if_splits sum.splits)
    then show ?thesis using unread g by simp
  next
    case True
    then obtain af modified m where af: "g = Inr af" "build_priority_override_json (af_JSON af) (au_AuthIndex a) runID p = Inr (modified, m)"
      and ok: "\<not> (trim_space (af_AuthIndex af) \<noteq> [] \<and> trim_space (af_AuthIndex af) \<noteq> trim_space (au_AuthIndex a))" "trim_space (af_Name af) \<noteq> []"
      by blast
    note g' = g [unfolded af(1)]
    obtain q w2 where q: "save_auth_file H c (af\<lparr>af_JSON := modified\<rparr>) w1 = (q, w2)" by force
    obtain v w3 where v: "wait_for_runtime_priority H c (cf_PrioritySyncTimeout cfg) (au_AuthIndex a) (au_ID a) p w2 = Some (v, w3)"
      using wait_returns by metis
    note run' = run [unfolded g' prod.case sum.case af(2) q if_not_P [OF ok(1)] if_not_P [OF ok(2)] v option.case Let_def]
    show ?thesis
    proof (cases q)
      case (Inl x)
      then show ?thesis using run' retry [OF g' q [unfolded Inl]] unsaved [OF g'] q af(2) by (cases "err_is x ErrAuthFileChanged") auto
    next
      case (Inr u)
      show ?thesis by (rule saved [OF g' af(2) _ v]) (use run' Inr q in \<open>auto split: sum.splits\<close>)
    qed
  qed
qed

lemma not_saved_events:
  "\<not> saved_ok (EvGet i r1)" "\<not> saved_ok (EvRuntime i r2)" "\<not> saved_ok (EvLog l)" "\<not> saved_ok (EvSave f (Inl x))"
  "checks i ev \<Longrightarrow> \<not> saved_ok ev"
  by (auto simp: saved_ok_def checks_def)

lemma begin_attempts_spec:
  "begin_attempts H c cfg runID a p n w = Some ((lease, e), w') \<Longrightarrow>
     \<exists>evs. w_trace w' = w_trace w @ evs \<and> w_now w \<le> w_now w' \<and>
       list_all (\<lambda>ev. file_events (au_AuthIndex a) ev \<or> (\<exists>l. ev = EvLog l)) evs \<and>
       (case lease of
          None \<Rightarrow> e \<noteq> None \<and> list_all (\<lambda>ev. \<not> saved_ok ev) evs
        | Some l \<Rightarrow> lease_matches a runID p l e evs)"
proof (induction n arbitrary: w)
  case (Suc n)
  let ?i = "au_AuthIndex a"
  from Suc.prems show ?case
  proof (cases rule: begin_attempts_cases)
    case (unread g)
    with host_call_trace(3) [OF unread(1)] show ?thesis
      by (intro exI [of _ "[EvGet ?i g]"]) (auto simp: not_saved_events)
  next
    case (retry af modified x w1 w2)
    from Suc.IH [OF retry(3)] obtain evs where evs: "w_trace w' = w_trace w2 @ evs" "w_now w2 \<le> w_now w'"
      "list_all (\<lambda>ev. file_events ?i ev \<or> (\<exists>l. ev = EvLog l)) evs"
      "case lease of None \<Rightarrow> e \<noteq> None \<and> list_all (\<lambda>ev. \<not> saved_ok ev) evs | Some l \<Rightarrow> lease_matches a runID p l e evs" by blast
    let ?pre = "[EvGet ?i (Inr af), EvSave (af\<lparr>af_JSON := modified\<rparr>) (Inl x)]"
    have pre: "list_all (\<lambda>ev. \<not> saved_ok ev) ?pre" by (simp add: not_saved_events)
    show ?thesis
      using host_call_trace(3) [OF retry(1)] host_call_trace(4) [OF retry(2)] evs pre lease_matches_prepend [OF _ pre, of a runID p _ e evs]
      by (intro exI [of _ "?pre @ evs"]) (auto split: option.splits)
  next
    case (unsaved af modified x w1)
    with host_call_trace(3) [OF unsaved(1)] host_call_trace(4) [OF unsaved(2)] show ?thesis
      by (intro exI [of _ "[EvGet ?i (Inr af), EvSave (af\<lparr>af_JSON := modified\<rparr>) (Inl x)]"]) (auto simp: not_saved_events)
  next
    case (saved af modified m v w1 w2 w3)
    from wait_spec [OF saved(4)] obtain evs where evs: "w_trace w3 = w_trace w2 @ evs" "list_all (checks ?i) evs" "w_now w2 \<le> w_now w3"
      "\<forall>r. v = Inr r \<longrightarrow> (\<exists>evs1. evs = evs1 @ [EvRuntime ?i (Inr r)]) \<and> priority_published ?i (au_ID a) p r" by blast
    define logs where "logs = (if e = None then [EvLog (applied_log runID a p)] else [])"
    let ?evs = "EvGet ?i (Inr af) # EvSave (af\<lparr>af_JSON := modified\<rparr>) (Inr ()) # evs @ logs"
    have t: "w_trace w' = w_trace w @ ?evs" "w_now w \<le> w_now w'"
      using host_call_trace(3) [OF saved(1)] host_call_trace(4) [OF saved(3)] evs saved(6)
      by (auto simp: logs_def write_log_trace intro: order_trans [OF _ write_log_trace(2)])
    have pub: "\<exists>r. EvRuntime ?i (Inr r) \<in> set (evs @ logs) \<and> priority_published ?i (au_ID a) p r" if "e = None"
      using that saved(6) evs(4) by fastforce
    have "lease_matches a runID p (the lease) e ?evs"
      unfolding lease_matches_def
      by (rule exI [of _ af], rule exI [of _ modified], rule exI [of _ "[]"], rule exI [of _ "evs @ logs"])
        (use saved evs(2) pub in \<open>auto simp: logs_def not_saved_events list_all_iff\<close>)
    moreover have "list_all (\<lambda>ev. file_events ?i ev \<or> (\<exists>l. ev = EvLog l)) ?evs"
      using list_all_file_events(2) [OF evs(2)] by (auto simp: logs_def list_all_iff)
    ultimately show ?thesis using t saved(5) by (intro exI [of _ ?evs]) auto
  qed
qed auto

section \<open>Properties\<close>

text \<open>C32. Applying and undoing the priority of a credential always come to an end, whatever the host answers and
  whether or not the run's context ever does.\<close>

theorem override_always_returns:
  "(\<exists>r w'. begin_priority_override H c cfg runID a p w = Some (r, w')) \<and>
   (\<exists>r w'. restore_priority_override H cfg runID lo w = Some (r, w'))"
  using begin_override_returns restore_override_returns by blast


text \<open>C5. When a lease is given back without an error, the host's own answers prove it: the document that was read
  last was put back as \<^verbatim>\<open>restorePriorityOverrideJSON\<close> says (or needed no change), and after that the
  runtime was seen to publish the priority the credential is to have.\<close>

theorem restore_is_confirmed:
  assumes "restore_priority_override H cfg runID (Some lease) w = Some (None, w')"
  shows "\<exists>evs external needsSave. w_trace w' = w_trace w @ evs @ [EvLog (restored_log runID lease external)] \<and>
    restoration_confirmed (pl_AuthIndex lease) (pl_AuthID lease) (Some (pl_Marker lease)) external needsSave evs"
proof -
  let ?t = "if cf_PrioritySyncTimeout cfg \<le> 0 then defaultPrioritySyncTimeout else cf_PrioritySyncTimeout cfg"
  from assms obtain x s w1 where r: "restore_attempts H (with_timeout background (w_now w) ?t) ?t (pl_AuthIndex lease) (pl_AuthID lease)
        (Some (pl_Marker lease)) 3 w = Some (Inr (x, s), w1)" "w' = write_log H (restored_log runID lease x) w1"
    by (auto simp: restore_priority_override_def restore_priority_file_def Let_def split: option.splits sum.splits)
  from restore_attempts_spec [OF r(1)] show ?thesis unfolding r(2) write_log_trace by (metis append_assoc)
qed

text \<open>C22. There is a lease to give back exactly when an override was written: with a lease, one document was saved, the
  one built from what had just been read, and the lease carries its marker; without one, nothing was
  saved. And without an error, the runtime was seen to publish the new priority.\<close>

theorem lease_means_saved:
  assumes "begin_priority_override H c cfg runID a p w = Some ((lease, e), w')"
  shows "\<exists>evs. w_trace w' = w_trace w @ evs \<and>
    (case lease of
       None \<Rightarrow> list_all (\<lambda>ev. \<not> saved_ok ev) evs \<and> (e = None \<longrightarrow> evs = [] \<and> (\<not> cf_TemporaryPriority cfg \<or> au_Priority a \<ge> p))
     | Some l \<Rightarrow> lease_matches a runID p l e evs)"
proof (cases "begin_priority_override H c cfg runID a p w = begin_attempts H c cfg runID a p 3 w")
  case True
  with assms begin_attempts_spec [of H c cfg runID a p 3 w lease e w'] show ?thesis by (auto split: option.splits)
next
  case False
  with assms show ?thesis by (auto simp: begin_priority_override_def split: if_splits intro!: exI [of _ "[]"])
qed

text \<open>C40. Waiting for the runtime to publish a priority returns, and asks at most once per poll interval of the timeout.\<close>

theorem priority_polls_bounded:
  assumes "0 < timeout"
  shows "\<exists>r w' evs. wait_for_runtime_priority H c timeout i authID p w = Some (r, w') \<and> w_trace w' = w_trace w @ evs \<and>
    list_all (checks i) evs \<and> 1 \<le> length evs \<and> (int (length evs) - 1) * priorityPollInterval \<le> timeout"
proof -
  obtain e where e: "ctx_end (with_timeout c (w_now w) timeout) = Some e" "e \<le> w_now w + timeout" using ctx_end_timeout by blast
  from rp.loop_returns [OF e(1), of H i authID p w] assms obtain r w' evs where
    r: "wait_for_runtime_priority H c timeout i authID p w = Some (r, w')" "w_trace w' = w_trace w @ evs"
      "length evs = 1 \<or> (int (length evs) - 1) * priorityPollInterval < e - w_now w"
    by (auto simp: wait_for_runtime_priority_def Let_def)
  have "poll_runtime_priority H (with_timeout c (w_now w) timeout) i authID p w = Some (r, w')"
    using r(1) assms by (simp add: wait_for_runtime_priority_def)
  from rp.loop_spec [OF this] obtain evs' where "w_trace w' = w_trace w @ evs'" "rp.poll_events i authID p r evs'" by blast
  then obtain rs q where "evs = map (EvRuntime i) (rs @ [q])" using r(2) unfolding rp.poll_events_def by auto
  then have "1 \<le> length evs" by simp
  moreover have "list_all (checks i) evs" using wait_spec [OF r(1)] r(2) by auto
  ultimately show ?thesis using r e(2) assms by (intro exI [of _ r] exI [of _ w'] exI [of _ evs]) auto
qed

section \<open>Witnesses\<close>

text \<open>A host at rest: one credential, one document, every call takes a millisecond.\<close>

definition still_host :: "auth \<Rightarrow> auth_file \<Rightarrow> unit host" where
  "still_host a file =
     \<lparr> ho_ListAuths = (\<lambda>_ _ h. (Inr [a], 1000000, h)), ho_GetRuntimeAuth = (\<lambda>_ _ _ h. (Inr a, 1000000, h)),
       ho_GetAuthFile = (\<lambda>_ _ _ h. (Inr file, 1000000, h)), ho_SaveAuthFile = (\<lambda>_ _ _ h. (Inr (), 1000000, h)),
       ho_ExecutePinned = (\<lambda>_ _ _ h. (Inr \<lparr> mr_StatusCode = 200, mr_Headers = [], mr_Body = [] \<rparr>, 1000000, h)),
       ho_Log = (\<lambda>_ _ _ h. (Inr (), 1000000, h)) \<rparr>"

definition still_world :: "unit world" where
  "still_world = \<lparr> w_now = 0, w_host = (), w_trace = [] \<rparr>"

definition sample_file :: auth_file where
  "sample_file = \<lparr> af_AuthIndex = ''index'', af_Name = ''a.json'', af_Path = ''/auth/a.json'', af_JSON = quoted ''{`priority`:5}'',
     af_ExpectedSHA256 = [] \<rparr>"

definition sample_lease :: priority_lease where
  "sample_lease = \<lparr> pl_AuthIndex = ''index'', pl_AuthID = ''id'', pl_Name = ''a.json'', pl_Marker = sample_marker \<rparr>"


lemma still_get: "get_auth_file_until (still_host a f) c i w = Some (Inr f, snd (get_auth_file (still_host a f) c i w))"
  by (subst get_auth_file_until.simps) (simp add: get_auth_file_def ask_def still_host_def)

lemma still_wait:
  "priority_published i authID p a \<Longrightarrow>
     wait_for_runtime_priority (still_host a f) c timeout i authID p w = Some (Inr a, snd (get_runtime_auth (still_host a f) c i w))"
  unfolding wait_for_runtime_priority_def Let_def
  by (subst poll_runtime_priority.simps) (simp add: get_runtime_auth_def ask_def still_host_def)

lemma still_save: "save_auth_file (still_host a f) c g w = (Inr (), snd (save_auth_file (still_host a f) c g w))"
  by (simp add: save_auth_file_def ask_def still_host_def)

lemma restore_is_confirmed_witness:
  "\<exists>w' evs external needsSave.
     restore_priority_override (still_host (sample_active 5) sample_file) zero_config ''run'' (Some sample_lease) still_world = Some (None, w') \<and>
     w_trace w' = evs @ [EvLog (restored_log ''run'' sample_lease external)] \<and>
     restoration_confirmed ''index'' ''id'' (Some sample_marker) external needsSave evs"
proof -
  have r: "restore_priority_override_json (af_JSON sample_file) (Some sample_marker) = Inr (quoted ''{`priority`:5}'', 5, False, True)"
    by code_simp
  have p: "priority_published ''index'' ''id'' 5 (sample_active 5)"
    by (simp add: priority_published_def sample_active_def)
  obtain w' where w': "restore_priority_override (still_host (sample_active 5) sample_file) zero_config ''run'' (Some sample_lease) still_world = Some (None, w')"
    by (simp add: restore_priority_override_def restore_priority_file_def numeral_3_eq_3 still_get r still_wait [OF p] sample_lease_def Let_def)
  from restore_is_confirmed [OF w'] w' show ?thesis by (fastforce simp: sample_lease_def still_world_def)
qed

lemma lease_means_saved_witness:
  "\<exists>lease w' evs. begin_priority_override (still_host (sample_active 9) sample_file) background (zero_config\<lparr>cf_TemporaryPriority := True\<rparr>) ''run''
       (sample_active 5) 9 still_world = Some ((Some lease, None), w') \<and>
     w_trace w' = evs \<and> lease_matches (sample_active 5) ''run'' 9 lease None evs"
proof -
  have "case build_priority_override_json (af_JSON sample_file) ''index'' ''run'' 9 of Inr _ \<Rightarrow> True | Inl _ \<Rightarrow> False"
    by code_simp
  then obtain md m where b: "build_priority_override_json (af_JSON sample_file) ''index'' ''run'' 9 = Inr (md, m)"
    by (auto split: sum.splits)
  have p: "priority_published ''index'' ''id'' 9 (sample_active 9)"
    by (simp add: priority_published_def sample_active_def)
  let ?H = "still_host (sample_active 9) sample_file" and ?cfg = "zero_config\<lparr>cf_TemporaryPriority := True\<rparr>"
  obtain w1 where g: "get_auth_file ?H background ''index'' still_world = (Inr sample_file, w1)"
    by (simp add: get_auth_file_def ask_def still_host_def)
  obtain w2 where s: "save_auth_file ?H background (sample_file\<lparr>af_JSON := md\<rparr>) w1 = (Inr (), w2)"
    by (simp add: save_auth_file_def ask_def still_host_def)
  have f: "trim_space (af_AuthIndex sample_file) = ''index''" "trim_space (af_Name sample_file) \<noteq> []" "trim_space ''index'' = ''index''"
      "equal_fold_ascii (trim_space ''file'') ''file''"
    by code_simp+
  have a: "au_AuthIndex (sample_active 5) = ''index''" "au_ID (sample_active 5) = ''id''" "au_Priority (sample_active 5) = 5"
      "au_Source (sample_active 5) = ''file''" "\<not> au_RuntimeOnly (sample_active 5)"
    by (simp_all add: sample_active_def)
  obtain lease w' where w': "begin_priority_override ?H background ?cfg ''run'' (sample_active 5) 9 still_world = Some ((Some lease, None), w')"
    by (simp add: begin_priority_override_def numeral_3_eq_3 a f g b s still_wait [OF p] Let_def)
  from lease_means_saved [OF w'] w' show ?thesis by (auto simp: still_world_def)
qed

lemma priority_polls_bounded_witness:
  "\<exists>r w' evs. wait_for_runtime_priority (still_host (sample_active 5) sample_file) background second ''index'' ''id'' 7 still_world = Some (r, w') \<and>
    w_trace w' = evs \<and> length evs \<le> 21"
proof -
  have "0 < second" by (simp add: duration_units)
  from priority_polls_bounded [OF this, of "still_host (sample_active 5) sample_file" background "''index''" "''id''" 7 still_world]
  show ?thesis by (fastforce simp: still_world_def priorityPollInterval_def duration_units)
qed

end
