(* ===== verification/Refresh_Run.thy ===== *)
theory Refresh_Run imports Auth_Filter Priority_Service begin

text \<open>
  \<^verbatim>\<open>executeRun\<close> of \<^verbatim>\<open>internal/refreshquota/service.go\<close> and what it calls for each credential. The report the
  goroutine keeps is passed along; what it hands to the service, \<^verbatim>\<open>publishActive\<close> and the section of
  \<^verbatim>\<open>finishRun\<close>, are events of the trace, which the theory \<open>Service_System\<close> plays against the shared state. The time
  spent waiting for \<^verbatim>\<open>priorityMu\<close> is a parameter.
\<close>

section \<open>Definitions\<close>

definition wait_between_auths :: "ctx \<Rightarrow> duration \<Rightarrow> nat \<Rightarrow> nat \<Rightarrow> 'h world \<Rightarrow> bool \<times> 'h world" where
  "wait_between_auths c delay index ntargets w =
     (if ctx_err c (w_now w) \<noteq> None then (False, w)
      else if delay \<le> 0 \<or> int index \<ge> int ntargets - 1 then (True, w)
      else sleep_ctx c delay w)"

definition publish_report :: "run_report \<Rightarrow> 'h world \<Rightarrow> 'h world" where
  "publish_report report w = note_event (EvPublish report) w"

definition finish_run :: "'h host \<Rightarrow> run_report \<Rightarrow> 'h world \<Rightarrow> run_report \<times> 'h world" where
  "finish_run H report w =
     (let report = finish_report report (w_now w)
      in (report, write_log H (finish_log report) (note_event (EvFinish report) w)))"

definition listed_result :: "auth \<Rightarrow> auth_result" where
  "listed_result a =
     \<lparr> ar_AuthIndex = au_AuthIndex a, ar_Provider = au_Provider a, ar_Priority = au_Priority a,
       ar_PriorityOverrideRequired = False, ar_PriorityOverrideTo = 0, ar_Outcome = [], ar_StatusCode = 0,
       ar_ResponseBytes = 0, ar_DurationMS = 0, ar_Error = [] \<rparr>"

text \<open>A result is added to the report, published and logged.\<close>

definition record_result :: "'h host \<Rightarrow> config \<Rightarrow> run_report \<Rightarrow> auth_result \<Rightarrow> 'h world \<Rightarrow> run_report \<times> 'h world" where
  "record_result H cfg report result w =
     (let report = report\<lparr>rr_Results := rr_Results report @ [result]\<rparr>
      in (report, write_log H (log_auth_result report result (cf_Model cfg)) (publish_report report w)))"

text \<open>The rest of the targets is given up: they count as skipped.\<close>

definition skip_rest :: "nat \<Rightarrow> nat \<Rightarrow> run_report \<Rightarrow> run_report" where
  "skip_rest index ntargets report = report\<lparr>rr_SkippedCount := rr_SkippedCount report + (int ntargets - int index - 1)\<rparr>"

text \<open>The end of an iteration: whether the loop stops, and the report.\<close>

definition next_target :: "ctx \<Rightarrow> config \<Rightarrow> nat \<Rightarrow> nat \<Rightarrow> run_report \<times> 'h world \<Rightarrow> (bool \<times> run_report) \<times> 'h world" where
  "next_target c cfg index ntargets rw =
     (case rw of (report, w) \<Rightarrow>
        (case wait_between_auths c (cf_DelayBetweenAuths cfg) index ntargets w of
           (True, w1) \<Rightarrow> ((False, report), w1)
         | (False, w1) \<Rightarrow> ((True, skip_rest index ntargets (report\<lparr>rr_Canceled := True\<rparr>)), w1)))"

definition failed :: "run_report \<Rightarrow> run_report" where
  "failed report = report\<lparr>rr_FailedCount := rr_FailedCount report + 1\<rparr>"

definition restore_failure :: string where
  "restore_failure = ''auth priority restore failed''"

definition restore_failure_report :: string where
  "restore_failure_report = ''auth priority restore failed; remaining credentials were not attempted''"

definition elapsed_ms :: "instant \<Rightarrow> 'h world \<Rightarrow> int" where
  "elapsed_ms started w = milliseconds (time_sub (w_now w) started)"

definition model_request :: "config \<Rightarrow> auth \<Rightarrow> bytes \<Rightarrow> pinned_model_request" where
  "model_request cfg a body =
     \<lparr> pm_AuthID = au_ID a, pm_EntryProtocol = cf_EntryProtocol cfg, pm_ExitProtocol = cf_ExitProtocol cfg,
       pm_Model = cf_Model cfg, pm_Body = body, pm_Headers = [], pm_Query = [], pm_Alt = [] \<rparr>"

text \<open>What the report says of an execution, once the priority was given back.\<close>

definition judge_response :: "err option \<Rightarrow> err + model_response \<Rightarrow> run_report \<Rightarrow> auth_result \<Rightarrow> run_report \<times> auth_result" where
  "judge_response errRestore response report result =
     (case errRestore of
        Some _ \<Rightarrow> (failed report\<lparr>rr_Error := restore_failure_report\<rparr>, result\<lparr>ar_Outcome := ''failed'', ar_Error := restore_failure\<rparr>)
      | None \<Rightarrow>
          (case response of
             Inl e \<Rightarrow> (failed report, result\<lparr>ar_Outcome := ''failed'', ar_Error := safe_execution_error (Some e)\<rparr>)
           | Inr r \<Rightarrow>
               let result = result\<lparr>ar_StatusCode := mr_StatusCode r, ar_ResponseBytes := int (length (mr_Body r))\<rparr>
               in if mr_StatusCode r \<ge> 200 \<and> mr_StatusCode r < 300
                  then (report\<lparr>rr_SuccessCount := rr_SuccessCount report + 1\<rparr>, result\<lparr>ar_Outcome := ''succeeded''\<rparr>)
                  else (failed report, result\<lparr>ar_Outcome := ''failed'',
                          ar_Error := ''model callback returned HTTP '' @ itoa (mr_StatusCode r)\<rparr>)))"

definition attempt_result :: "config \<Rightarrow> auth \<Rightarrow> int \<Rightarrow> auth_result" where
  "attempt_result cfg a desired =
     (let required = (cf_TemporaryPriority cfg \<and> au_Priority a < desired)
      in (listed_result a)\<lparr>ar_PriorityOverrideRequired := required, ar_PriorityOverrideTo := (if required then desired else 0)\<rparr>)"

definition attempt_target ::
  "'h host \<Rightarrow> ctx \<Rightarrow> config \<Rightarrow> bytes \<Rightarrow> int \<Rightarrow> bool \<Rightarrow> nat \<Rightarrow> nat \<Rightarrow> auth \<Rightarrow> run_report \<Rightarrow> 'h world \<Rightarrow> ((bool \<times> run_report) \<times> 'h world) option"
where
  "attempt_target H c cfg body highest found index ntargets a report w =
     (let desired = desired_priority_for_auth a highest found;
          result = attempt_result cfg a desired;
          started = w_now w
      in case begin_priority_override H c cfg (rr_RunID report) a desired w of
           None \<Rightarrow> None
         | Some ((lease, Some _), w1) \<Rightarrow>
             (case restore_priority_override H cfg (rr_RunID report) lease w1 of
                None \<Rightarrow> None
              | Some (restoreErr, w2) \<Rightarrow>
                  let result = result\<lparr>ar_DurationMS := elapsed_ms started w2, ar_Outcome := ''failed'',
                        ar_Error := (if restoreErr \<noteq> None then restore_failure else ''temporary auth priority update failed'')\<rparr>;
                      report = (if restoreErr \<noteq> None then (failed report)\<lparr>rr_Error := restore_failure_report\<rparr> else failed report)
                  in (case record_result H cfg report result w2 of
                        (report, w3) \<Rightarrow>
                          if restoreErr \<noteq> None then Some ((True, skip_rest index ntargets report), w3)
                          else Some (next_target c cfg index ntargets (report, w3))))
         | Some ((lease, None), w1) \<Rightarrow>
             (case execute_pinned H (with_timeout c (w_now w1) (cf_RequestTimeout cfg)) (model_request cfg a body) w1 of
                (response, w2) \<Rightarrow>
                  (case restore_priority_override H cfg (rr_RunID report) lease w2 of
                     None \<Rightarrow> None
                   | Some (errRestore, w3) \<Rightarrow>
                       (case judge_response errRestore response report (result\<lparr>ar_DurationMS := elapsed_ms started w3\<rparr>) of
                          (report, result) \<Rightarrow>
                            (case record_result H cfg report result w3 of
                               (report, w4) \<Rightarrow>
                                 if errRestore \<noteq> None then Some ((True, skip_rest index ntargets report), w4)
                                 else if ctx_err c (w_now w4) \<noteq> None
                                 then Some ((True, skip_rest index ntargets (report\<lparr>rr_Canceled := True\<rparr>)), w4)
                                 else Some (next_target c cfg index ntargets (report, w4)))))))"

definition run_target ::
  "'h host \<Rightarrow> ctx \<Rightarrow> config \<Rightarrow> bytes \<Rightarrow> int \<Rightarrow> bool \<Rightarrow> nat \<Rightarrow> nat \<Rightarrow> auth \<Rightarrow> run_report \<Rightarrow> 'h world \<Rightarrow> ((bool \<times> run_report) \<times> 'h world) option"
where
  "run_target H c cfg body highest found index ntargets listed report w =
     (let result = listed_result listed
      in case get_runtime_auth H c (au_AuthIndex listed) w of
           (Inl _, w1) \<Rightarrow>
             Some (next_target c cfg index ntargets (record_result H cfg (failed report)
               (result\<lparr>ar_Outcome := ''failed'', ar_Error := ''runtime auth check failed''\<rparr>) w1))
         | (Inr a, w1) \<Rightarrow>
             if trim_space (au_AuthIndex a) \<noteq> trim_space (au_AuthIndex listed)
             then Some (next_target c cfg index ntargets (record_result H cfg (failed report)
               (result\<lparr>ar_Provider := au_Provider a, ar_Outcome := ''failed'', ar_Error := ''runtime auth index mismatch''\<rparr>) w1))
             else if trim_space (au_ID a) \<noteq> trim_space (au_ID listed)
             then Some (next_target c cfg index ntargets (record_result H cfg (failed report)
               (result\<lparr>ar_Provider := au_Provider a, ar_Outcome := ''failed'', ar_Error := ''runtime auth id mismatch''\<rparr>) w1))
             else (case auth_eligible cfg a of
                     (False, reason) \<Rightarrow>
                       Some (next_target c cfg index ntargets (record_result H cfg
                         (report\<lparr>rr_SkippedCount := rr_SkippedCount report + 1\<rparr>)
                         (result\<lparr>ar_Provider := au_Provider a, ar_Outcome := ''skipped'', ar_Error := reason\<rparr>) w1))
                   | (True, _) \<Rightarrow> attempt_target H c cfg body highest found index ntargets a report w1))"

fun run_targets ::
  "'h host \<Rightarrow> ctx \<Rightarrow> config \<Rightarrow> bytes \<Rightarrow> int \<Rightarrow> bool \<Rightarrow> nat \<Rightarrow> nat \<Rightarrow> auth list \<Rightarrow> run_report \<Rightarrow> 'h world \<Rightarrow> (run_report \<times> 'h world) option"
where
  "run_targets H c cfg body highest found index ntargets [] report w = Some (report, w)"
| "run_targets H c cfg body highest found index ntargets (listed # targets) report w =
     (if ctx_err c (w_now w) \<noteq> None
      then Some (report\<lparr>rr_Canceled := True, rr_SkippedCount := rr_SkippedCount report + (int ntargets - int index)\<rparr>, w)
      else case run_target H c cfg body highest found index ntargets listed report w of
             None \<Rightarrow> None
           | Some ((True, report1), w1) \<Rightarrow> Some (report1, w1)
           | Some ((False, report1), w1) \<Rightarrow>
               run_targets H c cfg body highest found (index + 1) ntargets targets report1 w1)"

definition dry_result :: "config \<Rightarrow> int \<Rightarrow> bool \<Rightarrow> auth \<Rightarrow> auth_result" where
  "dry_result cfg highest found a =
     (attempt_result cfg a (desired_priority_for_auth a highest found))\<lparr>ar_Outcome := ''selected''\<rparr>"

definition started_log :: "config \<Rightarrow> run_report \<Rightarrow> log_entry" where
  "started_log cfg report = log_entry_of ''info'' ''refresh run started''
     [(''event'', LStr ''run_started''), (''run_id'', LStr (rr_RunID report)), (''trigger'', LStr (rr_Trigger report)),
      (''occurrence_id'', LStr (rr_OccurrenceID report)), (''model'', LStr (cf_Model cfg)), (''dry_run'', LBool (rr_DryRun report))]"

text \<open>A run that ends early: the error, and whether the context had ended.\<close>

definition abort_run :: "'h host \<Rightarrow> ctx \<Rightarrow> run_report \<Rightarrow> string \<Rightarrow> 'h world \<Rightarrow> run_report \<times> 'h world" where
  "abort_run H c report message w =
     finish_run H (report\<lparr>rr_Error := message, rr_Canceled := (rr_Canceled report \<or> ctx_err c (w_now w) \<noteq> None)\<rparr>) w"

text \<open>The run once the credentials are listed and no stale override is left.\<close>

definition run_listed ::
  "'h host \<Rightarrow> ctx \<Rightarrow> config \<Rightarrow> manual_run_options \<Rightarrow> auth list \<Rightarrow> run_report \<Rightarrow> 'h world \<Rightarrow> (run_report \<times> 'h world) option"
where
  "run_listed H c cfg options auths report w =
     (let targets = filter_auths cfg auths (mo_AuthIndices options);
          (highest, found) = highest_available_priority auths;
          report = report\<lparr>rr_TargetCount := int (length targets)\<rparr>;
          w = publish_report report w
      in if has_duplicate_auth_identity targets
         then Some (finish_run H (report\<lparr>rr_Error := ''host auth listing contains duplicate auth identities''\<rparr>) w)
         else if mo_DryRun options
         then Some (finish_run H (report\<lparr>rr_Results := rr_Results report @ map (dry_result cfg highest found) targets\<rparr>) w)
         else case build_request_body cfg of
                Inl e \<Rightarrow> Some (finish_run H (report\<lparr>rr_Error := sanitize_error (Some e)\<rparr>) w)
              | Inr body \<Rightarrow>
                  (case run_targets H c cfg body highest found 0 (length targets) targets report w of
                     None \<Rightarrow> None
                   | Some (report, w) \<Rightarrow> Some (finish_run H report w)))"

definition execute_run ::
  "'h host \<Rightarrow> nat \<Rightarrow> ctx \<Rightarrow> config \<Rightarrow> manual_run_options \<Rightarrow> run_report \<Rightarrow> 'h world \<Rightarrow> (run_report \<times> 'h world) option"
where
  "execute_run H lockWait c cfg options report w =
     (let w0 = write_log H (started_log cfg report) w;
          w0 = w0\<lparr>w_now := w_now w0 + int lockWait\<rparr>
      in case list_auths H c w0 of
           (Inl _, w1) \<Rightarrow> Some (abort_run H c report ''host auth listing failed'' w1)
         | (Inr auths, w1) \<Rightarrow>
             (case recover_stale_priority_overrides H c cfg auths w1 of
                None \<Rightarrow> None
              | Some ((_, Some _), w2) \<Rightarrow> Some (abort_run H c report ''stale auth priority restoration failed'' w2)
              | Some ((recovered, None), w2) \<Rightarrow>
                  if recovered
                  then (case list_auths H c w2 of
                          (Inl _, w3) \<Rightarrow> Some (abort_run H c report ''host auth listing failed after priority recovery'' w3)
                        | (Inr auths, w3) \<Rightarrow> run_listed H c cfg options auths report w3)
                  else run_listed H c cfg options auths report w2))"

section \<open>One target\<close>

text \<open>The end of every iteration: record the result, then stop after a failed restoration, or wait.\<close>

definition settle_target ::
  "'h host \<Rightarrow> ctx \<Rightarrow> config \<Rightarrow> nat \<Rightarrow> nat \<Rightarrow> bool \<Rightarrow> run_report \<times> auth_result \<Rightarrow> 'h world \<Rightarrow> (bool \<times> run_report) \<times> 'h world"
where
  "settle_target H c cfg index ntargets fatal rr w =
     (case record_result H cfg (fst rr) (snd rr) w of
        (report, w1) \<Rightarrow> if fatal then ((True, skip_rest index ntargets report), w1) else next_target c cfg index ntargets (report, w1))"

lemma next_target_ended:
  "ctx_err c (w_now w) \<noteq> None \<Longrightarrow> next_target c cfg index ntargets (report, w) = ((True, skip_rest index ntargets (report\<lparr>rr_Canceled := True\<rparr>)), w)"
  by (simp add: next_target_def wait_between_auths_def)

definition begin_failed :: "err option \<Rightarrow> run_report \<Rightarrow> auth_result \<Rightarrow> run_report \<times> auth_result" where
  "begin_failed restoreErr report result =
     (if restoreErr \<noteq> None then (failed report)\<lparr>rr_Error := restore_failure_report\<rparr> else failed report,
      result\<lparr>ar_Outcome := ''failed'',
        ar_Error := (if restoreErr \<noteq> None then restore_failure else ''temporary auth priority update failed'')\<rparr>)"

lemma attempt_target_cases:
  assumes "attempt_target H c cfg body highest found index ntargets a report w = Some ((stop, rep), w')"
  obtains (unapplied) lease e w1 restoreErr w2 where
      "begin_priority_override H c cfg (rr_RunID report) a (desired_priority_for_auth a highest found) w = Some ((lease, Some e), w1)"
      "restore_priority_override H cfg (rr_RunID report) lease w1 = Some (restoreErr, w2)"
      "settle_target H c cfg index ntargets (restoreErr \<noteq> None) (begin_failed restoreErr report
         ((attempt_result cfg a (desired_priority_for_auth a highest found))\<lparr>ar_DurationMS := elapsed_ms (w_now w) w2\<rparr>)) w2 = ((stop, rep), w')"
  | (executed) lease w1 response w2 restoreErr w3 where
      "begin_priority_override H c cfg (rr_RunID report) a (desired_priority_for_auth a highest found) w = Some ((lease, None), w1)"
      "execute_pinned H (with_timeout c (w_now w1) (cf_RequestTimeout cfg)) (model_request cfg a body) w1 = (response, w2)"
      "restore_priority_override H cfg (rr_RunID report) lease w2 = Some (restoreErr, w3)"
      "settle_target H c cfg index ntargets (restoreErr \<noteq> None) (judge_response restoreErr response report
         ((attempt_result cfg a (desired_priority_for_auth a highest found))\<lparr>ar_DurationMS := elapsed_ms (w_now w) w3\<rparr>)) w3 = ((stop, rep), w')"
proof -
  let ?d = "desired_priority_for_auth a highest found"
  obtain lease e w1 where b: "begin_priority_override H c cfg (rr_RunID report) a ?d w = Some ((lease, e), w1)"
    using begin_override_returns by (metis prod.collapse)
  show ?thesis
  proof (cases e)
    case (Some x)
    obtain re w2 where r: "restore_priority_override H cfg (rr_RunID report) lease w1 = Some (re, w2)"
      using restore_override_returns by metis
    show ?thesis
      by (rule unapplied [OF b [unfolded Some] r])
        (use assms b r Some in \<open>auto simp: attempt_target_def Let_def settle_target_def begin_failed_def split: prod.splits if_splits\<close>)
  next
    case None
    obtain response w2 where x: "execute_pinned H (with_timeout c (w_now w1) (cf_RequestTimeout cfg)) (model_request cfg a body) w1 = (response, w2)"
      by force
    obtain re w3 where r: "restore_priority_override H cfg (rr_RunID report) lease w2 = Some (re, w3)"
      using restore_override_returns by metis
    show ?thesis
      by (rule executed [OF b [unfolded None] x r])
        (use assms b r x None in \<open>auto simp: attempt_target_def Let_def settle_target_def next_target_ended split: prod.splits if_splits\<close>)
  qed
qed

text \<open>What an iteration leaves of a report: the run's identity; and the three counters.\<close>

definition same_run :: "run_report \<Rightarrow> run_report \<Rightarrow> bool" where
  "same_run r r' \<longleftrightarrow> rr_RunID r' = rr_RunID r \<and> rr_Trigger r' = rr_Trigger r \<and> rr_OccurrenceID r' = rr_OccurrenceID r \<and>
     rr_DryRun r' = rr_DryRun r \<and> rr_StartedAt r' = rr_StartedAt r \<and> rr_TargetCount r' = rr_TargetCount r \<and> rr_FinishedAt r' = rr_FinishedAt r"

lemma same_run_refl [simp]: "same_run r r"
  by (simp add: same_run_def)

lemma same_run_trans: "same_run r r' \<Longrightarrow> same_run r' r'' \<Longrightarrow> same_run r r''"
  by (simp add: same_run_def)

definition counted :: "run_report \<Rightarrow> int" where
  "counted r = rr_SuccessCount r + rr_FailedCount r + rr_SkippedCount r"

definition counters_grow :: "run_report \<Rightarrow> run_report \<Rightarrow> bool" where
  "counters_grow r r' \<longleftrightarrow> rr_SuccessCount r \<le> rr_SuccessCount r' \<and> rr_FailedCount r \<le> rr_FailedCount r' \<and> rr_SkippedCount r \<le> rr_SkippedCount r'"

lemma counters_grow_trans: "counters_grow r r' \<Longrightarrow> counters_grow r' r'' \<Longrightarrow> counters_grow r r''"
  by (simp add: counters_grow_def)

text \<open>One more target was counted and nothing else; the report is not yet extended by its result.\<close>

definition one_counted :: "run_report \<Rightarrow> run_report \<Rightarrow> bool" where
  "one_counted r r' \<longleftrightarrow> same_run r r' \<and> counters_grow r r' \<and> counted r' = counted r + 1 \<and> rr_Results r' = rr_Results r \<and>
     rr_Canceled r' = rr_Canceled r"

lemma judge_response_spec:
  "judge_response restoreErr response report result = (rep, res) \<Longrightarrow>
     one_counted report rep \<and> rr_Error rep = (if restoreErr = None then rr_Error report else restore_failure_report)"
  by (auto simp: judge_response_def one_counted_def same_run_def counters_grow_def counted_def failed_def Let_def
      split: option.splits sum.splits if_splits)

lemma begin_failed_spec:
  "begin_failed restoreErr report result = (rep, res) \<Longrightarrow>
     one_counted report rep \<and> rr_Error rep = (if restoreErr = None then rr_Error report else restore_failure_report)"
  by (auto simp: begin_failed_def one_counted_def same_run_def counters_grow_def counted_def failed_def split: if_splits)

lemma next_target_spec:
  assumes "next_target c cfg index ntargets (report, w) = ((stop, rep), w')"
  shows "w_trace w' = w_trace w" "w_now w \<le> w_now w'"
    "rep = (if stop then skip_rest index ntargets (report\<lparr>rr_Canceled := True\<rparr>) else report)"
proof -
  obtain ok w1 where w1: "wait_between_auths c (cf_DelayBetweenAuths cfg) index ntargets w = (ok, w1)" by force
  have "w_trace w1 = w_trace w \<and> w_now w \<le> w_now w1"
    using w1 sleep_trace [of c "cf_DelayBetweenAuths cfg" w ok w1] by (auto simp: wait_between_auths_def split: if_splits)
  then show "w_trace w' = w_trace w" "w_now w \<le> w_now w'"
    "rep = (if stop then skip_rest index ntargets (report\<lparr>rr_Canceled := True\<rparr>) else report)"
    using assms w1 by (auto simp: next_target_def split: bool.splits)
qed

definition recorded :: "run_report \<times> auth_result \<Rightarrow> run_report" where
  "recorded rr = (fst rr)\<lparr>rr_Results := rr_Results (fst rr) @ [snd rr]\<rparr>"

lemma settle_target_spec:
  assumes "settle_target H c cfg index ntargets fatal rr w = ((stop, rep), w')"
  shows "w_trace w' = w_trace w @ [EvPublish (recorded rr), EvLog (log_auth_result (recorded rr) (snd rr) (cf_Model cfg))]"
    "w_now w \<le> w_now w'" "fatal \<Longrightarrow> stop"
    "rep = (if fatal then skip_rest index ntargets (recorded rr)
            else if stop then skip_rest index ntargets ((recorded rr)\<lparr>rr_Canceled := True\<rparr>) else recorded rr)"
proof -
  let ?w1 = "write_log H (log_auth_result (recorded rr) (snd rr) (cf_Model cfg)) (publish_report (recorded rr) w)"
  have r: "record_result H cfg (fst rr) (snd rr) w = (recorded rr, ?w1)"
    by (simp add: record_result_def recorded_def Let_def)
  have t: "w_trace ?w1 = w_trace w @ [EvPublish (recorded rr), EvLog (log_auth_result (recorded rr) (snd rr) (cf_Model cfg))]" "w_now w \<le> w_now ?w1"
    using write_log_trace(2) [of "publish_report (recorded rr) w" H] by (simp_all add: write_log_trace publish_report_def)
  have "(\<not> fatal \<longrightarrow> next_target c cfg index ntargets (recorded rr, ?w1) = ((stop, rep), w')) \<and>
        (fatal \<longrightarrow> stop \<and> rep = skip_rest index ntargets (recorded rr) \<and> w' = ?w1)"
    using assms by (auto simp: settle_target_def r)
  then show "w_trace w' = w_trace w @ [EvPublish (recorded rr), EvLog (log_auth_result (recorded rr) (snd rr) (cf_Model cfg))]"
    "w_now w \<le> w_now w'" "fatal \<Longrightarrow> stop"
    "rep = (if fatal then skip_rest index ntargets (recorded rr)
            else if stop then skip_rest index ntargets ((recorded rr)\<lparr>rr_Canceled := True\<rparr>) else recorded rr)"
    using t next_target_spec [of c cfg index ntargets "recorded rr" ?w1 stop rep w'] by (cases fatal; auto)+
qed

section \<open>The events of one target\<close>

definition is_exec :: "event \<Rightarrow> bool" where
  "is_exec ev \<longleftrightarrow> (\<exists>q r. ev = EvExec q r)"

definition is_service :: "event \<Rightarrow> bool" where
  "is_service ev \<longleftrightarrow> (\<exists>r. ev = EvPublish r \<or> ev = EvFinish r)"

lemma event_kinds [simp]:
  "\<not> is_exec (EvList r1)" "\<not> is_exec (EvRuntime i r2)" "\<not> is_exec (EvGet i r3)" "\<not> is_exec (EvSave f r4)" "is_exec (EvExec q r5)"
  "\<not> is_exec (EvLog l)" "\<not> is_exec (EvPublish rp)" "\<not> is_exec (EvFinish rp)"
  "\<not> is_service (EvList r1)" "\<not> is_service (EvRuntime i r2)" "\<not> is_service (EvGet i r3)" "\<not> is_service (EvSave f r4)"
  "\<not> is_service (EvExec q r5)" "\<not> is_service (EvLog l)" "is_service (EvPublish rp)" "is_service (EvFinish rp)"
  "\<not> saved_ok (EvList r1)" "\<not> saved_ok (EvRuntime i r2)" "\<not> saved_ok (EvGet i r3)" "\<not> saved_ok (EvExec q r5)"
  "\<not> saved_ok (EvLog l)" "\<not> saved_ok (EvPublish rp)" "\<not> saved_ok (EvFinish rp)"
  by (auto simp: is_exec_def is_service_def saved_ok_def)

definition quiet :: "event \<Rightarrow> bool" where
  "quiet ev \<longleftrightarrow> \<not> is_exec ev \<and> \<not> is_service ev"

lemma quiet_file_events: "file_events i ev \<or> (\<exists>l. ev = EvLog l) \<Longrightarrow> quiet ev"
  by (auto simp: quiet_def file_events_def gets_def checks_def)

lemma restore_override_spec:
  assumes "restore_priority_override H cfg runID lo w = Some (e, w')"
  shows "\<exists>evs. w_trace w' = w_trace w @ evs \<and> w_now w \<le> w_now w' \<and> list_all quiet evs \<and> (lo = None \<longrightarrow> evs = [] \<and> e = None) \<and>
     (\<forall>l. lo = Some l \<and> e = None \<longrightarrow> (\<exists>x s evs1. evs = evs1 @ [EvLog (restored_log runID l x)] \<and>
        restoration_confirmed (pl_AuthIndex l) (pl_AuthID l) (Some (pl_Marker l)) x s evs1))"
proof (cases lo)
  case None
  with assms show ?thesis by (auto simp: restore_priority_override_def)
next
  case (Some l)
  let ?t = "if cf_PrioritySyncTimeout cfg \<le> 0 then defaultPrioritySyncTimeout else cf_PrioritySyncTimeout cfg"
  from assms Some obtain r w1 where r: "restore_attempts H (with_timeout background (w_now w) ?t) ?t (pl_AuthIndex l) (pl_AuthID l)
        (Some (pl_Marker l)) 3 w = Some (r, w1)"
      "(e, w') = (case r of Inl x \<Rightarrow> (Some x, w1) | Inr (x, _) \<Rightarrow> (None, write_log H (restored_log runID l x) w1))"
    by (auto simp: restore_priority_override_def restore_priority_file_def Let_def split: option.splits sum.splits)
  from restore_attempts_spec [OF r(1)] obtain evs where evs: "w_trace w1 = w_trace w @ evs" "list_all (file_events (pl_AuthIndex l)) evs"
    "w_now w \<le> w_now w1" "\<forall>x s. r = Inr (x, s) \<longrightarrow> restoration_confirmed (pl_AuthIndex l) (pl_AuthID l) (Some (pl_Marker l)) x s evs" by blast
  have q: "list_all quiet evs" using evs(2) quiet_file_events by (auto simp: list_all_iff)
  show ?thesis
  proof (cases r)
    case (Inl x)
    with r(2) evs q Some show ?thesis by (intro exI [of _ evs]) auto
  next
    case (Inr xs)
    obtain x s where xs: "xs = (x, s)" by force
    have e: "e = None" "w' = write_log H (restored_log runID l x) w1" using r(2) Inr xs by auto
    have "w_now w \<le> w_now w'" unfolding e(2) using evs(3) write_log_trace(2) order_trans by blast
    moreover have "restoration_confirmed (pl_AuthIndex l) (pl_AuthID l) (Some (pl_Marker l)) x s evs" using evs(4) Inr xs by blast
    ultimately show ?thesis using evs(1) q Some unfolding e
      by (intro exI [of _ "evs @ [EvLog (restored_log runID l x)]"]) (auto simp: write_log_trace quiet_def)
  qed
qed

lemma begin_override_spec:
  assumes "begin_priority_override H c cfg runID a p w = Some ((lease, e), w')"
  shows "\<exists>evs. w_trace w' = w_trace w @ evs \<and> w_now w \<le> w_now w' \<and> list_all quiet evs \<and>
     (lease = None \<longrightarrow> list_all (\<lambda>ev. \<not> saved_ok ev) evs) \<and> (\<forall>l. lease = Some l \<longrightarrow> lease_matches a runID p l e evs)"
proof (cases "begin_priority_override H c cfg runID a p w = begin_attempts H c cfg runID a p 3 w")
  case True
  from begin_attempts_spec [OF assms [unfolded True]] obtain evs where "w_trace w' = w_trace w @ evs" "w_now w \<le> w_now w'"
    "list_all (\<lambda>ev. file_events (au_AuthIndex a) ev \<or> (\<exists>l. ev = EvLog l)) evs"
    "case lease of None \<Rightarrow> e \<noteq> None \<and> list_all (\<lambda>ev. \<not> saved_ok ev) evs | Some l \<Rightarrow> lease_matches a runID p l e evs" by blast
  moreover have "list_all quiet evs" using calculation(3) quiet_file_events by (auto simp: list_all_iff)
  ultimately show ?thesis by (intro exI [of _ evs]) (auto split: option.splits)
next
  case False
  with assms show ?thesis by (auto simp: begin_priority_override_def split: if_splits intro!: exI [of _ "[]"])
qed

text \<open>
  The events of one target are closed when nothing was saved, or the override that was saved was seen to be
  undone, and no model request lies outside of the two.
\<close>

definition closed_block :: "string \<Rightarrow> event list \<Rightarrow> bool" where
  "closed_block runID evs \<longleftrightarrow> list_all (\<lambda>ev. \<not> saved_ok ev) evs \<or>
     (\<exists>a p l e x s b m r t. evs = b @ m @ r @ t \<and> lease_matches a runID p l e b \<and> list_all (\<lambda>ev. \<not> saved_ok ev) m \<and>
        restoration_confirmed (pl_AuthIndex l) (pl_AuthID l) (Some (pl_Marker l)) x s r \<and>
        list_all (\<lambda>ev. \<not> is_exec ev) (b @ r @ t) \<and> list_all (\<lambda>ev. \<not> saved_ok ev) t)"

definition execs :: "event list \<Rightarrow> event list" where
  "execs evs = filter is_exec evs"

lemma execs_simps [simp]: "execs (a @ b) = execs a @ execs b" "execs [] = []" "execs (ev # evs) = (if is_exec ev then ev # execs evs else execs evs)"
  by (simp_all add: execs_def)

lemma execs_quiet [simp]: "list_all quiet evs \<Longrightarrow> execs evs = []"
  by (auto simp: execs_def list_all_iff quiet_def filter_empty_conv)

lemma closed_blockI:
  assumes "lease = None \<longrightarrow> list_all (\<lambda>ev. \<not> saved_ok ev) b \<and> list_all (\<lambda>ev. \<not> saved_ok ev) r"
    "\<forall>l. lease = Some l \<longrightarrow> lease_matches a runID p l e b"
    "\<forall>l. lease = Some l \<longrightarrow> (\<exists>x s r1. r = r1 @ [EvLog (restored_log runID l x)] \<and>
        restoration_confirmed (pl_AuthIndex l) (pl_AuthID l) (Some (pl_Marker l)) x s r1)"
    "list_all quiet b" "list_all quiet r" "list_all (\<lambda>ev. \<not> saved_ok ev) m" "list_all (\<lambda>ev. \<not> saved_ok ev \<and> \<not> is_exec ev) pre"
    "list_all (\<lambda>ev. \<not> saved_ok ev \<and> \<not> is_exec ev) t"
  shows "closed_block runID (pre @ b @ m @ r @ t)"
proof (cases lease)
  case None
  with assms show ?thesis unfolding closed_block_def by (intro disjI1) (auto simp: list_all_iff)
next
  case (Some l)
  then obtain x s r1 l' where r1: "r = r1 @ [EvLog l']" "restoration_confirmed (pl_AuthIndex l) (pl_AuthID l) (Some (pl_Marker l)) x s r1"
    using assms(3) by metis
  have "lease_matches a runID p l e (pre @ b)"
    using assms(2,7) Some by (auto intro!: lease_matches_prepend simp: list_all_iff)
  moreover have "list_all (\<lambda>ev. \<not> is_exec ev) ((pre @ b) @ r1 @ EvLog l' # t)"
    using assms(4,5,7,8) r1(1) by (auto simp: list_all_iff quiet_def)
  moreover have "list_all (\<lambda>ev. \<not> saved_ok ev) (EvLog l' # t)" using assms(8) by (auto simp: list_all_iff)
  moreover have "pre @ b @ m @ r @ t = (pre @ b) @ m @ r1 @ EvLog l' # t" by (simp add: r1(1))
  ultimately show ?thesis unfolding closed_block_def using r1(2) assms(6) by blast
qed

definition svc :: "event list \<Rightarrow> event list" where
  "svc evs = filter is_service evs"

lemma svc_simps [simp]: "svc (a @ b) = svc a @ svc b" "svc [] = []" "svc (ev # evs) = (if is_service ev then ev # svc evs else svc evs)"
  by (simp_all add: svc_def)

lemma svc_quiet [simp]: "list_all quiet evs \<Longrightarrow> svc evs = []"
  by (auto simp: svc_def list_all_iff quiet_def filter_empty_conv)

text \<open>A target's request: for a credential the host had just described, the right one, and eligible.\<close>

definition request_checked :: "config \<Rightarrow> bytes \<Rightarrow> auth \<Rightarrow> event list \<Rightarrow> bool" where
  "request_checked cfg body listed evs \<longleftrightarrow>
     execs evs = [] \<or>
     (\<exists>a r. execs evs = [EvExec (model_request cfg a body) r] \<and> EvRuntime (au_AuthIndex listed) (Inr a) \<in> set evs \<and>
        fst (auth_eligible cfg a) \<and> trim_space (au_AuthIndex a) = trim_space (au_AuthIndex listed) \<and>
        trim_space (au_ID a) = trim_space (au_ID listed))"

text \<open>What is known of a target before its result is recorded.\<close>

definition target_done ::
  "config \<Rightarrow> bytes \<Rightarrow> auth \<Rightarrow> run_report \<Rightarrow> bool \<Rightarrow> run_report \<Rightarrow> event list \<Rightarrow> bool"
where
  "target_done cfg body listed report fatal report1 evs \<longleftrightarrow>
     one_counted report report1 \<and> svc evs = [] \<and> request_checked cfg body listed evs \<and>
     rr_Error report1 = (if fatal then restore_failure_report else rr_Error report) \<and>
     (\<not> fatal \<longrightarrow> (\<forall>t. list_all (\<lambda>ev. \<not> saved_ok ev \<and> \<not> is_exec ev) t \<longrightarrow> closed_block (rr_RunID report) (evs @ t)))"

lemma closed_blockI2:
  assumes "\<exists>evs. evs = b \<and> list_all quiet evs \<and> (lease = None \<longrightarrow> list_all (\<lambda>ev. \<not> saved_ok ev) evs) \<and> (\<forall>l. lease = Some l \<longrightarrow> lease_matches a runID p l e evs)"
    "list_all quiet r" "lease = None \<longrightarrow> r = []"
    "\<forall>l. lease = Some l \<longrightarrow> (\<exists>x s evs1. r = evs1 @ [EvLog (restored_log runID l x)] \<and>
        restoration_confirmed (pl_AuthIndex l) (pl_AuthID l) (Some (pl_Marker l)) x s evs1)"
    "list_all (\<lambda>ev. \<not> saved_ok ev) m" "list_all (\<lambda>ev. \<not> saved_ok ev \<and> \<not> is_exec ev) t"
  shows "closed_block runID (EvRuntime i q # b @ m @ r @ t)"
proof -
  have "closed_block runID ([EvRuntime i q] @ b @ m @ r @ t)"
  proof (rule closed_blockI [where lease = lease and a = a and p = p and e = e])
    show "lease = None \<longrightarrow> list_all (\<lambda>ev. \<not> saved_ok ev) b \<and> list_all (\<lambda>ev. \<not> saved_ok ev) r" using assms(1,3) by simp
  qed (use assms in simp_all)
  then show ?thesis by simp
qed

lemma attempt_target_spec:
  assumes "attempt_target H c cfg body highest found index ntargets a report w = Some ((stop, rep), w')"
    "fst (auth_eligible cfg a)" "trim_space (au_AuthIndex a) = trim_space (au_AuthIndex listed)"
    "trim_space (au_ID a) = trim_space (au_ID listed)"
  shows "\<exists>fatal rr w1 evs. settle_target H c cfg index ntargets fatal rr w1 = ((stop, rep), w') \<and> w_trace w1 = w_trace w @ evs \<and>
    w_now w \<le> w_now w1 \<and> target_done cfg body listed report fatal (fst rr) (EvRuntime (au_AuthIndex listed) (Inr a) # evs)"
proof -
  let ?i = "au_AuthIndex listed" and ?d = "desired_priority_for_auth a highest found"
  from assms(1) show ?thesis
  proof (cases rule: attempt_target_cases)
    case (unapplied lease e w1 re w2)
    from begin_override_spec [OF unapplied(1)] obtain b where b: "w_trace w1 = w_trace w @ b" "w_now w \<le> w_now w1" "list_all quiet b"
      "lease = None \<longrightarrow> list_all (\<lambda>ev. \<not> saved_ok ev) b" "\<forall>l. lease = Some l \<longrightarrow> lease_matches a (rr_RunID report) ?d l (Some e) b" by blast
    from restore_override_spec [OF unapplied(2)] obtain r where r: "w_trace w2 = w_trace w1 @ r" "w_now w1 \<le> w_now w2" "list_all quiet r"
      "lease = None \<longrightarrow> r = [] \<and> re = None"
      "\<forall>l. lease = Some l \<and> re = None \<longrightarrow> (\<exists>x s evs1. r = evs1 @ [EvLog (restored_log (rr_RunID report) l x)] \<and>
        restoration_confirmed (pl_AuthIndex l) (pl_AuthID l) (Some (pl_Marker l)) x s evs1)" by blast
    let ?res = "(attempt_result cfg a ?d)\<lparr>ar_DurationMS := elapsed_ms (w_now w) w2\<rparr>"
    obtain rep1 res1 where rr: "begin_failed re report ?res = (rep1, res1)" by force
    have "closed_block (rr_RunID report) (EvRuntime ?i (Inr a) # (b @ r) @ t)"
      if "re = None" "list_all (\<lambda>ev. \<not> saved_ok ev \<and> \<not> is_exec ev) t" for t
      using closed_blockI2 [where b = b and lease = lease and a = a and p = ?d and e = "Some e" and r = r and m = "[]" and t = t and runID = "rr_RunID report"] b r that by auto
    then have "target_done cfg body listed report (re \<noteq> None) rep1 (EvRuntime ?i (Inr a) # b @ r)"
      using begin_failed_spec [OF rr] b(3) r(3) by (simp add: target_done_def request_checked_def)
    then show ?thesis using unapplied(3) b r unfolding rr
      by (intro exI [of _ "re \<noteq> None"] exI [of _ "(rep1, res1)"] exI [of _ w2] exI [of _ "b @ r"]) auto
  next
    case (executed lease w1 response w2 re w3)
    from begin_override_spec [OF executed(1)] obtain b where b: "w_trace w1 = w_trace w @ b" "w_now w \<le> w_now w1" "list_all quiet b"
      "lease = None \<longrightarrow> list_all (\<lambda>ev. \<not> saved_ok ev) b" "\<forall>l. lease = Some l \<longrightarrow> lease_matches a (rr_RunID report) ?d l None b" by blast
    from restore_override_spec [OF executed(3)] obtain r where r: "w_trace w3 = w_trace w2 @ r" "w_now w2 \<le> w_now w3" "list_all quiet r"
      "lease = None \<longrightarrow> r = [] \<and> re = None"
      "\<forall>l. lease = Some l \<and> re = None \<longrightarrow> (\<exists>x s evs1. r = evs1 @ [EvLog (restored_log (rr_RunID report) l x)] \<and>
        restoration_confirmed (pl_AuthIndex l) (pl_AuthID l) (Some (pl_Marker l)) x s evs1)" by blast
    note x = host_call_trace(5) [OF executed(2)]
    let ?res = "(attempt_result cfg a ?d)\<lparr>ar_DurationMS := elapsed_ms (w_now w) w3\<rparr>"
    let ?x = "EvExec (model_request cfg a body) response"
    obtain rep1 res1 where rr: "judge_response re response report ?res = (rep1, res1)" by force
    have "closed_block (rr_RunID report) (EvRuntime ?i (Inr a) # (b @ [?x] @ r) @ t)"
      if "re = None" "list_all (\<lambda>ev. \<not> saved_ok ev \<and> \<not> is_exec ev) t" for t
      using closed_blockI2 [where b = b and lease = lease and a = a and p = ?d and e = None and r = r and m = "[?x]" and t = t and runID = "rr_RunID report"] b r that by auto
    then have "target_done cfg body listed report (re \<noteq> None) rep1 (EvRuntime ?i (Inr a) # b @ [?x] @ r)"
      using judge_response_spec [OF rr] b(3) r(3) assms(2-4) by (auto simp: target_done_def request_checked_def)
    then show ?thesis using executed(4) b r x unfolding rr
      by (intro exI [of _ "re \<noteq> None"] exI [of _ "(rep1, res1)"] exI [of _ w3] exI [of _ "b @ [?x] @ r"]) auto
  qed
qed

lemma run_target_spec:
  assumes "run_target H c cfg body highest found index ntargets listed report w = Some ((stop, rep), w')"
  shows "\<exists>fatal rr w1 evs. settle_target H c cfg index ntargets fatal rr w1 = ((stop, rep), w') \<and> w_trace w1 = w_trace w @ evs \<and>
    w_now w \<le> w_now w1 \<and> target_done cfg body listed report fatal (fst rr) evs"
proof -
  obtain g w1 where g: "get_runtime_auth H c (au_AuthIndex listed) w = (g, w1)" by force
  note t = host_call_trace(2) [OF g]
  let ?ev = "EvRuntime (au_AuthIndex listed) g"
  have simple: ?thesis if "next_target c cfg index ntargets (record_result H cfg report1 result w1) = ((stop, rep), w')"
      "one_counted report report1" "rr_Error report1 = rr_Error report" for report1 result
  proof -
    have "settle_target H c cfg index ntargets False (report1, result) w1 = ((stop, rep), w')"
      using that(1) by (simp add: settle_target_def split: prod.splits)
    moreover have "target_done cfg body listed report False report1 [?ev]"
      using that(2,3) by (auto simp: target_done_def request_checked_def closed_block_def list_all_iff)
    ultimately show ?thesis using t by (intro exI [of _ False] exI [of _ "(report1, result)"] exI [of _ w1] exI [of _ "[?ev]"]) auto
  qed
  have counted: "one_counted report (failed report)" "one_counted report (report\<lparr>rr_SkippedCount := rr_SkippedCount report + 1\<rparr>)"
    "rr_Error (failed report) = rr_Error report" "rr_Error (report\<lparr>rr_SkippedCount := rr_SkippedCount report + 1\<rparr>) = rr_Error report"
    by (simp_all add: one_counted_def same_run_def counters_grow_def counted_def failed_def)
  show ?thesis
  proof (cases "\<exists>a. g = Inr a \<and> trim_space (au_AuthIndex a) = trim_space (au_AuthIndex listed) \<and>
      trim_space (au_ID a) = trim_space (au_ID listed) \<and> fst (auth_eligible cfg a)")
    case True
    then obtain a reason where a: "g = Inr a" "trim_space (au_AuthIndex a) = trim_space (au_AuthIndex listed)"
      "trim_space (au_ID a) = trim_space (au_ID listed)" "auth_eligible cfg a = (True, reason)" by (metis prod.collapse)
    then have "attempt_target H c cfg body highest found index ntargets a report w1 = Some ((stop, rep), w')"
      using assms g by (simp add: run_target_def Let_def)
    from attempt_target_spec [OF this _ a(2,3)] a(4) obtain fatal rr w2 evs where
      s: "settle_target H c cfg index ntargets fatal rr w2 = ((stop, rep), w')" "w_trace w2 = w_trace w1 @ evs"
      "w_now w1 \<le> w_now w2" "target_done cfg body listed report fatal (fst rr) (EvRuntime (au_AuthIndex listed) (Inr a) # evs)" by auto
    then show ?thesis using t a(1) by (intro exI [of _ fatal] exI [of _ rr] exI [of _ w2] exI [of _ "?ev # evs"]) auto
  next
    case False
    have "\<exists>report1 result. next_target c cfg index ntargets (record_result H cfg report1 result w1) = ((stop, rep), w') \<and>
        (report1 = failed report \<or> report1 = report\<lparr>rr_SkippedCount := rr_SkippedCount report + 1\<rparr>)"
      using assms g False by (auto simp: run_target_def Let_def split: sum.splits if_splits prod.splits bool.splits)
    then show ?thesis using simple counted by metis
  qed
qed

section \<open>The loop over the targets\<close>

text \<open>The events of the targets that were attempted, one block each, and the report after them.\<close>

definition blocks_ok ::
  "config \<Rightarrow> bytes \<Rightarrow> auth list \<Rightarrow> run_report \<Rightarrow> run_report \<Rightarrow> event list list \<Rightarrow> bool"
where
  "blocks_ok cfg body targets report rep blocks \<longleftrightarrow>
     list_all2 (request_checked cfg body) (take (length blocks) targets) blocks \<and>
     list_all (closed_block (rr_RunID report)) (butlast blocks) \<and>
     (rr_Error rep = rr_Error report \<and> list_all (closed_block (rr_RunID report)) blocks \<or>
      rr_Error rep = restore_failure_report \<and> blocks \<noteq> []) \<and>
     list_all (\<lambda>ev. \<exists>r. ev = EvPublish r \<and> same_run report r) (svc (concat blocks))"

definition report_after :: "auth list \<Rightarrow> run_report \<Rightarrow> run_report \<Rightarrow> event list list \<Rightarrow> bool" where
  "report_after targets report rep blocks \<longleftrightarrow>
     same_run report rep \<and> counters_grow report rep \<and> counted rep = counted report + int (length targets) \<and>
     length (rr_Results rep) = length (rr_Results report) + length blocks \<and> length blocks \<le> length targets \<and>
     (\<not> rr_Canceled rep \<and> rr_Error rep \<noteq> restore_failure_report \<longrightarrow> length blocks = length targets)"

lemma skip_rest_facts [simp]:
  "same_run r (skip_rest i n r') \<longleftrightarrow> same_run r r'" "rr_Error (skip_rest i n r) = rr_Error r" "rr_Results (skip_rest i n r) = rr_Results r"
  "rr_Canceled (skip_rest i n r) = rr_Canceled r" "counted (skip_rest i n r) = counted r + (int n - int i - 1)"
  "rr_SuccessCount (skip_rest i n r) = rr_SuccessCount r" "rr_FailedCount (skip_rest i n r) = rr_FailedCount r"
  "rr_SkippedCount (skip_rest i n r) = rr_SkippedCount r + (int n - int i - 1)"
  by (simp_all add: skip_rest_def same_run_def counted_def)

lemma recorded_facts [simp]:
  "same_run r (recorded rr) \<longleftrightarrow> same_run r (fst rr)" "rr_Error (recorded rr) = rr_Error (fst rr)"
  "rr_Results (recorded rr) = rr_Results (fst rr) @ [snd rr]" "rr_Canceled (recorded rr) = rr_Canceled (fst rr)"
  "counted (recorded rr) = counted (fst rr)" "rr_SuccessCount (recorded rr) = rr_SuccessCount (fst rr)"
  "rr_FailedCount (recorded rr) = rr_FailedCount (fst rr)" "rr_SkippedCount (recorded rr) = rr_SkippedCount (fst rr)"
  "rr_RunID (recorded rr) = rr_RunID (fst rr)"
  by (simp_all add: recorded_def same_run_def counted_def)

lemma canceled_facts [simp]:
  "same_run r (r'\<lparr>rr_Canceled := x\<rparr>) \<longleftrightarrow> same_run r r'" "counted (r\<lparr>rr_Canceled := x\<rparr>) = counted r"
  by (simp_all add: same_run_def counted_def)

lemma run_target_block:
  assumes "run_target H c cfg body highest found index ntargets listed report w = Some ((stop, rep), w')" "index < ntargets"
  shows "\<exists>evs. w_trace w' = w_trace w @ evs \<and> w_now w \<le> w_now w' \<and> request_checked cfg body listed evs \<and>
    same_run report rep \<and> counters_grow report rep \<and> length (rr_Results rep) = Suc (length (rr_Results report)) \<and>
    counted rep = counted report + 1 + (if stop then int ntargets - int index - 1 else 0) \<and>
    (\<not> stop \<longrightarrow> rr_Canceled rep = rr_Canceled report) \<and> (stop \<longrightarrow> rr_Canceled rep \<or> rr_Error rep = restore_failure_report) \<and>
    (rr_Error rep = rr_Error report \<and> closed_block (rr_RunID report) evs \<or> stop \<and> rr_Error rep = restore_failure_report) \<and>
    list_all (\<lambda>ev. \<exists>r. ev = EvPublish r \<and> same_run report r) (svc evs)"
proof -
  from run_target_spec [OF assms(1)] obtain fatal rr w1 evs where
    s: "settle_target H c cfg index ntargets fatal rr w1 = ((stop, rep), w')" "w_trace w1 = w_trace w @ evs" "w_now w \<le> w_now w1"
    and d: "target_done cfg body listed report fatal (fst rr) evs" by blast
  note st = settle_target_spec [OF s(1)]
  let ?t = "[EvPublish (recorded rr), EvLog (log_auth_result (recorded rr) (snd rr) (cf_Model cfg))]"
  have T: "w_trace w' = w_trace w @ (evs @ ?t)" "w_now w \<le> w_now w'" using s(2,3) st(1,2) by auto
  have C: "request_checked cfg body listed (evs @ ?t)" using d by (auto simp: target_done_def request_checked_def)
  have E: "rr_Error rep = rr_Error report \<and> closed_block (rr_RunID report) (evs @ ?t) \<or> stop \<and> rr_Error rep = restore_failure_report"
    using d st(3,4) by (cases fatal) (auto simp: target_done_def)
  have S: "list_all (\<lambda>ev. \<exists>r. ev = EvPublish r \<and> same_run report r) (svc (evs @ ?t))"
    using d by (auto simp: target_done_def one_counted_def)
  have R: "same_run report rep" "counters_grow report rep" "length (rr_Results rep) = Suc (length (rr_Results report))"
      "counted rep = counted report + 1 + (if stop then int ntargets - int index - 1 else 0)"
      "\<not> stop \<longrightarrow> rr_Canceled rep = rr_Canceled report" "stop \<longrightarrow> rr_Canceled rep \<or> rr_Error rep = restore_failure_report"
    unfolding st(4) using d st(3) assms(2) by (auto simp: target_done_def one_counted_def counters_grow_def)
  show ?thesis using T C E S R by (intro exI [of _ "evs @ ?t"]) blast
qed

lemma run_targets_spec:
  "run_targets H c cfg body highest found index ntargets targets report w = Some (rep, w') \<Longrightarrow> index + length targets = ntargets \<Longrightarrow>
     \<exists>blocks. w_trace w' = w_trace w @ concat blocks \<and> w_now w \<le> w_now w' \<and>
       blocks_ok cfg body targets report rep blocks \<and> report_after targets report rep blocks"
proof (induction targets arbitrary: index report w)
  case Nil
  then show ?case by (intro exI [of _ "[]"]) (simp add: blocks_ok_def report_after_def counters_grow_def)
next
  case (Cons listed targets)
  show ?case
  proof (cases "ctx_err c (w_now w) = None")
    case False
    have "counted rep = counted report + int (length (listed # targets))" "counters_grow report rep" "same_run report rep" "rr_Canceled rep"
      "rr_Results rep = rr_Results report" "rr_Error rep = rr_Error report" "w' = w"
      using Cons.prems False by (auto simp: counted_def counters_grow_def same_run_def)
    then show ?thesis by (intro exI [of _ "[]"]) (simp add: blocks_ok_def report_after_def)
  next
    case True
    with Cons.prems(1) obtain stop rep1 w1 where t: "run_target H c cfg body highest found index ntargets listed report w = Some ((stop, rep1), w1)"
      by (auto split: option.splits)
    from run_target_block [OF t] Cons.prems(2) obtain evs where e: "w_trace w1 = w_trace w @ evs" "w_now w \<le> w_now w1"
      "request_checked cfg body listed evs" "same_run report rep1" "counters_grow report rep1"
      "length (rr_Results rep1) = Suc (length (rr_Results report))"
      "counted rep1 = counted report + 1 + (if stop then int ntargets - int index - 1 else 0)"
      "\<not> stop \<longrightarrow> rr_Canceled rep1 = rr_Canceled report" "stop \<longrightarrow> rr_Canceled rep1 \<or> rr_Error rep1 = restore_failure_report"
      "rr_Error rep1 = rr_Error report \<and> closed_block (rr_RunID report) evs \<or> stop \<and> rr_Error rep1 = restore_failure_report"
      "list_all (\<lambda>ev. \<exists>r. ev = EvPublish r \<and> same_run report r) (svc evs)" by auto
    show ?thesis
    proof (cases stop)
      case st: True
      have "rep = rep1 \<and> w' = w1" using Cons.prems(1) True t st by simp
      then show ?thesis using e st Cons.prems(2)
        by (intro exI [of _ "[evs]"]) (auto simp: blocks_ok_def report_after_def)
    next
      case go: False
      then have "run_targets H c cfg body highest found (index + 1) ntargets targets rep1 w1 = Some (rep, w')"
        using Cons.prems(1) True t by simp
      from Cons.IH [OF this] Cons.prems(2) obtain blocks where b: "w_trace w' = w_trace w1 @ concat blocks" "w_now w1 \<le> w_now w'"
        "blocks_ok cfg body targets rep1 rep blocks" "report_after targets rep1 rep blocks" by auto
      have id: "rr_RunID rep1 = rr_RunID report" "rr_Error rep1 = rr_Error report" "closed_block (rr_RunID report) evs"
        using e go by (auto simp: same_run_def)
      have "blocks_ok cfg body (listed # targets) report rep (evs # blocks)"
        using b(3) e(3,4,11) id by (auto simp: blocks_ok_def same_run_def list_all_iff)
      moreover have "report_after (listed # targets) report rep (evs # blocks)"
        using b(4) e(4-7) go same_run_trans counters_grow_trans by (auto simp: report_after_def)
      ultimately show ?thesis using b(1,2) e(1,2) by (intro exI [of _ "evs # blocks"]) auto
    qed
  qed
qed

section \<open>The whole run\<close>

definition abort_messages :: "string list" where
  "abort_messages = [''host auth listing failed'', ''stale auth priority restoration failed'', ''host auth listing failed after priority recovery'']"

definition opening_event :: "event \<Rightarrow> bool" where
  "opening_event ev \<longleftrightarrow> recovery_event ev \<or> (\<exists>r. ev = EvList r)"

lemma opening_not_service: "opening_event ev \<Longrightarrow> quiet ev"
  by (auto simp: opening_event_def recovery_event_def restoration_event_def gets_def checks_def quiet_def)

lemma recover_extends:
  "recover_stale_priority_overrides H c cfg auths w = Some (r, w') \<Longrightarrow> extends w w' opening_event"
proof -
  assume "recover_stale_priority_overrides H c cfg auths w = Some (r, w')"
  then obtain q where "recover_loop H c cfg False [] [] auths w = Some (q, w')"
    by (auto simp: recover_stale_priority_overrides_def split: option.splits)
  from extends_mono [OF recover_loop_extends [OF this]] show ?thesis by (simp add: opening_event_def)
qed

lemma extends_ends_with: "extends w w' P \<Longrightarrow> w_trace w' = w_trace w @ evs \<Longrightarrow> list_all P evs"
  by (auto simp: extends_def)

lemma execute_run_cases:
  assumes "execute_run H lockWait c cfg options report w = Some (rep, w')"
  obtains (aborted) w1 message where "extends w w1 opening_event" "abort_run H c report message w1 = (rep, w')" "message \<in> set abort_messages"
  | (listed) auths w1 where "extends w w1 opening_event" "EvList (Inr auths) \<in> set (drop (length (w_trace w)) (w_trace w1))"
      "run_listed H c cfg options auths report w1 = Some (rep, w')"
proof -
  define w0 where "w0 = (write_log H (started_log cfg report) w)\<lparr>w_now := w_now (write_log H (started_log cfg report) w) + int lockWait\<rparr>"
  have e0: "extends w w0 opening_event"
    using write_log_trace [where H = H and w = w]
    by (auto simp: w0_def extends_def opening_event_def recovery_event_def intro: add_increasing2)
  obtain l w1 where l: "list_auths H c w0 = (l, w1)" by force
  have e1: "extends w w1 opening_event"
    by (rule extends_trans [OF e0 step_extends(1) [OF l]]) (simp add: opening_event_def)
  note run = assms [unfolded execute_run_def Let_def, folded w0_def, unfolded l prod.case]
  show ?thesis
  proof (cases l)
    case (Inl e)
    show ?thesis by (rule aborted [OF e1, of "''host auth listing failed''"]) (use run Inl in \<open>simp_all add: abort_messages_def\<close>)
  next
    case (Inr auths)
    have in1: "EvList (Inr auths) \<in> set (drop (length (w_trace w)) (w_trace w1))"
      using host_call_trace(1) [OF l] e0 Inr by (auto simp: extends_def)
    from run Inr obtain ch es w2 where r: "recover_stale_priority_overrides H c cfg auths w1 = Some ((ch, es), w2)"
      by (auto split: option.splits)
    note er = recover_extends [OF r]
    note e2 = extends_trans [OF e1 er]
    have in2: "EvList (Inr auths) \<in> set (drop (length (w_trace w)) (w_trace w2))"
      using in1 er by (auto simp: extends_def)
    consider (err) e where "es = Some e" | (same) "es = None" "\<not> ch" | (again) "es = None" "ch" by (cases es) auto
    then show ?thesis
    proof cases
      case err
      show ?thesis by (rule aborted [OF e2, of "''stale auth priority restoration failed''"])
          (use run Inr r err in \<open>simp_all add: abort_messages_def\<close>)
    next
      case same
      with run Inr r show ?thesis by (intro listed [OF e2 in2]) simp
    next
      case again
      obtain l2 w3 where l2: "list_auths H c w2 = (l2, w3)" by force
      have e3: "extends w w3 opening_event"
        by (rule extends_trans [OF e2 step_extends(1) [OF l2]]) (simp add: opening_event_def)
      show ?thesis
      proof (cases l2)
        case e: (Inl e)
        show ?thesis by (rule aborted [OF e3, of "''host auth listing failed after priority recovery''"])
            (use run Inr r again l2 e in \<open>simp_all add: abort_messages_def\<close>)
      next
        case a2: (Inr auths2)
        have "EvList (Inr auths2) \<in> set (drop (length (w_trace w)) (w_trace w3))"
          using host_call_trace(1) [OF l2] e2 a2 by (auto simp: extends_def)
        with run Inr r again l2 a2 show ?thesis by (intro listed [OF e3]) simp_all
      qed
    qed
  qed
qed

lemma finish_run_spec:
  assumes "finish_run H report w = (rep, w')"
  shows "rep = finish_report report (w_now w)" "w_trace w' = w_trace w @ [EvFinish rep, EvLog (finish_log rep)]"
  using assms by (auto simp: finish_run_def Let_def write_log_trace)

lemma finish_report_facts [simp]:
  "rr_RunID (finish_report r t) = rr_RunID r" "rr_TargetCount (finish_report r t) = rr_TargetCount r" "counted (finish_report r t) = counted r"
  "rr_Error (finish_report r t) = rr_Error r" "rr_Results (finish_report r t) = rr_Results r" "rr_Canceled (finish_report r t) = rr_Canceled r"
  "rr_FinishedAt (finish_report r t) = Some t" "rr_SuccessCount (finish_report r t) = rr_SuccessCount r"
  "rr_FailedCount (finish_report r t) = rr_FailedCount r" "rr_SkippedCount (finish_report r t) = rr_SkippedCount r"
  "rr_Trigger (finish_report r t) = rr_Trigger r" "rr_OccurrenceID (finish_report r t) = rr_OccurrenceID r" "rr_StartedAt (finish_report r t) = rr_StartedAt r"
  by (simp_all add: finish_report_def counted_def)

lemma run_listed_cases:
  assumes "run_listed H c cfg options auths report w = Some (rep, w')"
  defines "targets \<equiv> filter_auths cfg auths (mo_AuthIndices options)"
  defines "report1 \<equiv> report\<lparr>rr_TargetCount := int (length targets)\<rparr>"
  obtains (duplicates) "has_duplicate_auth_identity targets"
      "finish_run H (report1\<lparr>rr_Error := ''host auth listing contains duplicate auth identities''\<rparr>) (publish_report report1 w) = (rep, w')"
  | (dry) highest found where "mo_DryRun options" "\<not> has_duplicate_auth_identity targets"
      "finish_run H (report1\<lparr>rr_Results := rr_Results report @ map (dry_result cfg highest found) targets\<rparr>) (publish_report report1 w) = (rep, w')"
  | (executed) body highest found report2 w2 where "\<not> mo_DryRun options" "\<not> has_duplicate_auth_identity targets" "build_request_body cfg = Inr body"
      "run_targets H c cfg body highest found 0 (length targets) targets report1 (publish_report report1 w) = Some (report2, w2)"
      "finish_run H report2 w2 = (rep, w')"
proof -
  obtain highest found where h: "highest_available_priority auths = (highest, found)" by force
  obtain body where b: "build_request_body cfg = Inr body" by (simp add: build_request_body_def)
  note run = assms(1) [unfolded run_listed_def Let_def h prod.case, folded targets_def, folded report1_def]
  consider "has_duplicate_auth_identity targets" | "\<not> has_duplicate_auth_identity targets" "mo_DryRun options"
    | "\<not> has_duplicate_auth_identity targets" "\<not> mo_DryRun options" by blast
  then show ?thesis
  proof cases
    case 1
    with run show ?thesis by (intro duplicates) simp_all
  next
    case 2
    with run show ?thesis by (intro dry [of highest found]) (simp_all add: report1_def)
  next
    case 3
    with run b obtain report2 w2 where "run_targets H c cfg body highest found 0 (length targets) targets report1 (publish_report report1 w) = Some (report2, w2)"
      "finish_run H report2 w2 = (rep, w')" by (auto split: option.splits)
    with 3 b show ?thesis by (intro executed)
  qed
qed

text \<open>The trace of a run: its preface, the blocks of the targets it attempted, its end.\<close>

definition run_trace ::
  "config \<Rightarrow> manual_run_options \<Rightarrow> run_report \<Rightarrow> run_report \<Rightarrow> event list \<Rightarrow> bool"
where
  "run_trace cfg options report rep evs \<longleftrightarrow>
     (\<exists>preface published blocks report2. evs = preface @ published @ concat blocks @ [EvFinish rep, EvLog (finish_log rep)] \<and>
        list_all opening_event preface \<and> (published = [] \<or> (\<exists>r. published = [EvPublish r] \<and> rr_RunID r = rr_RunID report)) \<and>
        rr_RunID rep = rr_RunID report \<and>
        (blocks \<noteq> [] \<longrightarrow> \<not> mo_DryRun options \<and>
          (\<exists>auths body report1. EvList (Inr auths) \<in> set preface \<and> build_request_body cfg = Inr body \<and>
            rr_RunID report1 = rr_RunID report \<and> rr_Error report1 = rr_Error report \<and> rr_Error report2 = rr_Error rep \<and>
            blocks_ok cfg body (filter_auths cfg auths (mo_AuthIndices options)) report1 report2 blocks)))"

lemma execute_run_trace:
  assumes "execute_run H lockWait c cfg options report w = Some (rep, w')"
  shows "\<exists>evs. w_trace w' = w_trace w @ evs \<and> run_trace cfg options report rep evs"
  using assms
proof (cases rule: execute_run_cases)
  case (aborted w1 message)
  then obtain o1 where o1: "w_trace w1 = w_trace w @ o1" "list_all opening_event o1" by (auto simp: extends_def)
  note f = finish_run_spec [OF aborted(2) [unfolded abort_run_def]]
  show ?thesis using o1 f unfolding run_trace_def
    by (intro exI [of _ "o1 @ [EvFinish rep, EvLog (finish_log rep)]"] conjI exI [of _ o1] exI [of _ "[]"]) simp_all
next
  case (listed auths w1)
  then obtain o1 where o1: "w_trace w1 = w_trace w @ o1" "list_all opening_event o1" "EvList (Inr auths) \<in> set o1" by (auto simp: extends_def)
  let ?n = "report\<lparr>rr_TargetCount := int (length (filter_auths cfg auths (mo_AuthIndices options)))\<rparr>"
  from listed(3) show ?thesis
  proof (cases rule: run_listed_cases)
    case duplicates
    note f = finish_run_spec [OF duplicates(2)]
    show ?thesis using o1 f unfolding run_trace_def
      by (intro exI [of _ "o1 @ [EvPublish ?n, EvFinish rep, EvLog (finish_log rep)]"] conjI exI [of _ o1] exI [of _ "[EvPublish ?n]"] exI [of _ "[]"])
        (simp_all add: publish_report_def)
  next
    case (dry highest found)
    note f = finish_run_spec [OF dry(3)]
    show ?thesis using o1 f unfolding run_trace_def
      by (intro exI [of _ "o1 @ [EvPublish ?n, EvFinish rep, EvLog (finish_log rep)]"] conjI exI [of _ o1] exI [of _ "[EvPublish ?n]"] exI [of _ "[]"])
        (simp_all add: publish_report_def)
  next
    case (executed body highest found report2 w2)
    from run_targets_spec [OF executed(4)] obtain blocks where b: "w_trace w2 = w_trace (publish_report ?n w1) @ concat blocks"
      "blocks_ok cfg body (filter_auths cfg auths (mo_AuthIndices options)) ?n report2 blocks"
      "report_after (filter_auths cfg auths (mo_AuthIndices options)) ?n report2 blocks" by auto
    note f = finish_run_spec [OF executed(5)]
    have id: "rr_RunID rep = rr_RunID report" "rr_Error report2 = rr_Error rep"
      using b(3) by (auto simp: f(1) report_after_def same_run_def)
    have "w_trace w' = w_trace w @ (o1 @ [EvPublish ?n] @ concat blocks @ [EvFinish rep, EvLog (finish_log rep)])"
      using o1(1) f(2) b(1) by (simp add: publish_report_def)
    moreover have "run_trace cfg options report rep (o1 @ [EvPublish ?n] @ concat blocks @ [EvFinish rep, EvLog (finish_log rep)])"
      unfolding run_trace_def
      by (intro exI [of _ o1] exI [of _ "[EvPublish ?n]"] exI [of _ blocks] exI [of _ report2] conjI impI exI [of _ auths] exI [of _ body] exI [of _ ?n])
        (use o1(2,3) executed(1,3) b(2) id in auto)
    ultimately show ?thesis by blast
  qed
qed

lemma attempt_target_returns: "\<exists>stop rep w'. attempt_target H c cfg body highest found i n a report w = Some ((stop, rep), w')"
proof -
  obtain lease e w1 where b: "begin_priority_override H c cfg (rr_RunID report) a (desired_priority_for_auth a highest found) w = Some ((lease, e), w1)"
    using begin_override_returns by (metis prod.collapse)
  obtain response w2 where x: "execute_pinned H (with_timeout c (w_now w1) (cf_RequestTimeout cfg)) (model_request cfg a body) w1 = (response, w2)"
    by force
  obtain r1 v1 where r1: "restore_priority_override H cfg (rr_RunID report) lease w1 = Some (r1, v1)" using restore_override_returns by metis
  obtain r2 v2 where r2: "restore_priority_override H cfg (rr_RunID report) lease w2 = Some (r2, v2)" using restore_override_returns by metis
  have "attempt_target H c cfg body highest found i n a report w \<noteq> None"
    by (cases e) (simp_all add: attempt_target_def Let_def b x r1 r2 del: not_None_eq split: prod.splits)
  then show ?thesis by (metis not_None_eq prod.collapse)
qed

lemma attempt_some: "attempt_target H c cfg body highest found i n a report w \<noteq> None"
  using attempt_target_returns by (metis option.distinct(1))

lemma run_target_returns: "\<exists>stop rep w'. run_target H c cfg body highest found i n listed report w = Some ((stop, rep), w')"
proof -
  obtain g w1 where g: "get_runtime_auth H c (au_AuthIndex listed) w = (g, w1)" by force
  have "run_target H c cfg body highest found i n listed report w \<noteq> None"
    by (cases g) (simp_all add: run_target_def Let_def g attempt_some del: not_None_eq split: prod.splits bool.splits)
  then show ?thesis by (metis not_None_eq prod.collapse)
qed

lemma run_targets_returns: "\<exists>rep w'. run_targets H c cfg body highest found i n targets report w = Some (rep, w')"
proof (induction targets arbitrary: i report w)
  case (Cons a targets)
  obtain stop rep w1 where t: "run_target H c cfg body highest found i n a report w = Some ((stop, rep), w1)"
    using run_target_returns by metis
  show ?case using Cons.IH by (cases stop) (auto simp: t)
qed simp

lemma run_listed_returns: "\<exists>rep w'. run_listed H c cfg options auths report w = Some (rep, w')"
proof -
  obtain highest found where h: "highest_available_priority auths = (highest, found)" by force
  obtain body where b: "build_request_body cfg = Inr body" by (simp add: build_request_body_def)
  show ?thesis
    using run_targets_returns [of H c cfg body highest found 0]
    by (simp add: run_listed_def Let_def h b) (metis (no_types, lifting) case_prod_conv option.simps(5) prod.collapse)
qed

lemma execute_run_returns:
  assumes "ctx_end c \<noteq> None"
  shows "\<exists>rep w'. execute_run H lockWait c cfg options report w = Some (rep, w')"
proof -
  let ?w0 = "(write_log H (started_log cfg report) w)\<lparr>w_now := w_now (write_log H (started_log cfg report) w) + int lockWait\<rparr>"
  obtain l w1 where l: "list_auths H c ?w0 = (l, w1)" by force
  have rec: "\<exists>ch es w2. recover_stale_priority_overrides H c cfg auths w1 = Some ((ch, es), w2)" for auths
    using recover_loop_returns [OF assms, of H cfg False "[]" "[]" auths w1] by (auto simp: recover_stale_priority_overrides_def)
  have "execute_run H lockWait c cfg options report w \<noteq> None"
  proof (cases l)
    case (Inl e)
    then show ?thesis by (simp add: execute_run_def Let_def l del: not_None_eq)
  next
    case (Inr auths)
    obtain ch es w2 where r: "recover_stale_priority_overrides H c cfg auths w1 = Some ((ch, es), w2)" using rec by blast
    obtain l2 w3 where l2: "list_auths H c w2 = (l2, w3)" by force
    have "run_listed H c cfg options auths' report w' \<noteq> None" for auths' w'
      using run_listed_returns by (metis option.distinct(1))
    then show ?thesis by (cases es; cases l2) (auto simp: execute_run_def Let_def l Inr r l2 simp del: not_None_eq)
  qed
  then show ?thesis by (metis not_None_eq prod.collapse)
qed

text \<open>The events a run hands to the service: reports of the run, then the final one, once.\<close>

lemma run_trace_service:
  assumes "run_trace cfg options report rep evs"
  shows "rr_RunID rep = rr_RunID report \<and>
    (\<exists>reports. svc evs = map EvPublish reports @ [EvFinish rep] \<and> list_all (\<lambda>r. rr_RunID r = rr_RunID report) reports)"
proof -
  from assms obtain preface published blocks report2 where e: "evs = preface @ published @ concat blocks @ [EvFinish rep, EvLog (finish_log rep)]"
    "list_all opening_event preface" "published = [] \<or> (\<exists>r. published = [EvPublish r] \<and> rr_RunID r = rr_RunID report)"
    "rr_RunID rep = rr_RunID report"
    "blocks \<noteq> [] \<longrightarrow> (\<exists>auths body report1. rr_RunID report1 = rr_RunID report \<and>
       blocks_ok cfg body (filter_auths cfg auths (mo_AuthIndices options)) report1 report2 blocks)"
    unfolding run_trace_def by blast
  have o: "svc preface = []" using e(2) opening_not_service by (intro svc_quiet) (auto simp: list_all_iff)
  have b: "list_all (\<lambda>ev. \<exists>r. ev = EvPublish r \<and> rr_RunID r = rr_RunID report) (svc (published @ concat blocks))"
    using e(3,5) by (cases "blocks = []") (auto simp: blocks_ok_def same_run_def list_all_iff)
  have "\<exists>reports. xs = map EvPublish reports \<and> list_all (\<lambda>r. rr_RunID r = i) reports"
    if "list_all (\<lambda>ev. \<exists>r. ev = EvPublish r \<and> rr_RunID r = i) xs" for xs i
    using that
  proof (induction xs)
    case (Cons x xs)
    then obtain r reports where "x = EvPublish r" "rr_RunID r = i" "xs = map EvPublish reports" "list_all (\<lambda>r. rr_RunID r = i) reports" by auto
    then show ?case by (intro exI [of _ "r # reports"]) simp
  qed simp
  from this [OF b] obtain reports where "svc (published @ concat blocks) = map EvPublish reports" "list_all (\<lambda>r. rr_RunID r = rr_RunID report) reports" by blast
  then show ?thesis using e(1,4) o by auto
qed

lemma execs_concat: "execs (concat blocks) = concat (map execs blocks)"
  by (induction blocks) auto

lemma execute_run_parts:
  assumes "execute_run H lockWait c cfg options report w = Some (rep, w')"
  obtains preface published blocks where
    "w_trace w' = w_trace w @ preface @ published @ concat blocks @ [EvFinish rep, EvLog (finish_log rep)]"
    "list_all opening_event preface" "published = [] \<or> (\<exists>r. published = [EvPublish r])" "execs preface = []" "execs published = []"
    "mo_DryRun options \<Longrightarrow> blocks = []"
    "blocks = [] \<or> (\<exists>auths body report1 report2. EvList (Inr auths) \<in> set preface \<and> build_request_body cfg = Inr body \<and>
       rr_RunID report1 = rr_RunID report \<and> rr_Error report2 = rr_Error rep \<and>
       blocks_ok cfg body (filter_auths cfg auths (mo_AuthIndices options)) report1 report2 blocks)"
proof -
  from execute_run_trace [OF assms] obtain evs where evs: "w_trace w' = w_trace w @ evs" "run_trace cfg options report rep evs" by blast
  from evs(2) obtain preface published blocks report2 where e: "evs = preface @ published @ concat blocks @ [EvFinish rep, EvLog (finish_log rep)]"
    "list_all opening_event preface" "published = [] \<or> (\<exists>r. published = [EvPublish r] \<and> rr_RunID r = rr_RunID report)"
    "blocks \<noteq> [] \<longrightarrow> \<not> mo_DryRun options \<and>
          (\<exists>auths body report1. EvList (Inr auths) \<in> set preface \<and> build_request_body cfg = Inr body \<and>
            rr_RunID report1 = rr_RunID report \<and> rr_Error report1 = rr_Error report \<and> rr_Error report2 = rr_Error rep \<and>
            blocks_ok cfg body (filter_auths cfg auths (mo_AuthIndices options)) report1 report2 blocks)"
    unfolding run_trace_def by blast
  have "execs preface = []" using e(2) opening_not_service by (intro execs_quiet) (auto simp: list_all_iff)
  moreover have "execs published = []" using e(3) by auto
  ultimately show ?thesis using evs(1) e by (intro that [of preface published blocks]) auto
qed

section \<open>Properties\<close>



text \<open>C4. One override at a time: every override a run writes is seen to be undone before the next target is
  touched, and no request is sent outside of the two. Only the last target may be left open, and then
  the run has stopped and its report says so.\<close>

theorem run_restores_before_next:
  assumes "execute_run H lockWait c cfg options report w = Some (rep, w')"
  shows "\<exists>preface published blocks. w_trace w' = w_trace w @ preface @ published @ concat blocks @ [EvFinish rep, EvLog (finish_log rep)] \<and>
    list_all opening_event preface \<and> execs preface = [] \<and> (published = [] \<or> (\<exists>r. published = [EvPublish r])) \<and>
    list_all (closed_block (rr_RunID report)) (butlast blocks) \<and>
    (list_all (closed_block (rr_RunID report)) blocks \<or> rr_Error rep = restore_failure_report)"
proof -
  from execute_run_parts [OF assms] obtain preface published blocks where
    e: "w_trace w' = w_trace w @ preface @ published @ concat blocks @ [EvFinish rep, EvLog (finish_log rep)]"
      "list_all opening_event preface" "published = [] \<or> (\<exists>r. published = [EvPublish r])" "execs preface = []"
    and b: "blocks = [] \<or> (\<exists>auths body report1 report2. EvList (Inr auths) \<in> set preface \<and> build_request_body cfg = Inr body \<and>
       rr_RunID report1 = rr_RunID report \<and> rr_Error report2 = rr_Error rep \<and>
       blocks_ok cfg body (filter_auths cfg auths (mo_AuthIndices options)) report1 report2 blocks)" by metis
  have "list_all (closed_block (rr_RunID report)) (butlast blocks) \<and>
      (list_all (closed_block (rr_RunID report)) blocks \<or> rr_Error rep = restore_failure_report)"
    using b by (auto simp: blocks_ok_def)
  with e show ?thesis by blast
qed


text \<open>C31. A run whose context ends, by cancellation or otherwise, comes to its end and hands its final report to the
  service exactly once, after any number of intermediate ones of the same run.\<close>

theorem run_finishes_once:
  assumes "ctx_end c \<noteq> None"
  shows "\<exists>rep w' evs reports. execute_run H lockWait c cfg options report w = Some (rep, w') \<and> w_trace w' = w_trace w @ evs \<and>
    svc evs = map EvPublish reports @ [EvFinish rep] \<and> list_all (\<lambda>r. rr_RunID r = rr_RunID report) reports \<and> rr_RunID rep = rr_RunID report"
proof -
  obtain rep w' where r: "execute_run H lockWait c cfg options report w = Some (rep, w')" using execute_run_returns [OF assms] by blast
  from execute_run_trace [OF r] obtain evs where "w_trace w' = w_trace w @ evs" "run_trace cfg options report rep evs" by blast
  with run_trace_service [OF this(2)] r show ?thesis by blast
qed

section \<open>Witnesses\<close>

definition dry_options :: "bool \<Rightarrow> manual_run_options" where
  "dry_options d = \<lparr> mo_DryRun = d, mo_AuthIndices = [] \<rparr>"

definition short_context :: ctx where
  "short_context = with_timeout background 0 second"

lemma short_context_ends: "ctx_end short_context \<noteq> None"
  using ctx_end_timeout by (metis option.distinct(1) short_context_def)

lemma still_run:
  obtains rep w' where "execute_run (still_host (sample_active 5) sample_file) 0 short_context zero_config (dry_options d)
    (new_report ''run'' ''manual'' [] (mo_DryRun (dry_options d)) 0) still_world = Some (rep, w')"
  using execute_run_returns [OF short_context_ends] by blast



lemma run_restores_before_next_witness:
  "\<exists>rep w' blocks. execute_run (still_host (sample_active 5) sample_file) 0 short_context zero_config (dry_options False)
      (new_report ''run'' ''manual'' [] (mo_DryRun (dry_options False)) 0) still_world = Some (rep, w') \<and>
    set (concat blocks) \<subseteq> set (w_trace w') \<and> list_all (closed_block ''run'') (butlast blocks) \<and>
    (list_all (closed_block ''run'') blocks \<or> rr_Error rep = restore_failure_report)"
proof -
  obtain rep w' where r: "execute_run (still_host (sample_active 5) sample_file) 0 short_context zero_config (dry_options False)
      (new_report ''run'' ''manual'' [] (mo_DryRun (dry_options False)) 0) still_world = Some (rep, w')" by (rule still_run)
  from run_restores_before_next [OF r] obtain preface published blocks where
    "w_trace w' = w_trace still_world @ preface @ published @ concat blocks @ [EvFinish rep, EvLog (finish_log rep)]"
    "list_all (closed_block ''run'') (butlast blocks)" "list_all (closed_block ''run'') blocks \<or> rr_Error rep = restore_failure_report"
    by auto
  with r show ?thesis by (intro exI [of _ rep] exI [of _ w'] exI [of _ blocks]) auto
qed


lemma run_finishes_once_witness:
  "\<exists>rep w' reports. execute_run (still_host (sample_active 5) sample_file) 0 short_context zero_config (dry_options False)
      (new_report ''run'' ''manual'' [] False 0) still_world = Some (rep, w') \<and> svc (w_trace w') = map EvPublish reports @ [EvFinish rep]"
  using run_finishes_once [OF short_context_ends, of "still_host (sample_active 5) sample_file" 0 zero_config "dry_options False"
      "new_report ''run'' ''manual'' [] False 0" still_world]
  by (fastforce simp: still_world_def)

end
