(* ===== verification/Startup_Recovery.thy ===== *)
theory Startup_Recovery imports Priority_Service begin

text \<open>
  The goroutine of \<^verbatim>\<open>startPriorityRecovery\<close> (\<^verbatim>\<open>internal/refreshquota/service.go\<close>): it lists the credentials every 250
  milliseconds until the listing has stayed the same for two seconds, takes the priority lock and undoes stale overrides,
  all within 30 seconds. What it reads of the service, \<open>current\<close>, and whether the lock is free, \<open>free\<close>, are
  functions of the instant of the question; how the service changes by its outcome is in \<open>Service_System\<close>.
\<close>

section \<open>Definitions\<close>

definition wait_recovery_retry :: "ctx \<Rightarrow> 'h world \<Rightarrow> bool \<times> 'h world" where
  "wait_recovery_retry c w = sleep_ctx c (250 * millisecond) w"

partial_function (option) lock_priority :: "(instant \<Rightarrow> bool) \<Rightarrow> ctx \<Rightarrow> 'h world \<Rightarrow> (bool \<times> 'h world) option" where
  "lock_priority free c w =
     (if free (w_now w) then Some (True, w)
      else case wait_priority_poll c w of
             (again, w1) \<Rightarrow> if again then lock_priority free c w1 else Some (False, w1))"

text \<open>How the goroutine ends: it was overtaken, its context ended, its time was up, or it has a result.\<close>

datatype recovery_end = RecoveryStale | RecoveryCancelled | RecoveryTimeout | RecoveryResult "err option" bool

definition give_up :: "'h host \<Rightarrow> ctx \<Rightarrow> 'h world \<Rightarrow> recovery_end \<times> 'h world" where
  "give_up H c w =
     (if ctx_err c (w_now w) = Some CtxDeadlineExceeded then (RecoveryTimeout, write_log H recovery_timeout_log w)
      else (RecoveryCancelled, w))"

text \<open>The stable listing so far: since when, and its fingerprint. \<^term>\<open>None\<close> is the zero time.\<close>

type_synonym stable_state = "(instant \<times> string) option"

definition note_listing :: "err + auth list \<Rightarrow> instant \<Rightarrow> stable_state \<Rightarrow> stable_state" where
  "note_listing listing now held =
     (case listing of
        Inl _ \<Rightarrow> None
      | Inr auths \<Rightarrow>
          (case held of
             None \<Rightarrow> Some (now, auth_recovery_fingerprint auths)
           | Some (since, fingerprint) \<Rightarrow>
               if auth_recovery_fingerprint auths \<noteq> fingerprint then Some (now, auth_recovery_fingerprint auths)
               else Some (since, fingerprint)))"

definition listing_ready :: "err + auth list \<Rightarrow> instant \<Rightarrow> stable_state \<Rightarrow> bool" where
  "listing_ready listing now held \<longleftrightarrow>
     (case listing of
        Inl _ \<Rightarrow> False
      | Inr _ \<Rightarrow> (case held of None \<Rightarrow> False | Some (since, _) \<Rightarrow> time_sub now since \<ge> priorityRecoveryEmptyGrace))"

definition recover_listed ::
  "'h host \<Rightarrow> (instant \<Rightarrow> bool) \<Rightarrow> (instant \<Rightarrow> bool) \<Rightarrow> ctx \<Rightarrow> config \<Rightarrow> auth list \<Rightarrow> 'h world \<Rightarrow> (recovery_end \<times> 'h world) option"
where
  "recover_listed H current free c cfg auths w =
     (case lock_priority free c w of
        None \<Rightarrow> None
      | Some (False, w1) \<Rightarrow> Some (give_up H c w1)
      | Some (True, w1) \<Rightarrow>
          if \<not> current (w_now w1) \<or> ctx_err c (w_now w1) \<noteq> None then Some (RecoveryStale, w1)
          else (case recover_stale_priority_overrides H c cfg auths w1 of
                  None \<Rightarrow> None
                | Some ((changed, e), w2) \<Rightarrow>
                    (case e of
                       Some x \<Rightarrow>
                         Some (RecoveryResult e changed, write_log H (log_entry_of ''error'' ''startup credential priority recovery failed''
                           [(''event'', LStr ''priority_recovery_failed''), (''error'', LStr (sanitize_error e))]) w2)
                     | None \<Rightarrow>
                         if changed
                         then Some (RecoveryResult None True, write_log H (log_entry_of ''info'' ''startup credential priority recovery completed''
                           [(''event'', LStr ''priority_recovery_completed'')]) w2)
                         else Some (RecoveryResult None False, w2))))"

partial_function (option) recovery_loop ::
  "'h host \<Rightarrow> (instant \<Rightarrow> bool) \<Rightarrow> (instant \<Rightarrow> bool) \<Rightarrow> ctx \<Rightarrow> config \<Rightarrow> stable_state \<Rightarrow> 'h world \<Rightarrow> (recovery_end \<times> 'h world) option"
where
  "recovery_loop H current free c cfg held w =
     (if \<not> current (w_now w) then Some (RecoveryStale, w)
      else (case list_auths H c w of
              (listing, w1) \<Rightarrow>
                if listing_ready listing (w_now w1) (note_listing listing (w_now w1) held)
                then recover_listed H current free c cfg (projr listing) w1
                else (case wait_recovery_retry c w1 of
                        (again, w2) \<Rightarrow>
                          if again then recovery_loop H current free c cfg (note_listing listing (w_now w1) held) w2
                          else Some (give_up H c w2))))"

definition startup_recovery ::
  "'h host \<Rightarrow> (instant \<Rightarrow> bool) \<Rightarrow> (instant \<Rightarrow> bool) \<Rightarrow> instant option \<Rightarrow> config \<Rightarrow> 'h world \<Rightarrow> (recovery_end \<times> 'h world) option"
where
  "startup_recovery H current free cancelled cfg w =
     recovery_loop H current free (with_timeout \<lparr> cx_CancelledAt = cancelled, cx_Deadline = None \<rparr> (w_now w) priorityRecoveryTimeout) cfg None w"

text \<open>What the service learns from the outcome, before the goroutine's deferred section.\<close>

definition apply_recovery_end :: "u64 \<Rightarrow> recovery_end \<Rightarrow> service \<Rightarrow> service" where
  "apply_recovery_end generation r sv =
     (case r of
        RecoveryStale \<Rightarrow> sv
      | RecoveryCancelled \<Rightarrow> sv
      | RecoveryTimeout \<Rightarrow> fst (report_priority_recovery_timeout generation sv)
      | RecoveryResult e _ \<Rightarrow> set_priority_recovery_result generation e sv)"

section \<open>The loop comes to an end\<close>

lemma lock_priority_returns: "ctx_end c = Some e \<Longrightarrow> \<exists>b w'. lock_priority free c w = Some (b, w') \<and> w_now w \<le> w_now w' \<and> w_trace w' = w_trace w"
proof (induction "nat (e - w_now w)" arbitrary: w rule: less_induct)
  case less
  obtain again w1 where s: "wait_priority_poll c w = (again, w1)" by force
  note st = sleep_trace [OF s [unfolded wait_priority_poll_def]]
  show ?case
  proof (cases "free (w_now w) \<or> \<not> again")
    case True
    then show ?thesis using s st by (subst lock_priority.simps) auto
  next
    case False
    then have "w_now w1 = w_now w + priorityPollInterval" "w_now w + priorityPollInterval < e"
      using sleep_True [of c priorityPollInterval w w1] s less.prems
      by (auto simp: wait_priority_poll_def priorityPollInterval_def duration_units)
    then have "nat (e - w_now w1) < nat (e - w_now w)" by (simp add: priorityPollInterval_def duration_units)
    from less.hyps [OF this less.prems] obtain b w' where "lock_priority free c w1 = Some (b, w')" "w_now w1 \<le> w_now w'" "w_trace w' = w_trace w1"
      by blast
    then show ?thesis using s st False by (subst lock_priority.simps) auto
  qed
qed

lemma recover_listed_returns:
  assumes "ctx_end c = Some e"
  shows "\<exists>r w'. recover_listed H current free c cfg auths w = Some (r, w')"
proof -
  obtain b w1 where l: "lock_priority free c w = Some (b, w1)" using lock_priority_returns [OF assms] by blast
  have "recover_loop H c cfg False [] [] auths w1 \<noteq> None" using recover_loop_returns [of c H cfg False "[]" "[]" auths w1] assms by auto
  then have "recover_stale_priority_overrides H c cfg auths w1 \<noteq> None"
    by (auto simp: recover_stale_priority_overrides_def)
  then have "recover_listed H current free c cfg auths w \<noteq> None"
    by (auto simp: recover_listed_def l split: bool.splits option.splits)
  then show ?thesis by (metis not_None_eq prod.collapse)
qed

lemma recovery_loop_returns:
  "ctx_end c = Some e \<Longrightarrow> \<exists>r w'. recovery_loop H current free c cfg held w = Some (r, w')"
proof (induction "nat (e - w_now w)" arbitrary: w held rule: less_induct)
  case less
  obtain listing w1 where l: "list_auths H c w = (listing, w1)" by force
  obtain again w2 where s: "wait_recovery_retry c w1 = (again, w2)" by force
  obtain r3 w3 where g: "give_up H c w2 = (r3, w3)" by force
  note recover = recover_listed_returns [OF less.prems, of H current free cfg "projr listing" w1]
  show ?case
  proof (cases "listing_ready listing (w_now w1) (note_listing listing (w_now w1) held) \<or> \<not> again")
    case True
    then show ?thesis using l s g recover by (subst recovery_loop.simps) auto
  next
    case False
    have "w_now w \<le> w_now w1" using host_call_trace(1) [OF l] by simp
    moreover have "w_now w2 = w_now w1 + 250 * millisecond" "w_now w1 + 250 * millisecond < e"
      using sleep_True [of c "250 * millisecond" w1 w2] s less.prems False by (auto simp: wait_recovery_retry_def duration_units)
    ultimately have "nat (e - w_now w2) < nat (e - w_now w)" by (simp add: duration_units)
    from less.hyps [OF this less.prems, of "note_listing listing (w_now w1) held"] show ?thesis
      using l s False by (subst recovery_loop.simps) auto
  qed
qed

lemma startup_recovery_ends: "\<exists>r w'. startup_recovery H current free cancelled cfg w = Some (r, w')"
proof -
  obtain e where "ctx_end (with_timeout \<lparr> cx_CancelledAt = cancelled, cx_Deadline = None \<rparr> (w_now w) priorityRecoveryTimeout) = Some e"
    using ctx_end_timeout by blast
  from recovery_loop_returns [OF this] show ?thesis by (simp add: startup_recovery_def)
qed

text \<open>C33. Recovery at start-up always comes to an end, whatever the host answers, however long the priority lock is held
  and whether or not the service cancels it: its context ends after 30 seconds and every wait ends with it.\<close>

theorem startup_recovery_returns: "startup_recovery H current free cancelled cfg w \<noteq> None"
  using startup_recovery_ends [of H current free cancelled cfg w] by auto

section \<open>Recovery waits for a stable listing\<close>

text \<open>The listings of a goroutine that are worth the grace period: the last ones all show the same credentials.\<close>

definition shows_fingerprint :: "string \<Rightarrow> err + auth list \<Rightarrow> bool" where
  "shows_fingerprint fp listing \<longleftrightarrow> (case listing of Inl _ \<Rightarrow> False | Inr auths \<Rightarrow> auth_recovery_fingerprint auths = fp)"

definition ends_showing :: "string \<Rightarrow> nat \<Rightarrow> (err + auth list) list \<Rightarrow> bool" where
  "ends_showing fp n ls \<longleftrightarrow> n \<le> length ls \<and> list_all (shows_fingerprint fp) (take n (rev ls))"

lemma ends_showing_snoc: "ends_showing fp (Suc n) (ls @ [l]) \<longleftrightarrow> shows_fingerprint fp l \<and> ends_showing fp n ls"
  by (auto simp: ends_showing_def)

definition held_by :: "stable_state \<Rightarrow> instant \<Rightarrow> (err + auth list) list \<Rightarrow> bool" where
  "held_by held start ls \<longleftrightarrow> (case held of None \<Rightarrow> True | Some (since, fp) \<Rightarrow> start \<le> since \<and> ends_showing fp 1 ls)"

lemma held_by_note:
  assumes "held_by held start ls" "start \<le> now"
  shows "held_by (note_listing listing now held) start (ls @ [listing])"
  using assms unfolding One_nat_def
  by (auto simp: held_by_def note_listing_def ends_showing_snoc shows_fingerprint_def ends_showing_def split: sum.splits option.splits)

text \<open>The credentials are recovered only two seconds after the start or later, and after two listings that show the same.\<close>

definition stable_for_grace :: "instant \<Rightarrow> instant \<Rightarrow> (err + auth list) list \<Rightarrow> bool" where
  "stable_for_grace start now ls \<longleftrightarrow>
     start + priorityRecoveryEmptyGrace \<le> now \<and> ls \<noteq> [] \<and>
     (case last ls of Inl _ \<Rightarrow> False | Inr auths \<Rightarrow> ends_showing (auth_recovery_fingerprint auths) 2 ls)"

lemma ready_is_stable:
  assumes h: "held_by held start ls" and r: "listing_ready listing now (note_listing listing now held)"
  shows "stable_for_grace start now (ls @ [listing])"
proof -
  from r obtain auths where a: "listing = Inr auths" by (auto simp: listing_ready_def split: sum.splits)
  obtain since fp where n: "note_listing listing now held = Some (since, fp)" and g: "time_sub now since \<ge> priorityRecoveryEmptyGrace"
    using r a by (auto simp: listing_ready_def split: option.splits)
  have d: "now - since \<ge> priorityRecoveryEmptyGrace"
    using g by (auto simp: time_sub_def priorityRecoveryEmptyGrace_def duration_units int64_min_def int64_max_def min_def max_def split: if_splits)
  then have "since \<noteq> now" by (auto simp: priorityRecoveryEmptyGrace_def duration_units)
  with n a have held: "held = Some (since, fp)" "auth_recovery_fingerprint auths = fp"
    by (auto simp: note_listing_def split: option.splits prod.splits if_splits)
  with h d a show ?thesis
    by (simp add: held_by_def stable_for_grace_def numeral_2_eq_2 ends_showing_snoc shows_fingerprint_def)
qed

text \<open>The events of the goroutine after its listings: log entries only, unless the service was still current and the lock its own.\<close>

definition only_logs :: "event list \<Rightarrow> bool" where
  "only_logs evs \<longleftrightarrow> list_all (\<lambda>e. case e of EvLog _ \<Rightarrow> True | _ \<Rightarrow> False) evs"

definition may_recover :: "(instant \<Rightarrow> bool) \<Rightarrow> (instant \<Rightarrow> bool) \<Rightarrow> ctx \<Rightarrow> instant \<Rightarrow> instant \<Rightarrow> bool" where
  "may_recover current free c from_t to_t \<longleftrightarrow> (\<exists>t. from_t \<le> t \<and> t \<le> to_t \<and> current t \<and> free t \<and> ctx_err c t = None)"

lemma give_up_events:
  "give_up H c w = (r, w') \<Longrightarrow> (\<exists>evs. w_trace w' = w_trace w @ evs \<and> only_logs evs) \<and> w_now w \<le> w_now w'"
  by (auto simp: give_up_def only_logs_def write_log_trace split: if_splits)

lemma lock_priority_free: "ctx_end c = Some e \<Longrightarrow> lock_priority free c w = Some (True, w') \<Longrightarrow> free (w_now w')"
proof (induction "nat (e - w_now w)" arbitrary: w rule: less_induct)
  case less
  obtain again w1 where s: "wait_priority_poll c w = (again, w1)" by force
  show ?case
  proof (cases "free (w_now w) \<or> \<not> again")
    case True
    then show ?thesis using less.prems(2) s by (subst (asm) lock_priority.simps) (auto split: if_splits)
  next
    case False
    then have "w_now w1 = w_now w + priorityPollInterval" "w_now w + priorityPollInterval < e"
      using sleep_True [of c priorityPollInterval w w1] s less.prems
      by (auto simp: wait_priority_poll_def priorityPollInterval_def duration_units)
    then have "nat (e - w_now w1) < nat (e - w_now w)" by (simp add: priorityPollInterval_def duration_units)
    moreover have "lock_priority free c w1 = Some (True, w')" using less.prems(2) s False by (subst (asm) lock_priority.simps) simp
    ultimately show ?thesis using less.hyps less.prems(1) by blast
  qed
qed

lemma recover_listed_events:
  assumes e: "ctx_end c = Some e" and r: "recover_listed H current free c cfg auths w = Some (r, w')"
  shows "(\<exists>evs. w_trace w' = w_trace w @ evs \<and> (only_logs evs \<or> may_recover current free c (w_now w) (w_now w'))) \<and> w_now w \<le> w_now w'"
proof -
  obtain b w1 where l: "lock_priority free c w = Some (b, w1)" and le: "w_now w \<le> w_now w1" and tr: "w_trace w1 = w_trace w"
    using lock_priority_returns [OF e] by blast
  consider (no) "\<not> b" | (stale) b "\<not> current (w_now w1) \<or> ctx_err c (w_now w1) \<noteq> None"
    | (go) b "current (w_now w1)" "ctx_err c (w_now w1) = None" by blast
  then show ?thesis
  proof cases
    case no
    then have "give_up H c w1 = (r, w')" using r l by (simp add: recover_listed_def)
    from give_up_events [OF this] show ?thesis using le tr by auto
  next
    case stale
    then have "w' = w1" using r l by (simp add: recover_listed_def)
    then show ?thesis using le tr by (auto simp: only_logs_def)
  next
    case go
    have "free (w_now w1)" using lock_priority_free [OF e] l go by simp
    with go have may: "w_now w1 \<le> t \<Longrightarrow> may_recover current free c (w_now w) t" for t using le by (auto simp: may_recover_def)
    obtain ch er w2 where rec: "recover_stale_priority_overrides H c cfg auths w1 = Some ((ch, er), w2)"
      using r l go by (cases "recover_stale_priority_overrides H c cfg auths w1") (force simp: recover_listed_def)+
    have x2: "extends w1 w2 recovery_event"
      using rec recover_loop_extends unfolding recover_stale_priority_overrides_def by (auto split: option.splits)
    have "w' = w2 \<or> (\<exists>entry. w' = write_log H entry w2)"
      using r l go rec by (cases er; cases ch) (simp_all add: recover_listed_def, blast+)
    then have "extends w2 w' (\<lambda>_. True)" using log_extends [of "\<lambda>_. True" _ w2 H] extends_refl by blast
    from extends_trans [OF extends_mono [OF x2] this] have "extends w1 w' (\<lambda>_. True)" by simp
    then obtain evs where "w_trace w' = w_trace w @ evs" "w_now w1 \<le> w_now w'" using tr by (auto simp: extends_def)
    then show ?thesis using may le by auto
  qed
qed

lemma recovery_loop_waits:
  assumes e: "ctx_end c = Some e"
  shows "recovery_loop H current free c cfg held w = Some (r, w') \<Longrightarrow> held_by held start ls \<Longrightarrow> w_trace w = pre @ map EvList ls \<Longrightarrow> start \<le> w_now w
    \<Longrightarrow> \<exists>ls' evs. w_trace w' = pre @ map EvList ls' @ evs \<and> w_now w \<le> w_now w' \<and>
      (only_logs evs \<or> (\<exists>t. stable_for_grace start t ls' \<and> may_recover current free c t (w_now w')))"
proof (induction "nat (e - w_now w)" arbitrary: w held ls rule: less_induct)
  case less
  obtain listing w1 where l: "list_auths H c w = (listing, w1)" by force
  obtain again w2 where s: "wait_recovery_retry c w1 = (again, w2)" by force
  note lt = host_call_trace(1) [OF l] and st = sleep_trace [OF s [unfolded wait_recovery_retry_def]]
  have tr: "w_trace w1 = pre @ map EvList (ls @ [listing])" using lt less.prems by simp
  have held: "held_by (note_listing listing (w_now w1) held) start (ls @ [listing])"
    using held_by_note [OF less.prems(2)] lt less.prems(4) by simp
  consider (stale) "\<not> current (w_now w)" | (ready) "current (w_now w)" "listing_ready listing (w_now w1) (note_listing listing (w_now w1) held)"
    | (over) "current (w_now w)" "\<not> listing_ready listing (w_now w1) (note_listing listing (w_now w1) held)" "\<not> again"
    | (again) "current (w_now w)" "\<not> listing_ready listing (w_now w1) (note_listing listing (w_now w1) held)" again
    by blast
  then show ?case
  proof cases
    case stale
    then have "w' = w" using less.prems(1) by (subst (asm) recovery_loop.simps) simp
    then show ?thesis using less.prems(3) by (auto simp: only_logs_def intro!: exI [of _ ls])
  next
    case ready
    then have "recover_listed H current free c cfg (projr listing) w1 = Some (r, w')"
      using less.prems(1) l by (subst (asm) recovery_loop.simps) simp
    from recover_listed_events [OF e this] obtain evs where evs: "w_trace w' = w_trace w1 @ evs"
      "only_logs evs \<or> may_recover current free c (w_now w1) (w_now w')" "w_now w1 \<le> w_now w'" by blast
    with ready_is_stable [OF less.prems(2) ready(2)] lt tr show ?thesis
      by (intro exI [of _ "ls @ [listing]"] exI [of _ evs]) auto
  next
    case over
    then have "give_up H c w2 = (r, w')" using less.prems(1) l s by (subst (asm) recovery_loop.simps) simp
    from give_up_events [OF this] obtain evs where "w_trace w' = w_trace w2 @ evs" "only_logs evs" "w_now w2 \<le> w_now w'" by blast
    with tr st lt show ?thesis by (intro exI [of _ "ls @ [listing]"] exI [of _ evs]) auto
  next
    case again
    have nxt: "recovery_loop H current free c cfg (note_listing listing (w_now w1) held) w2 = Some (r, w')"
      using again less.prems(1) l s by (subst (asm) recovery_loop.simps) simp
    have "w_now w2 = w_now w1 + 250 * millisecond" "w_now w1 + 250 * millisecond < e"
      using sleep_True [of c "250 * millisecond" w1 w2] s e again(3) by (auto simp: wait_recovery_retry_def duration_units)
    then have "nat (e - w_now w2) < nat (e - w_now w)" using lt by (simp add: duration_units)
    from less.hyps [OF this nxt held] tr st lt less.prems(4) show ?thesis by fastforce
  qed
qed



end
