(* ===== verification/Service_System.thy ===== *)
theory Service_System imports Schedule Refresh_Run Startup_Recovery begin

text \<open>
  The service with its goroutines (\<^verbatim>\<open>internal/refreshquota/service.go\<close>): a system is the state of the service, the
  contexts that have been cancelled, and what every goroutine will do next. The relation \<open>sys_step\<close> has one rule for every
  stretch of code between two points where another goroutine can come in: a critical section of \<^verbatim>\<open>s.mu\<close>, the call of a
  \<^verbatim>\<open>CancelFunc\<close>, the firing of a timer. Contexts and goroutines are numbered. A run plays the events that \<open>execute_run\<close> hands
  to the service, for some behaviour of the host and of its context; a run that does not return plays none and stays for ever.
\<close>

section \<open>Goroutines\<close>

text \<open>Where \<^verbatim>\<open>scheduleLoop\<close> stands: before it looks for the next occurrence, waiting for it, or with a run that did not start.\<close>

datatype schedule_pc = SchedLoop | SchedWaiting instant string | SchedFailed string err

record scheduler =
  sc_Cfg :: config
  sc_Generation :: u64
  sc_Pc :: schedule_pc

record recovery =
  rc_Cfg :: config
  rc_Generation :: u64
  rc_Over :: bool

text \<open>A run: its parent context, if it has one, and what it still hands to the service, \<^term>\<open>None\<close> if it never returns.\<close>

record run =
  ru_Parent :: "nat option"
  ru_Generation :: u64
  ru_ID :: string
  ru_Script :: "event list option"

text \<open>Who holds \<^verbatim>\<open>configureMu\<close>, and where it stands in \<^verbatim>\<open>ApplyConfig\<close>.\<close>

datatype configure_pc =
    ConfFree
  | ConfCancel "nat list" "(config \<times> u64) option"
  | ConfScheduler config u64
  | ConfRecovery config u64

record system =
  sy_sv :: service
  sy_Now :: instant
  sy_Cancelled :: "nat set"
  sy_Fresh :: nat
  sy_Conf :: configure_pc
  sy_Stop :: "nat list"
  sy_Schedulers :: "nat \<rightharpoonup> scheduler"
  sy_Recoveries :: "nat \<rightharpoonup> recovery"
  sy_Runs :: "nat \<rightharpoonup> run"
  sy_Manual :: "(config \<times> u64) list"

definition initial_system :: "instant \<Rightarrow> system" where
  "initial_system now =
     \<lparr> sy_sv = new_service, sy_Now = now, sy_Cancelled = {}, sy_Fresh = 0, sy_Conf = ConfFree, sy_Stop = [],
       sy_Schedulers = Map.empty, sy_Recoveries = Map.empty, sy_Runs = Map.empty, sy_Manual = [] \<rparr>"

section \<open>What the goroutines do\<close>

text \<open>\<^verbatim>\<open>ApplyConfig\<close> after its cancellations, and after \<^verbatim>\<open>startScheduler\<close>.\<close>

definition after_scheduler :: "config \<Rightarrow> u64 \<Rightarrow> configure_pc" where
  "after_scheduler cfg generation = (if cf_HostEnabled cfg then ConfRecovery (config_clone cfg) generation else ConfFree)"

definition after_cancel :: "(config \<times> u64) option \<Rightarrow> configure_pc" where
  "after_cancel k =
     (case k of None \<Rightarrow> ConfFree
      | Some (cfg, generation) \<Rightarrow>
          if cf_HostEnabled cfg \<and> cf_ScheduleEnabled cfg then ConfScheduler (config_clone cfg) generation
          else after_scheduler cfg generation)"

definition to_configure :: "err + config \<Rightarrow> u64 \<Rightarrow> (config \<times> u64) option" where
  "to_configure parsed generation = (case parsed of Inl _ \<Rightarrow> None | Inr cfg \<Rightarrow> Some (cfg, generation))"

text \<open>The top of the loop of \<^verbatim>\<open>scheduleLoop\<close>: the occurrence to wait for, or the end of the goroutine.\<close>

definition schedule_next :: "location \<Rightarrow> instant \<Rightarrow> scheduler \<Rightarrow> service \<Rightarrow> scheduler option \<times> service" where
  "schedule_next time_local now x sv =
     (case next_occurrence now (cf_Location (sc_Cfg x)) (cf_Times (sc_Cfg x)) of
        None \<Rightarrow> (None, clear_next (sc_Generation x) sv)
      | Some (at, label) \<Rightarrow>
          let occurrenceID = occurrence_id time_local at (cf_Location (sc_Cfg x)) label
          in (Some (x\<lparr>sc_Pc := SchedWaiting at occurrenceID\<rparr>),
              publish_next (sc_Generation x) at occurrenceID (the (cf_Location (sc_Cfg x))) sv))"

definition start_run ::
  "config \<Rightarrow> u64 \<Rightarrow> string \<Rightarrow> string \<Rightarrow> manual_run_options \<Rightarrow> err + bytes \<Rightarrow> instant \<Rightarrow> nat \<Rightarrow> service \<Rightarrow> (err + run_report) \<times> service"
where
  "start_run cfg generation trigger occurrenceID options rand now ctx sv =
     (case start_run_check cfg rand of
        Inl e \<Rightarrow> (Inl e, sv)
      | Inr runID \<Rightarrow> start_run_locked cfg generation trigger occurrenceID options runID now ctx sv)"

definition scheduled_options :: manual_run_options where
  "scheduled_options = \<lparr> mo_DryRun = False, mo_AuthIndices = [] \<rparr>"

text \<open>What \<^verbatim>\<open>executeRun\<close> can hand to the service.\<close>

definition run_script :: "'h host \<Rightarrow> config \<Rightarrow> manual_run_options \<Rightarrow> run_report \<Rightarrow> event list option \<Rightarrow> bool" where
  "run_script H cfg options report script \<longleftrightarrow>
     (\<exists>lockWait c w. case execute_run H lockWait c cfg options report w of
        None \<Rightarrow> script = None
      | Some (_, w') \<Rightarrow> \<exists>evs. w_trace w' = w_trace w @ evs \<and> script = Some (svc evs))"

definition recovery_outcome :: "'h host \<Rightarrow> config \<Rightarrow> recovery_end \<Rightarrow> bool" where
  "recovery_outcome H cfg r \<longleftrightarrow> (\<exists>current free cancelled w w'. startup_recovery H current free cancelled cfg w = Some (r, w'))"

definition launch :: "nat option \<Rightarrow> u64 \<Rightarrow> run_report \<Rightarrow> event list option \<Rightarrow> system \<Rightarrow> system" where
  "launch parent generation report script s =
     s\<lparr>sy_Fresh := Suc (sy_Fresh s),
       sy_Runs := (sy_Runs s)(sy_Fresh s \<mapsto>
         \<lparr> ru_Parent = parent, ru_Generation = generation, ru_ID = rr_RunID report, ru_Script = script \<rparr>)\<rparr>"

section \<open>Steps\<close>

inductive sys_step :: "'h host \<Rightarrow> (bytes \<Rightarrow> err + config) \<Rightarrow> location \<Rightarrow> system \<Rightarrow> system \<Rightarrow> bool"
  for H parse time_local where
  tick: "0 \<le> d \<Longrightarrow> sys_step H parse time_local s (s\<lparr>sy_Now := sy_Now s + d\<rparr>)"
| configure: "sy_Conf s = ConfFree \<Longrightarrow> apply_config_locked (parse raw) (sy_sv s) = (ApplyInstalled generation cancels, sv') \<Longrightarrow>
    generation \<noteq> 0 \<Longrightarrow>
    sys_step H parse time_local s (s\<lparr>sy_sv := sv', sy_Conf := ConfCancel cancels (to_configure (parse raw) generation)\<rparr>)"
| configure_cancel: "sy_Conf s = ConfCancel (c # cs) k \<Longrightarrow>
    sys_step H parse time_local s (s\<lparr>sy_Cancelled := insert c (sy_Cancelled s), sy_Conf := ConfCancel cs k\<rparr>)"
| configure_cancelled: "sy_Conf s = ConfCancel [] k \<Longrightarrow> sys_step H parse time_local s (s\<lparr>sy_Conf := after_cancel k\<rparr>)"
| start_scheduler: "sy_Conf s = ConfScheduler cfg generation \<Longrightarrow>
    start_scheduler_locked generation (sy_Fresh s) (sy_sv s) = (ok, sv') \<Longrightarrow>
    sys_step H parse time_local s (s\<lparr>sy_sv := sv', sy_Fresh := Suc (sy_Fresh s), sy_Conf := after_scheduler cfg generation,
      sy_Schedulers := (if ok then (sy_Schedulers s)(sy_Fresh s \<mapsto> \<lparr> sc_Cfg = cfg, sc_Generation = generation, sc_Pc = SchedLoop \<rparr>)
                        else sy_Schedulers s)\<rparr>)"
| start_recovery: "sy_Conf s = ConfRecovery cfg generation \<Longrightarrow>
    start_priority_recovery_locked generation (sy_Fresh s) (sy_sv s) = (ok, sv') \<Longrightarrow>
    sys_step H parse time_local s (s\<lparr>sy_sv := sv', sy_Fresh := Suc (sy_Fresh s), sy_Conf := ConfFree,
      sy_Recoveries := (if ok then (sy_Recoveries s)(sy_Fresh s \<mapsto> \<lparr> rc_Cfg = cfg, rc_Generation = generation, rc_Over = False \<rparr>)
                        else sy_Recoveries s)\<rparr>)"
| schedule: "sy_Schedulers s c = Some x \<Longrightarrow> sc_Pc x = SchedLoop \<Longrightarrow> schedule_next time_local (sy_Now s) x (sy_sv s) = (Some x', sv') \<Longrightarrow>
    sys_step H parse time_local s (s\<lparr>sy_sv := sv', sy_Schedulers := (sy_Schedulers s)(c \<mapsto> x')\<rparr>)"
| schedule_ends: "sy_Schedulers s c = Some x \<Longrightarrow> sc_Pc x = SchedLoop \<Longrightarrow> schedule_next time_local (sy_Now s) x (sy_sv s) = (None, sv') \<Longrightarrow>
    sys_step H parse time_local s (s\<lparr>sy_sv := sv', sy_Schedulers := (sy_Schedulers s)(c := None)\<rparr>)"
| schedule_cancelled: "sy_Schedulers s c = Some x \<Longrightarrow> sc_Pc x = SchedWaiting at occurrenceID \<Longrightarrow> c \<in> sy_Cancelled s \<Longrightarrow>
    sys_step H parse time_local s (s\<lparr>sy_sv := clear_next (sc_Generation x) (sy_sv s), sy_Schedulers := (sy_Schedulers s)(c := None)\<rparr>)"
| scheduled_run: "sy_Schedulers s c = Some x \<Longrightarrow> sc_Pc x = SchedWaiting at occurrenceID \<Longrightarrow> at \<le> sy_Now s \<Longrightarrow>
    start_run (sc_Cfg x) (sc_Generation x) ''scheduled'' occurrenceID scheduled_options rand (sy_Now s) (sy_Fresh s) (sy_sv s) = (Inr report, sv') \<Longrightarrow>
    run_script H (config_clone (sc_Cfg x)) scheduled_options report script \<Longrightarrow>
    sys_step H parse time_local s (launch (Some c) (sc_Generation x) report script
      (s\<lparr>sy_sv := sv', sy_Schedulers := (sy_Schedulers s)(c \<mapsto> x\<lparr>sc_Pc := SchedLoop\<rparr>)\<rparr>))"
| scheduled_miss: "sy_Schedulers s c = Some x \<Longrightarrow> sc_Pc x = SchedWaiting at occurrenceID \<Longrightarrow> at \<le> sy_Now s \<Longrightarrow>
    start_run (sc_Cfg x) (sc_Generation x) ''scheduled'' occurrenceID scheduled_options rand (sy_Now s) (sy_Fresh s) (sy_sv s) = (Inl e, sv') \<Longrightarrow>
    sys_step H parse time_local s (s\<lparr>sy_sv := sv', sy_Schedulers := (sy_Schedulers s)(c \<mapsto> x\<lparr>sc_Pc := SchedFailed occurrenceID e\<rparr>)\<rparr>)"
| schedule_error: "sy_Schedulers s c = Some x \<Longrightarrow> sc_Pc x = SchedFailed occurrenceID e \<Longrightarrow>
    sys_step H parse time_local s (s\<lparr>sy_sv := fst (handle_schedule_start_error occurrenceID e (sy_sv s)),
      sy_Schedulers := (sy_Schedulers s)(c \<mapsto> x\<lparr>sc_Pc := SchedLoop\<rparr>)\<rparr>)"
| manual: "sys_step H parse time_local s
    (s\<lparr>sy_Manual := (config_clone (sv_config (sy_sv s)), sv_configGeneration (sy_sv s)) # sy_Manual s\<rparr>)"
| manual_run: "sy_Manual s = ms @ (cfg, generation) # ms' \<Longrightarrow>
    start_run cfg generation ''manual'' [] options rand (sy_Now s) (sy_Fresh s) (sy_sv s) = (Inr report, sv') \<Longrightarrow>
    run_script H (config_clone cfg) options report script \<Longrightarrow>
    sys_step H parse time_local s (launch None generation report script (s\<lparr>sy_sv := sv', sy_Manual := ms @ ms'\<rparr>))"
| manual_refused: "sy_Manual s = ms @ (cfg, generation) # ms' \<Longrightarrow>
    start_run cfg generation ''manual'' [] options rand (sy_Now s) (sy_Fresh s) (sy_sv s) = (Inl e, sv') \<Longrightarrow>
    sys_step H parse time_local s (s\<lparr>sy_sv := sv', sy_Manual := ms @ ms'\<rparr>)"
| run_publish: "sy_Runs s c = Some x \<Longrightarrow> ru_Script x = Some (EvPublish report # script) \<Longrightarrow>
    sys_step H parse time_local s (s\<lparr>sy_sv := publish_active report (sy_sv s), sy_Runs := (sy_Runs s)(c \<mapsto> x\<lparr>ru_Script := Some script\<rparr>)\<rparr>)"
| run_finish: "sy_Runs s c = Some x \<Longrightarrow> ru_Script x = Some (EvFinish report # script) \<Longrightarrow>
    sys_step H parse time_local s (s\<lparr>sy_sv := finish_run_locked report (sy_sv s), sy_Runs := (sy_Runs s)(c \<mapsto> x\<lparr>ru_Script := Some script\<rparr>)\<rparr>)"
| run_exit: "sy_Runs s c = Some x \<Longrightarrow> ru_Script x = Some [] \<Longrightarrow>
    sys_step H parse time_local s (s\<lparr>sy_Cancelled := insert c (sy_Cancelled s), sy_Runs := (sy_Runs s)(c := None)\<rparr>)"
| recovery_ends: "sy_Recoveries s c = Some x \<Longrightarrow> \<not> rc_Over x \<Longrightarrow> recovery_outcome H (rc_Cfg x) r \<Longrightarrow>
    sys_step H parse time_local s (s\<lparr>sy_sv := apply_recovery_end (rc_Generation x) r (sy_sv s),
      sy_Recoveries := (sy_Recoveries s)(c \<mapsto> x\<lparr>rc_Over := True\<rparr>)\<rparr>)"
| recovery_exit: "sy_Recoveries s c = Some x \<Longrightarrow> rc_Over x \<Longrightarrow>
    sys_step H parse time_local s (s\<lparr>sy_sv := end_priority_recovery (rc_Generation x) (sy_sv s),
      sy_Cancelled := insert c (sy_Cancelled s), sy_Recoveries := (sy_Recoveries s)(c := None)\<rparr>)"
| shutdown: "sy_Conf s = ConfFree \<Longrightarrow> shutdown_locked (sy_sv s) = (Some cancels, sv') \<Longrightarrow>
    sys_step H parse time_local s (s\<lparr>sy_sv := sv', sy_Stop := cancels\<rparr>)"
| shutdown_cancel: "sy_Stop s = c # cs \<Longrightarrow>
    sys_step H parse time_local s (s\<lparr>sy_Cancelled := insert c (sy_Cancelled s), sy_Stop := cs\<rparr>)"

inductive sys_reach :: "'h host \<Rightarrow> (bytes \<Rightarrow> err + config) \<Rightarrow> location \<Rightarrow> system \<Rightarrow> bool"
  for H parse time_local where
  reach_init: "sys_reach H parse time_local (initial_system now)"
| reach_step: "sys_reach H parse time_local s \<Longrightarrow> sys_step H parse time_local s s' \<Longrightarrow> sys_reach H parse time_local s'"

section \<open>What the operations leave alone\<close>

lemma publish_next_frame [simp]:
  "sv_running (publish_next g at occ l sv) = sv_running sv" "sv_stopped (publish_next g at occ l sv) = sv_stopped sv"
  "sv_configGeneration (publish_next g at occ l sv) = sv_configGeneration sv" "sv_config (publish_next g at occ l sv) = sv_config sv"
  "sv_active (publish_next g at occ l sv) = sv_active sv" "sv_activeCancel (publish_next g at occ l sv) = sv_activeCancel sv"
  "sv_schedulerCancel (publish_next g at occ l sv) = sv_schedulerCancel sv" "sv_recoveryCancel (publish_next g at occ l sv) = sv_recoveryCancel sv"
  "sv_recoveryGeneration (publish_next g at occ l sv) = sv_recoveryGeneration sv"
  "sv_priorityRecoveryPending (publish_next g at occ l sv) = sv_priorityRecoveryPending sv"
  "sv_occurrences (publish_next g at occ l sv) = sv_occurrences sv" "sv_occurrenceOrder (publish_next g at occ l sv) = sv_occurrenceOrder sv"
  by (simp_all add: publish_next_def)

lemma clear_next_frame [simp]:
  "sv_running (clear_next g sv) = sv_running sv" "sv_stopped (clear_next g sv) = sv_stopped sv"
  "sv_configGeneration (clear_next g sv) = sv_configGeneration sv" "sv_config (clear_next g sv) = sv_config sv"
  "sv_active (clear_next g sv) = sv_active sv" "sv_activeCancel (clear_next g sv) = sv_activeCancel sv"
  "sv_schedulerCancel (clear_next g sv) = sv_schedulerCancel sv" "sv_recoveryCancel (clear_next g sv) = sv_recoveryCancel sv"
  "sv_recoveryGeneration (clear_next g sv) = sv_recoveryGeneration sv" "sv_priorityRecoveryPending (clear_next g sv) = sv_priorityRecoveryPending sv"
  "sv_occurrences (clear_next g sv) = sv_occurrences sv" "sv_occurrenceOrder (clear_next g sv) = sv_occurrenceOrder sv"
  by (simp_all add: clear_next_def)

lemma start_error_frame [simp]:
  "sv_running (fst (handle_schedule_start_error occ e sv)) = sv_running sv" "sv_stopped (fst (handle_schedule_start_error occ e sv)) = sv_stopped sv"
  "sv_configGeneration (fst (handle_schedule_start_error occ e sv)) = sv_configGeneration sv"
  "sv_config (fst (handle_schedule_start_error occ e sv)) = sv_config sv" "sv_active (fst (handle_schedule_start_error occ e sv)) = sv_active sv"
  "sv_activeCancel (fst (handle_schedule_start_error occ e sv)) = sv_activeCancel sv"
  "sv_schedulerCancel (fst (handle_schedule_start_error occ e sv)) = sv_schedulerCancel sv"
  "sv_recoveryCancel (fst (handle_schedule_start_error occ e sv)) = sv_recoveryCancel sv"
  "sv_recoveryGeneration (fst (handle_schedule_start_error occ e sv)) = sv_recoveryGeneration sv"
  "sv_priorityRecoveryPending (fst (handle_schedule_start_error occ e sv)) = sv_priorityRecoveryPending sv"
  "sv_next (fst (handle_schedule_start_error occ e sv)) = sv_next sv"
  "sv_occurrences (fst (handle_schedule_start_error occ e sv)) = sv_occurrences sv"
  "sv_occurrenceOrder (fst (handle_schedule_start_error occ e sv)) = sv_occurrenceOrder sv"
  by (simp_all add: handle_schedule_start_error_def)

lemma publish_active_frame [simp]:
  "sv_running (publish_active rep sv) = sv_running sv" "sv_stopped (publish_active rep sv) = sv_stopped sv"
  "sv_configGeneration (publish_active rep sv) = sv_configGeneration sv" "sv_config (publish_active rep sv) = sv_config sv"
  "sv_activeCancel (publish_active rep sv) = sv_activeCancel sv" "sv_schedulerCancel (publish_active rep sv) = sv_schedulerCancel sv"
  "sv_recoveryCancel (publish_active rep sv) = sv_recoveryCancel sv" "sv_recoveryGeneration (publish_active rep sv) = sv_recoveryGeneration sv"
  "sv_priorityRecoveryPending (publish_active rep sv) = sv_priorityRecoveryPending sv" "sv_next (publish_active rep sv) = sv_next sv"
  "sv_occurrences (publish_active rep sv) = sv_occurrences sv" "sv_occurrenceOrder (publish_active rep sv) = sv_occurrenceOrder sv"
  by (simp_all add: publish_active_def split: option.splits)

lemma set_result_frame [simp]:
  "sv_running (set_priority_recovery_result g e sv) = sv_running sv" "sv_stopped (set_priority_recovery_result g e sv) = sv_stopped sv"
  "sv_configGeneration (set_priority_recovery_result g e sv) = sv_configGeneration sv"
  "sv_config (set_priority_recovery_result g e sv) = sv_config sv" "sv_active (set_priority_recovery_result g e sv) = sv_active sv"
  "sv_activeCancel (set_priority_recovery_result g e sv) = sv_activeCancel sv"
  "sv_schedulerCancel (set_priority_recovery_result g e sv) = sv_schedulerCancel sv"
  "sv_recoveryCancel (set_priority_recovery_result g e sv) = sv_recoveryCancel sv"
  "sv_recoveryGeneration (set_priority_recovery_result g e sv) = sv_recoveryGeneration sv"
  "sv_next (set_priority_recovery_result g e sv) = sv_next sv" "sv_occurrences (set_priority_recovery_result g e sv) = sv_occurrences sv"
  "sv_occurrenceOrder (set_priority_recovery_result g e sv) = sv_occurrenceOrder sv"
  by (simp_all add: set_priority_recovery_result_def)

lemma end_recovery_frame [simp]:
  "sv_running (end_priority_recovery g sv) = sv_running sv" "sv_stopped (end_priority_recovery g sv) = sv_stopped sv"
  "sv_configGeneration (end_priority_recovery g sv) = sv_configGeneration sv" "sv_config (end_priority_recovery g sv) = sv_config sv"
  "sv_active (end_priority_recovery g sv) = sv_active sv" "sv_activeCancel (end_priority_recovery g sv) = sv_activeCancel sv"
  "sv_schedulerCancel (end_priority_recovery g sv) = sv_schedulerCancel sv" "sv_next (end_priority_recovery g sv) = sv_next sv"
  "sv_occurrences (end_priority_recovery g sv) = sv_occurrences sv" "sv_occurrenceOrder (end_priority_recovery g sv) = sv_occurrenceOrder sv"
  by (simp_all add: end_priority_recovery_def)

lemma finish_run_frame [simp]:
  "sv_stopped (finish_run_locked rep sv) = sv_stopped sv" "sv_configGeneration (finish_run_locked rep sv) = sv_configGeneration sv"
  "sv_config (finish_run_locked rep sv) = sv_config sv" "sv_schedulerCancel (finish_run_locked rep sv) = sv_schedulerCancel sv"
  "sv_recoveryCancel (finish_run_locked rep sv) = sv_recoveryCancel sv" "sv_recoveryGeneration (finish_run_locked rep sv) = sv_recoveryGeneration sv"
  "sv_priorityRecoveryPending (finish_run_locked rep sv) = sv_priorityRecoveryPending sv" "sv_next (finish_run_locked rep sv) = sv_next sv"
  "sv_occurrences (finish_run_locked rep sv) = sv_occurrences sv" "sv_occurrenceOrder (finish_run_locked rep sv) = sv_occurrenceOrder sv"
  by (simp_all add: finish_run_locked_def split: option.splits)

lemma recovery_end_frame [simp]:
  "sv_running (apply_recovery_end g r sv) = sv_running sv" "sv_stopped (apply_recovery_end g r sv) = sv_stopped sv"
  "sv_configGeneration (apply_recovery_end g r sv) = sv_configGeneration sv" "sv_config (apply_recovery_end g r sv) = sv_config sv"
  "sv_active (apply_recovery_end g r sv) = sv_active sv" "sv_activeCancel (apply_recovery_end g r sv) = sv_activeCancel sv"
  "sv_schedulerCancel (apply_recovery_end g r sv) = sv_schedulerCancel sv" "sv_recoveryCancel (apply_recovery_end g r sv) = sv_recoveryCancel sv"
  "sv_recoveryGeneration (apply_recovery_end g r sv) = sv_recoveryGeneration sv" "sv_next (apply_recovery_end g r sv) = sv_next sv"
  "sv_occurrences (apply_recovery_end g r sv) = sv_occurrences sv" "sv_occurrenceOrder (apply_recovery_end g r sv) = sv_occurrenceOrder sv"
  by (simp_all add: apply_recovery_end_def report_priority_recovery_timeout_def set_priority_recovery_result_def split: recovery_end.splits)


lemma start_run_Inr:
  assumes "start_run cfg generation trigger occ options rand now ctx sv = (Inr report, sv')"
  shows "start_allowed cfg generation sv" "occ = [] \<or> occ \<notin> sv_occurrences sv" "\<not> sv_running sv"
    "sv' = (remember_occurrence occ sv)\<lparr>sv_running := True, sv_active := Some report, sv_activeCancel := Some ctx\<rparr>"
    "rr_OccurrenceID report = occ" "rr_StartedAt report = now"
proof -
  obtain runID where "start_run_locked cfg generation trigger occ options runID now ctx sv = (Inr report, sv')"
    using assms by (auto simp: start_run_def split: sum.splits)
  then have "start_allowed cfg generation sv \<and> (occ = [] \<or> occ \<notin> sv_occurrences sv) \<and> \<not> sv_running sv \<and>
      sv' = (remember_occurrence occ sv)\<lparr>sv_running := True, sv_active := Some report, sv_activeCancel := Some ctx\<rparr> \<and>
      rr_OccurrenceID report = occ \<and> rr_StartedAt report = now"
    by (cases rule: start_run_cases [of cfg generation sv trigger occ options runID now ctx]) auto
  then show "start_allowed cfg generation sv" "occ = [] \<or> occ \<notin> sv_occurrences sv" "\<not> sv_running sv"
    "sv' = (remember_occurrence occ sv)\<lparr>sv_running := True, sv_active := Some report, sv_activeCancel := Some ctx\<rparr>"
    "rr_OccurrenceID report = occ" "rr_StartedAt report = now"
    by blast+
qed

lemma start_run_Inl:
  assumes "start_run cfg generation trigger occ options rand now ctx sv = (Inl e, sv')"
  shows "sv' = sv \<or> sv' = remember_occurrence occ sv \<and> (occ = [] \<or> occ \<notin> sv_occurrences sv)"
proof -
  have "sv' = sv \<or> (\<exists>runID. start_run_locked cfg generation trigger occ options runID now ctx sv = (Inl e, sv'))"
    using assms by (auto simp: start_run_def split: sum.splits)
  moreover have "sv' = sv \<or> sv' = remember_occurrence occ sv \<and> (occ = [] \<or> occ \<notin> sv_occurrences sv)"
    if "start_run_locked cfg generation trigger occ options runID now ctx sv = (Inl e, sv')" for runID
    using that by (cases rule: start_run_cases [of cfg generation sv trigger occ options runID now ctx]) auto
  ultimately show ?thesis by blast
qed

lemma start_run_Inl_frame:
  assumes "start_run cfg generation trigger occ options rand now ctx sv = (Inl e, sv')"
  shows "sv_running sv' = sv_running sv" "sv_active sv' = sv_active sv" "sv_activeCancel sv' = sv_activeCancel sv" "sv_stopped sv' = sv_stopped sv"
    "sv_configGeneration sv' = sv_configGeneration sv" "sv_schedulerCancel sv' = sv_schedulerCancel sv" "sv_next sv' = sv_next sv"
    "sv_recoveryCancel sv' = sv_recoveryCancel sv" "sv_recoveryGeneration sv' = sv_recoveryGeneration sv"
    "sv_priorityRecoveryPending sv' = sv_priorityRecoveryPending sv" "sv_config sv' = sv_config sv"
  using start_run_Inl [OF assms] by auto

lemma apply_config_Installed:
  assumes "apply_config_locked parsed sv = (ApplyInstalled generation cancels, sv')"
  shows "\<not> sv_stopped sv" "generation = sv_configGeneration sv + 1" "sv_configGeneration sv' = generation" "\<not> sv_stopped sv'"
    "cancels = to_list (sv_schedulerCancel sv) @ to_list (sv_activeCancel sv) @ to_list (sv_recoveryCancel sv)"
    "sv_running sv' = sv_running sv" "sv_active sv' = sv_active sv" "sv_activeCancel sv' = sv_activeCancel sv" "sv_schedulerCancel sv' = None"
    "sv_recoveryCancel sv' = None" "sv_recoveryGeneration sv' = 0" "sv_priorityRecoveryPending sv' = False" "sv_next sv' = None"
    "sv_occurrences sv' = sv_occurrences sv" "sv_occurrenceOrder sv' = sv_occurrenceOrder sv"
    "parsed = Inr cfg \<Longrightarrow> sv_config sv' = cfg \<and> sv_configError sv' = []"
  using assms by (auto simp: apply_config_locked_def Let_def config_clone_def split: if_splits sum.splits)

lemma shutdown_Some:
  assumes "shutdown_locked sv = (Some cancels, sv')"
  shows "\<not> sv_stopped sv" "cancels = to_list (sv_schedulerCancel sv) @ to_list (sv_activeCancel sv) @ to_list (sv_recoveryCancel sv)"
    "sv' = sv\<lparr>sv_stopped := True, sv_next := None, sv_schedulerCancel := None, sv_recoveryCancel := None,
              sv_recoveryGeneration := 0, sv_priorityRecoveryPending := False\<rparr>"
  using assms by (auto simp: shutdown_locked_def split: if_splits)

lemma schedule_next_frame:
  assumes "schedule_next time_local now x sv = (x', sv')"
  shows "sv_running sv' = sv_running sv" "sv_active sv' = sv_active sv" "sv_activeCancel sv' = sv_activeCancel sv" "sv_stopped sv' = sv_stopped sv"
    "sv_configGeneration sv' = sv_configGeneration sv" "sv_schedulerCancel sv' = sv_schedulerCancel sv" "sv_config sv' = sv_config sv"
    "sv_recoveryCancel sv' = sv_recoveryCancel sv" "sv_recoveryGeneration sv' = sv_recoveryGeneration sv"
    "sv_priorityRecoveryPending sv' = sv_priorityRecoveryPending sv" "sv_occurrences sv' = sv_occurrences sv"
    "sv_occurrenceOrder sv' = sv_occurrenceOrder sv"
  using assms by (auto simp: schedule_next_def publish_next_def Let_def split: option.splits if_splits)

lemma schedule_next_cases:
  assumes "schedule_next time_local now x sv = (x', sv')"
  shows "x' = None \<Longrightarrow> sv' = clear_next (sc_Generation x) sv"
    "x' = Some y \<Longrightarrow> sc_Generation y = sc_Generation x \<and> sc_Cfg y = sc_Cfg x"
    "x' = Some y \<Longrightarrow> sv_next sv' \<noteq> sv_next sv \<Longrightarrow> \<not> sv_stopped sv \<and> sc_Generation x = sv_configGeneration sv"
  using assms by (auto simp: schedule_next_def publish_next_def Let_def split: option.splits if_splits)

lemma to_list_simps [simp]: "to_list None = []" "to_list (Some a) = [a]"
  by (simp_all add: to_list_def)

end
