(* ===== verification/Service_Safety.thy ===== *)
theory Service_Safety imports Service_System begin

text \<open>
  What holds in every state the service can reach, whatever the order in which its goroutines get to run: one run at a time,
  nothing of an older configuration left uncancelled, a schedule published only by a goroutine that is there.
  Each invariant is stated by itself and kept by every step.
\<close>

section \<open>Numbers\<close>

definition numbers_ok :: "system \<Rightarrow> bool" where
  "numbers_ok s \<longleftrightarrow> (\<forall>c\<ge>sy_Fresh s. sy_Schedulers s c = None \<and> sy_Recoveries s c = None \<and> sy_Runs s c = None)"

lemma numbers_okD:
  "numbers_ok s \<Longrightarrow> sy_Schedulers s c = Some x \<Longrightarrow> c < sy_Fresh s"
  "numbers_ok s \<Longrightarrow> sy_Recoveries s c = Some y \<Longrightarrow> c < sy_Fresh s"
  "numbers_ok s \<Longrightarrow> sy_Runs s c = Some z \<Longrightarrow> c < sy_Fresh s"
  by (fastforce simp: numbers_ok_def not_le [symmetric])+

lemma numbers_ok_new [simp]:
  "numbers_ok s \<Longrightarrow> sy_Schedulers s (sy_Fresh s) = None" "numbers_ok s \<Longrightarrow> sy_Recoveries s (sy_Fresh s) = None"
  "numbers_ok s \<Longrightarrow> sy_Runs s (sy_Fresh s) = None"
  by (simp_all add: numbers_ok_def)

lemma numbers_ok_step: "sys_step H parse time_local s s' \<Longrightarrow> numbers_ok s \<Longrightarrow> numbers_ok s'"
  by (cases rule: sys_step.cases, assumption) (auto simp: numbers_ok_def launch_def)

section \<open>One run at a time\<close>

definition unfinished :: "system \<Rightarrow> nat \<Rightarrow> bool" where
  "unfinished s c \<longleftrightarrow> (case sy_Runs s c of None \<Rightarrow> False | Some x \<Rightarrow> ru_Script x \<noteq> Some [])"

fun script_of :: "string \<Rightarrow> event list \<Rightarrow> bool" where
  "script_of i [] = True"
| "script_of i (EvPublish r # evs) = (rr_RunID r = i \<and> evs \<noteq> [] \<and> script_of i evs)"
| "script_of i (EvFinish r # evs) = (rr_RunID r = i \<and> evs = [])"
| "script_of i (_ # _) = False"

lemma script_of_reports: "list_all (\<lambda>r. rr_RunID r = i) reports \<Longrightarrow> rr_RunID rep = i \<Longrightarrow> script_of i (map EvPublish reports @ [EvFinish rep])"
  by (induction reports) auto

lemma run_script_cases:
  assumes "run_script H cfg options report script"
  obtains (stuck) "script = None" | (plays) evs where "script = Some evs" "evs \<noteq> []" "script_of (rr_RunID report) evs"
proof -
  from assms obtain lockWait c w where e: "case execute_run H lockWait c cfg options report w of
        None \<Rightarrow> script = None | Some (_, w') \<Rightarrow> \<exists>evs. w_trace w' = w_trace w @ evs \<and> script = Some (svc evs)"
    by (auto simp: run_script_def)
  show thesis
  proof (cases "execute_run H lockWait c cfg options report w")
    case None
    then show ?thesis using e stuck by simp
  next
    case (Some p)
    obtain rep w' where p: "p = (rep, w')" by force
    with Some e obtain evs where evs: "w_trace w' = w_trace w @ evs" "script = Some (svc evs)" by auto
    from execute_run_trace [OF Some [unfolded p]] obtain evs' where "w_trace w' = w_trace w @ evs'" "run_trace cfg options report rep evs'" by blast
    with evs run_trace_service have "\<exists>reports. svc evs = map EvPublish reports @ [EvFinish rep] \<and>
        list_all (\<lambda>r. rr_RunID r = rr_RunID report) reports \<and> rr_RunID rep = rr_RunID report" by fastforce
    then show ?thesis using evs script_of_reports by (intro plays) auto
  qed
qed

definition flight_ok :: "system \<Rightarrow> bool" where
  "flight_ok s \<longleftrightarrow>
     (\<forall>c x evs. sy_Runs s c = Some x \<longrightarrow> ru_Script x = Some evs \<longrightarrow> script_of (ru_ID x) evs) \<and>
     (if sv_running (sy_sv s)
      then \<exists>c x report. (\<forall>c'. unfinished s c' \<longleftrightarrow> c' = c) \<and> sy_Runs s c = Some x \<and> sv_activeCancel (sy_sv s) = Some c \<and>
             sv_active (sy_sv s) = Some report \<and> rr_RunID report = ru_ID x
      else (\<forall>c. \<not> unfinished s c) \<and> sv_active (sy_sv s) = None \<and> sv_activeCancel (sy_sv s) = None)"

lemma flight_script: "flight_ok s \<Longrightarrow> sy_Runs s c = Some x \<Longrightarrow> ru_Script x = Some evs \<Longrightarrow> script_of (ru_ID x) evs"
  by (simp add: flight_ok_def)

lemma flight_cong:
  assumes "flight_ok s" "sy_Runs s' = sy_Runs s" "sv_running (sy_sv s') = sv_running (sy_sv s)" "sv_active (sy_sv s') = sv_active (sy_sv s)"
    "sv_activeCancel (sy_sv s') = sv_activeCancel (sy_sv s)"
  shows "flight_ok s'"
proof -
  have u: "unfinished s' = unfinished s" by (simp add: fun_eq_iff unfinished_def assms(2))
  show ?thesis using assms(1) unfolding flight_ok_def u assms(2-5) .
qed

text \<open>A new run, when none is active.\<close>

lemma flight_launch:
  assumes "flight_ok s" "numbers_ok s" "\<not> sv_running (sy_sv s)" "run_script H cfg options report script"
    "sy_Runs s1 = sy_Runs s" "sy_Fresh s1 = sy_Fresh s" "sv_running (sy_sv s1)" "sv_active (sy_sv s1) = Some report"
    "sv_activeCancel (sy_sv s1) = Some (sy_Fresh s)"
  shows "flight_ok (launch parent generation report script s1)"
proof -
  have sc: "script \<noteq> Some []" "\<And>evs. script = Some evs \<Longrightarrow> script_of (rr_RunID report) evs"
    using assms(4) by (auto elim: run_script_cases)
  have u: "unfinished (launch parent generation report script s1) c' \<longleftrightarrow> c' = sy_Fresh s" for c'
    using assms(1,3,5,6) sc by (auto simp: flight_ok_def unfinished_def launch_def)
  show ?thesis using assms u sc by (auto simp: flight_ok_def launch_def)
qed

text \<open>A run moves on in its script: it is the active one, and its reports are about itself.\<close>

lemma flight_active:
  assumes "flight_ok s" "sy_Runs s c = Some x" "ru_Script x \<noteq> Some []"
  shows "sv_running (sy_sv s)" "\<And>c'. unfinished s c' \<longleftrightarrow> c' = c" "sv_activeCancel (sy_sv s) = Some c"
    "\<exists>report. sv_active (sy_sv s) = Some report \<and> rr_RunID report = ru_ID x"
proof -
  have "unfinished s c" using assms(2,3) by (simp add: unfinished_def)
  with assms(1) show r: "sv_running (sy_sv s)" by (auto simp: flight_ok_def split: if_splits)
  with assms(1) obtain c1 x1 report where "\<forall>c'. unfinished s c' \<longleftrightarrow> c' = c1" "sy_Runs s c1 = Some x1" "sv_activeCancel (sy_sv s) = Some c1"
    "sv_active (sy_sv s) = Some report" "rr_RunID report = ru_ID x1"
    by (auto simp: flight_ok_def)
  with \<open>unfinished s c\<close> assms(2) show "\<And>c'. unfinished s c' \<longleftrightarrow> c' = c" "sv_activeCancel (sy_sv s) = Some c"
    "\<exists>report. sv_active (sy_sv s) = Some report \<and> rr_RunID report = ru_ID x" by auto
qed

lemma flight_ok_step:
  assumes "sys_step H parse time_local s s'" "flight_ok s" "numbers_ok s"
  shows "flight_ok s'"
  using assms(1)
proof cases
  case (configure raw generation cancels sv')
  then show ?thesis using apply_config_Installed [OF configure(3)] by (intro flight_cong [OF assms(2)]) simp_all
next
  case (start_scheduler cfg generation ok sv')
  then show ?thesis by (intro flight_cong [OF assms(2)]) (auto simp: start_scheduler_locked_def split: if_splits)
next
  case (start_recovery cfg generation ok sv')
  then show ?thesis by (intro flight_cong [OF assms(2)]) (auto simp: start_priority_recovery_locked_def split: if_splits)
next
  case (schedule c x x' sv')
  then show ?thesis using schedule_next_frame [OF schedule(4)] by (intro flight_cong [OF assms(2)]) simp_all
next
  case (schedule_ends c x sv')
  then show ?thesis using schedule_next_frame [OF schedule_ends(4)] by (intro flight_cong [OF assms(2)]) simp_all
next
  case (scheduled_run c x at occurrenceID rand report sv' script)
  note st = start_run_Inr [OF scheduled_run(5)]
  show ?thesis unfolding scheduled_run(1) by (rule flight_launch [OF assms(2,3) st(3) scheduled_run(6)]) (simp_all add: st(4))
next
  case (manual_run ms cfg generation ms' options rand report sv' script)
  note st = start_run_Inr [OF manual_run(3)]
  show ?thesis unfolding manual_run(1) by (rule flight_launch [OF assms(2,3) st(3) manual_run(4)]) (simp_all add: st(4))
next
  case (run_publish c x report script)
  note f = flight_active [OF assms(2) run_publish(2)]
  have sc: "rr_RunID report = ru_ID x" "script \<noteq> []" "script_of (ru_ID x) script"
    using flight_script [OF assms(2) run_publish(2,3)] by simp_all
  have u: "unfinished s' c' \<longleftrightarrow> c' = c" for c' using f(2) sc(2) run_publish(1,3) by (auto simp: unfinished_def)
  have "sv_active (publish_active report (sy_sv s)) = Some report"
    using f(4) sc(1) run_publish(3) by (auto simp: publish_active_def clone_run_report_def)
  with f u sc assms(2) run_publish show ?thesis by (auto simp: flight_ok_def)
next
  case (run_finish c x report script)
  note f = flight_active [OF assms(2) run_finish(2)]
  have sc: "rr_RunID report = ru_ID x" "script = []" using flight_script [OF assms(2) run_finish(2,3)] by simp_all
  have u: "\<not> unfinished s' c'" for c' using f(2) sc(2) run_finish(1,3) by (auto simp: unfinished_def)
  have fin: "finish_run_locked report (sy_sv s) = (sy_sv s)\<lparr>sv_active := None, sv_running := False, sv_activeCancel := None, sv_last := Some report\<rparr>"
    using f(4) sc(1) run_finish(3) by (auto simp: finish_run_locked_def clone_run_report_def)
  with u sc assms(2) run_finish(1,2) show ?thesis by (auto simp: flight_ok_def)
next
  case (run_exit c x)
  then have u: "unfinished s' = unfinished s" and gone: "\<not> unfinished s c" by (auto simp: unfinished_def fun_eq_iff)
  have scripts: "\<forall>c x evs. sy_Runs s' c = Some x \<longrightarrow> ru_Script x = Some evs \<longrightarrow> script_of (ru_ID x) evs"
    using run_exit flight_script [OF assms(2)] by auto
  show ?thesis
  proof (cases "sv_running (sy_sv s)")
    case True
    with assms(2) obtain c1 x1 report where "\<forall>c'. unfinished s c' \<longleftrightarrow> c' = c1" "sy_Runs s c1 = Some x1" "sv_activeCancel (sy_sv s) = Some c1"
      "sv_active (sy_sv s) = Some report" "rr_RunID report = ru_ID x1"
      by (auto simp: flight_ok_def)
    moreover from this(1) gone have "c1 \<noteq> c" by blast
    ultimately show ?thesis using True u run_exit scripts
      unfolding flight_ok_def by (intro conjI) (simp_all, blast+)
  next
    case False
    then show ?thesis using assms(2) u run_exit scripts unfolding flight_ok_def by (intro conjI) simp_all
  qed
next
  case (shutdown cancels sv')
  then show ?thesis using shutdown_Some [OF shutdown(3)] by (intro flight_cong [OF assms(2)]) simp_all
qed (rule flight_cong [OF assms(2)]; simp add: start_run_Inl_frame)+

section \<open>Generations\<close>

definition current :: "system \<Rightarrow> u64 \<Rightarrow> bool" where
  "current s generation \<longleftrightarrow> \<not> sv_stopped (sy_sv s) \<and> generation = sv_configGeneration (sy_sv s)"

definition generations_ok :: "system \<Rightarrow> bool" where
  "generations_ok s \<longleftrightarrow>
     (\<forall>c x. sy_Schedulers s c = Some x \<longrightarrow> sc_Generation x \<noteq> 0 \<and> sc_Generation x \<le> sv_configGeneration (sy_sv s)) \<and>
     (\<forall>c x. sy_Recoveries s c = Some x \<longrightarrow> rc_Generation x \<noteq> 0 \<and> rc_Generation x \<le> sv_configGeneration (sy_sv s)) \<and>
     (\<forall>c x. sy_Runs s c = Some x \<longrightarrow> ru_Generation x \<le> sv_configGeneration (sy_sv s)) \<and>
     (\<forall>m\<in>set (sy_Manual s). snd m \<le> sv_configGeneration (sy_sv s)) \<and>
     (sv_recoveryGeneration (sy_sv s) \<noteq> 0 \<longrightarrow> current s (sv_recoveryGeneration (sy_sv s))) \<and>
     (\<not> sv_stopped (sy_sv s) \<longrightarrow> sy_Stop s = [])"

text \<open>While \<^verbatim>\<open>ApplyConfig\<close> is at work it is for the current generation, whose goroutines it is still to start.\<close>

definition unscheduled :: "system \<Rightarrow> u64 \<Rightarrow> bool" where
  "unscheduled s generation \<longleftrightarrow> (\<forall>c x. sy_Schedulers s c = Some x \<longrightarrow> sc_Generation x \<noteq> generation)"

definition unrecovered :: "system \<Rightarrow> u64 \<Rightarrow> bool" where
  "unrecovered s generation \<longleftrightarrow> (\<forall>c x. sy_Recoveries s c = Some x \<longrightarrow> rc_Generation x \<noteq> generation)"

definition configure_ok :: "system \<Rightarrow> bool" where
  "configure_ok s \<longleftrightarrow>
     (case sy_Conf s of
        ConfFree \<Rightarrow> True
      | ConfCancel _ None \<Rightarrow> True
      | ConfCancel _ (Some (_, g)) \<Rightarrow> g \<noteq> 0 \<and> current s g \<and> unscheduled s g \<and> unrecovered s g
      | ConfScheduler _ g \<Rightarrow> g \<noteq> 0 \<and> current s g \<and> unscheduled s g \<and> unrecovered s g
      | ConfRecovery _ g \<Rightarrow> g \<noteq> 0 \<and> current s g \<and> unrecovered s g)"

lemma next_generation: "(g::u64) \<le> h \<Longrightarrow> h + 1 \<noteq> 0 \<Longrightarrow> g < h + 1"
  using unatSuc [of h] by (simp add: word_less_nat_alt word_le_nat_alt add.commute)

lemma generations_ok_step:
  assumes "sys_step H parse time_local s s'" "generations_ok s" "configure_ok s"
  shows "generations_ok s'"
  using assms(1)
proof cases
  case (configure raw generation cancels sv')
  note ap = apply_config_Installed [OF configure(3)]
  from ap(2) configure(4) have "g \<le> sv_configGeneration (sy_sv s) \<Longrightarrow> g \<le> generation" for g
    using next_generation [of g "sv_configGeneration (sy_sv s)"] by (simp add: less_imp_le)
  then show ?thesis using assms(2) configure(1) ap by (auto simp: generations_ok_def)
next
  case (start_scheduler cfg generation ok sv')
  then show ?thesis using assms(2,3)
    by (auto simp: generations_ok_def configure_ok_def current_def start_scheduler_locked_def split: if_splits)
next
  case (start_recovery cfg generation ok sv')
  then show ?thesis using assms(2,3)
    by (auto simp: generations_ok_def configure_ok_def current_def start_priority_recovery_locked_def split: if_splits)
next
  case (schedule c x x' sv')
  then show ?thesis using schedule_next_frame [OF schedule(4)] schedule_next_cases(2) [OF schedule(4)] assms(2)
    by (auto simp: generations_ok_def current_def)
next
  case (schedule_ends c x sv')
  then show ?thesis using schedule_next_frame [OF schedule_ends(4)] assms(2) by (auto simp: generations_ok_def current_def)
next
  case (scheduled_run c x at occurrenceID rand report sv' script)
  note st = start_run_Inr [OF scheduled_run(5)]
  show ?thesis unfolding scheduled_run(1) using assms(2) st(1) scheduled_run(2)
    by (auto simp: generations_ok_def current_def launch_def st(4) start_allowed_def)
next
  case (scheduled_miss c x at occurrenceID rand e sv')
  then show ?thesis using start_run_Inl_frame [OF scheduled_miss(5)] assms(2) by (auto simp: generations_ok_def current_def)
next
  case (manual_run ms cfg generation ms' options rand report sv' script)
  note st = start_run_Inr [OF manual_run(3)]
  show ?thesis unfolding manual_run(1) using assms(2) st(1) manual_run(2)
    by (auto simp: generations_ok_def current_def launch_def st(4) start_allowed_def)
next
  case (manual_refused ms cfg generation ms' options rand e sv')
  then show ?thesis using start_run_Inl_frame [OF manual_refused(3)] assms(2) by (auto simp: generations_ok_def current_def)
next
  case (shutdown cancels sv')
  then show ?thesis using shutdown_Some [OF shutdown(3)] assms(2) by (auto simp: generations_ok_def current_def)
qed (use assms(2) in \<open>auto simp: generations_ok_def current_def end_priority_recovery_def\<close>)

lemma configure_ok_step:
  assumes "sys_step H parse time_local s s'" "generations_ok s" "configure_ok s"
  shows "configure_ok s'"
  using assms(1)
proof cases
  case (configure raw generation cancels sv')
  note ap = apply_config_Installed [OF configure(3)]
  from ap(2) configure(4) have "g \<le> sv_configGeneration (sy_sv s) \<Longrightarrow> g \<noteq> generation" for g
    using next_generation [of g "sv_configGeneration (sy_sv s)"] by auto
  then show ?thesis using assms(2) configure(1,4) ap
    by (auto simp: configure_ok_def generations_ok_def current_def unscheduled_def unrecovered_def to_configure_def split: sum.splits)
next
  case (configure_cancelled k)
  then show ?thesis using assms(3)
    by (auto simp: configure_ok_def after_cancel_def after_scheduler_def current_def unscheduled_def unrecovered_def split: option.splits)
next
  case (start_scheduler cfg generation ok sv')
  then show ?thesis using assms(3)
    by (auto simp: configure_ok_def after_scheduler_def current_def unrecovered_def start_scheduler_locked_def split: if_splits)
next
  case (schedule c x x' sv')
  then show ?thesis using schedule_next_frame [OF schedule(4)] schedule_next_cases(2) [OF schedule(4)] assms(3)
    by (auto simp: configure_ok_def current_def unscheduled_def unrecovered_def split: configure_pc.splits option.splits)
next
  case (schedule_ends c x sv')
  then show ?thesis using schedule_next_frame [OF schedule_ends(4)] assms(3)
    by (auto simp: configure_ok_def current_def unscheduled_def unrecovered_def split: configure_pc.splits option.splits)
next
  case (scheduled_run c x at occurrenceID rand report sv' script)
  note st = start_run_Inr [OF scheduled_run(5)]
  show ?thesis unfolding scheduled_run(1) using assms(3) scheduled_run(2)
    by (auto simp: configure_ok_def launch_def st(4) current_def unscheduled_def unrecovered_def split: configure_pc.splits option.splits)
next
  case (scheduled_miss c x at occurrenceID rand e sv')
  then show ?thesis using start_run_Inl_frame [OF scheduled_miss(5)] assms(3)
    by (auto simp: configure_ok_def current_def unscheduled_def unrecovered_def split: configure_pc.splits option.splits)
next
  case (manual_run ms cfg generation ms' options rand report sv' script)
  note st = start_run_Inr [OF manual_run(3)]
  show ?thesis unfolding manual_run(1) using assms(3)
    by (auto simp: configure_ok_def launch_def st(4) current_def unscheduled_def unrecovered_def split: configure_pc.splits option.splits)
next
  case (manual_refused ms cfg generation ms' options rand e sv')
  then show ?thesis using start_run_Inl_frame [OF manual_refused(3)] assms(3)
    by (auto simp: configure_ok_def current_def unscheduled_def unrecovered_def split: configure_pc.splits option.splits)
qed (use assms(3) in \<open>auto simp: configure_ok_def current_def unscheduled_def unrecovered_def split: configure_pc.splits option.splits\<close>)

section \<open>Nothing of the past goes on\<close>

text \<open>The contexts whose end is certain: cancelled already, or on the list that \<^verbatim>\<open>ApplyConfig\<close> or \<^verbatim>\<open>Shutdown\<close> is working off.\<close>

fun to_cancel :: "configure_pc \<Rightarrow> nat list" where
  "to_cancel (ConfCancel cs _) = cs"
| "to_cancel _ = []"

definition doomed :: "system \<Rightarrow> nat \<Rightarrow> bool" where
  "doomed s c \<longleftrightarrow> c \<in> sy_Cancelled s \<or> c \<in> set (to_cancel (sy_Conf s)) \<or> c \<in> set (sy_Stop s)"

definition scheduler_kept :: "system \<Rightarrow> nat \<Rightarrow> u64 \<Rightarrow> bool" where
  "scheduler_kept s c g \<longleftrightarrow> (current s g \<longrightarrow> sv_schedulerCancel (sy_sv s) = Some c) \<and> (current s g \<or> doomed s c)"

definition recovery_kept :: "system \<Rightarrow> nat \<Rightarrow> u64 \<Rightarrow> bool" where
  "recovery_kept s c g \<longleftrightarrow>
     (current s g \<longrightarrow> sv_recoveryCancel (sy_sv s) = Some c \<and> sv_recoveryGeneration (sy_sv s) = g) \<and> (current s g \<or> doomed s c)"

definition current_or_doomed :: "system \<Rightarrow> bool" where
  "current_or_doomed s \<longleftrightarrow>
     (\<forall>c x. sy_Schedulers s c = Some x \<longrightarrow> scheduler_kept s c (sc_Generation x)) \<and>
     (\<forall>c x. sy_Recoveries s c = Some x \<longrightarrow> recovery_kept s c (rc_Generation x)) \<and>
     (\<forall>c x. sy_Runs s c = Some x \<longrightarrow> ru_Script x \<noteq> Some [] \<longrightarrow> current s (ru_Generation x) \<or> doomed s c)"

lemma current_or_doomed_cases:
  "current_or_doomed s \<Longrightarrow> sy_Schedulers s c = Some x \<Longrightarrow> sv_schedulerCancel (sy_sv s) = Some c \<or> doomed s c"
  "current_or_doomed s \<Longrightarrow> sy_Recoveries s c = Some y \<Longrightarrow> sv_recoveryCancel (sy_sv s) = Some c \<or> doomed s c"
  by (auto simp: current_or_doomed_def scheduler_kept_def recovery_kept_def)

text \<open>A step that leaves the generation and the cancel functions alone, and starts only what is current.\<close>

lemma kept_step:
  assumes "\<And>c. doomed s c \<Longrightarrow> doomed s' c" "sv_stopped (sy_sv s') = sv_stopped (sy_sv s)"
    "sv_configGeneration (sy_sv s') = sv_configGeneration (sy_sv s)"
  shows "sv_schedulerCancel (sy_sv s') = sv_schedulerCancel (sy_sv s) \<Longrightarrow> scheduler_kept s c g \<Longrightarrow> scheduler_kept s' c g"
    "sv_recoveryCancel (sy_sv s') = sv_recoveryCancel (sy_sv s) \<Longrightarrow> sv_recoveryGeneration (sy_sv s') = sv_recoveryGeneration (sy_sv s) \<Longrightarrow>
      recovery_kept s c g \<Longrightarrow> recovery_kept s' c g"
    "current s' = current s"
  using assms by (auto simp: scheduler_kept_def recovery_kept_def current_def fun_eq_iff)

lemma current_or_doomedI:
  assumes ok: "current_or_doomed s" and mono: "\<And>c. doomed s c \<Longrightarrow> doomed s' c" and sv: "sv_stopped (sy_sv s') = sv_stopped (sy_sv s)"
    "sv_configGeneration (sy_sv s') = sv_configGeneration (sy_sv s)" "sv_schedulerCancel (sy_sv s') = sv_schedulerCancel (sy_sv s)"
    "sv_recoveryCancel (sy_sv s') = sv_recoveryCancel (sy_sv s)" "sv_recoveryGeneration (sy_sv s') = sv_recoveryGeneration (sy_sv s)"
    and gs: "\<And>c x'. sy_Schedulers s' c = Some x' \<Longrightarrow> \<exists>x. sy_Schedulers s c = Some x \<and> sc_Generation x' = sc_Generation x"
      "\<And>c x'. sy_Recoveries s' c = Some x' \<Longrightarrow> \<exists>x. sy_Recoveries s c = Some x \<and> rc_Generation x' = rc_Generation x"
      "\<And>c x'. sy_Runs s' c = Some x' \<Longrightarrow> ru_Script x' \<noteq> Some [] \<Longrightarrow>
         current s (ru_Generation x') \<or> (\<exists>x. sy_Runs s c = Some x \<and> ru_Generation x' = ru_Generation x \<and> ru_Script x \<noteq> Some [])"
  shows "current_or_doomed s'"
proof -
  note kept = kept_step [OF mono sv(1,2)]
  have "scheduler_kept s' c (sc_Generation x')" if a: "sy_Schedulers s' c = Some x'" for c x'
  proof -
    obtain x where "sy_Schedulers s c = Some x" "sc_Generation x' = sc_Generation x" using gs(1) [OF a] by blast
    then show ?thesis using ok kept(1) [OF _ sv(3)] by (auto simp: current_or_doomed_def)
  qed
  moreover have "recovery_kept s' c (rc_Generation x')" if a: "sy_Recoveries s' c = Some x'" for c x'
  proof -
    obtain x where "sy_Recoveries s c = Some x" "rc_Generation x' = rc_Generation x" using gs(2) [OF a] by blast
    then show ?thesis using ok kept(2) [OF _ sv(4,5)] by (auto simp: current_or_doomed_def)
  qed
  moreover have "current s' (ru_Generation x') \<or> doomed s' c" if a: "sy_Runs s' c = Some x'" "ru_Script x' \<noteq> Some []" for c x'
  proof -
    from gs(3) [OF a] ok have "current s (ru_Generation x') \<or> doomed s c" unfolding current_or_doomed_def by metis
    then show ?thesis using mono [of c] kept(3) by auto
  qed
  ultimately show ?thesis by (simp add: current_or_doomed_def)
qed

lemma doomed_step: "sys_step H parse time_local s s' \<Longrightarrow> generations_ok s \<Longrightarrow> doomed s c \<Longrightarrow> doomed s' c"
proof (cases rule: sys_step.cases, assumption)
  fix cancels sv'
  assume "s' = s\<lparr>sy_sv := sv', sy_Stop := cancels\<rparr>" "shutdown_locked (sy_sv s) = (Some cancels, sv')" "generations_ok s" "doomed s c"
  then show ?thesis using shutdown_Some(1) by (auto simp: doomed_def generations_ok_def)
qed (auto simp: doomed_def launch_def after_cancel_def after_scheduler_def split: option.splits)

lemma current_or_doomed_step:
  assumes st: "sys_step H parse time_local s s'" and ok: "current_or_doomed s"
    and inv: "generations_ok s" "configure_ok s" "flight_ok s"
  shows "current_or_doomed s'"
  using st
proof cases
  note d = doomed_step [OF st inv(1)]
  note same = current_or_doomedI [OF ok d]
  {
    case (configure raw generation cancels sv')
    note ap = apply_config_Installed [OF configure(3)]
    have old: "g \<le> sv_configGeneration (sy_sv s) \<Longrightarrow> g \<noteq> generation" for g
      using next_generation [of g "sv_configGeneration (sy_sv s)"] ap(2) configure(4) by auto
    have p: "set cancels \<subseteq> set (to_cancel (sy_Conf s'))" using configure(1) by simp
    have cur: "current s' g \<longleftrightarrow> g = generation" for g using ap configure(1) by (simp add: current_def)
    have "doomed s' c" if "sy_Schedulers s c = Some x" for c x
      using current_or_doomed_cases(1) [OF ok that] p d [of c] by (auto simp: doomed_def [of s'] ap(5))
    moreover have "doomed s' c" if "sy_Recoveries s c = Some x" for c x
      using current_or_doomed_cases(2) [OF ok that] p d [of c] by (auto simp: doomed_def [of s'] ap(5))
    moreover have "doomed s' c" if "sy_Runs s c = Some x" "ru_Script x \<noteq> Some []" for c x
      using flight_active(3) [OF inv(3) that] p by (auto simp: doomed_def ap(5))
    ultimately show ?thesis using inv(1) old configure(1)
      unfolding current_or_doomed_def scheduler_kept_def recovery_kept_def cur by (auto simp: generations_ok_def)
  next
    case (shutdown cancels sv')
    note sh = shutdown_Some [OF shutdown(3)]
    have p: "set cancels \<subseteq> set (sy_Stop s')" and cur: "\<not> current s' g" for g using shutdown(1) sh by (simp_all add: current_def)
    have "doomed s' c" if "sy_Schedulers s c = Some x" for c x
      using current_or_doomed_cases(1) [OF ok that] p d [of c] by (auto simp: doomed_def [of s'] sh(2))
    moreover have "doomed s' c" if "sy_Recoveries s c = Some x" for c x
      using current_or_doomed_cases(2) [OF ok that] p d [of c] by (auto simp: doomed_def [of s'] sh(2))
    moreover have "doomed s' c" if "sy_Runs s c = Some x" "ru_Script x \<noteq> Some []" for c x
      using flight_active(3) [OF inv(3) that] p by (auto simp: doomed_def sh(2))
    ultimately show ?thesis using shutdown(1) cur unfolding current_or_doomed_def scheduler_kept_def recovery_kept_def by auto
  next
    case (start_scheduler cfg generation ok' sv')
    have n: "ok'" "generation = sv_configGeneration (sy_sv s)" "sv' = (sy_sv s)\<lparr>sv_schedulerCancel := Some (sy_Fresh s)\<rparr>"
      using start_scheduler(2,3) inv(2) by (auto simp: start_scheduler_locked_def configure_ok_def current_def split: if_splits)
    have "scheduler_kept s' c (sc_Generation x)" if "sy_Schedulers s c = Some x" for c x
    proof -
      have "\<not> current s (sc_Generation x)" "scheduler_kept s c (sc_Generation x)" using that inv(2) ok start_scheduler(2)
        by (auto simp: configure_ok_def unscheduled_def current_def current_or_doomed_def)
      then have "doomed s' c" "\<not> current s' (sc_Generation x)"
        using d [of c] n start_scheduler(1) by (auto simp: scheduler_kept_def current_def)
      then show ?thesis by (simp add: scheduler_kept_def)
    qed
    moreover have "scheduler_kept s' (sy_Fresh s) generation" using n start_scheduler(1,2) inv(2)
      by (simp add: scheduler_kept_def configure_ok_def current_def)
    moreover have "recovery_kept s' c g" if "recovery_kept s c g" for c g
      using kept_step(2) [OF d _ _ _ _ that] n start_scheduler(1) by simp
    moreover have "current s' = current s" using n start_scheduler(1) by (simp add: current_def fun_eq_iff)
    ultimately show ?thesis using ok d n(1,2) start_scheduler(1) unfolding current_or_doomed_def by simp blast
  next
    case (start_recovery cfg generation ok' sv')
    have n: "ok'" "generation = sv_configGeneration (sy_sv s)"
        "sv' = (sy_sv s)\<lparr>sv_recoveryCancel := Some (sy_Fresh s), sv_recoveryGeneration := generation,
                       sv_priorityRecoveryPending := True, sv_priorityRecoveryError := []\<rparr>"
      using start_recovery(2,3) inv(2) by (auto simp: start_priority_recovery_locked_def configure_ok_def current_def split: if_splits)
    have "recovery_kept s' c (rc_Generation x)" if "sy_Recoveries s c = Some x" for c x
    proof -
      have "\<not> current s (rc_Generation x)" "recovery_kept s c (rc_Generation x)" using that inv(2) ok start_recovery(2)
        by (auto simp: configure_ok_def unrecovered_def current_def current_or_doomed_def)
      then have "doomed s' c" "\<not> current s' (rc_Generation x)"
        using d [of c] n start_recovery(1) by (auto simp: recovery_kept_def current_def)
      then show ?thesis by (simp add: recovery_kept_def)
    qed
    moreover have "recovery_kept s' (sy_Fresh s) generation" using n start_recovery(1,2) inv(2)
      by (simp add: recovery_kept_def configure_ok_def current_def)
    moreover have "scheduler_kept s' c g" if "scheduler_kept s c g" for c g
      using kept_step(1) [OF d _ _ _ that] n start_recovery(1) by simp
    moreover have "current s' = current s" using n start_recovery(1) by (simp add: current_def fun_eq_iff)
    ultimately show ?thesis using ok d n(1,2) start_recovery(1) unfolding current_or_doomed_def by simp blast
  next
    case (schedule c x x' sv')
    then show ?thesis using schedule_next_frame [OF schedule(4)] schedule_next_cases(2) [OF schedule(4)]
      by (intro same) (auto split: if_splits)
  next
    case (schedule_ends c x sv')
    then show ?thesis using schedule_next_frame [OF schedule_ends(4)] by (intro same) (auto split: if_splits)
  next
    case (scheduled_run c x at occurrenceID rand report sv' script)
    note sr = start_run_Inr [OF scheduled_run(5)]
    show ?thesis using sr(1) scheduled_run(2) unfolding scheduled_run(1)
      by (intro same [unfolded scheduled_run(1)]) (auto simp: current_def launch_def sr(4) start_allowed_def split: if_splits)
  next
    case (scheduled_miss c x at occurrenceID rand e sv')
    then show ?thesis using start_run_Inl_frame [OF scheduled_miss(5)] by (intro same) (auto split: if_splits)
  next
    case (manual_run ms cfg generation ms' options rand report sv' script)
    note sr = start_run_Inr [OF manual_run(3)]
    show ?thesis using sr(1) unfolding manual_run(1)
      by (intro same [unfolded manual_run(1)]) (auto simp: current_def launch_def sr(4) start_allowed_def split: if_splits)
  next
    case (manual_refused ms cfg generation ms' options rand e sv')
    then show ?thesis using start_run_Inl_frame [OF manual_refused(3)] by (intro same) (auto split: if_splits)
  next
    case (recovery_exit c x)
    have "recovery_kept s' c' (rc_Generation y)" if y: "c' \<noteq> c" "sy_Recoveries s c' = Some y" for c' y
    proof -
      have k: "recovery_kept s c' (rc_Generation y)" "recovery_kept s c (rc_Generation x)"
        using ok y(2) recovery_exit(2) by (auto simp: current_or_doomed_def)
      have cs: "current s' = current s" using recovery_exit(1) by (simp add: current_def fun_eq_iff)
      show ?thesis
      proof (cases "current s (rc_Generation y)")
        case True
        with k y(1) have "rc_Generation y \<noteq> rc_Generation x" by (auto simp: recovery_kept_def)
        with True k(1) show ?thesis using recovery_exit(1) cs by (simp add: recovery_kept_def end_priority_recovery_def)
      next
        case False
        then show ?thesis using k(1) d [of c'] cs by (simp add: recovery_kept_def)
      qed
    qed
    moreover have "scheduler_kept s' c g" if "scheduler_kept s c g" for c g
      using kept_step(1) [OF d _ _ _ that] recovery_exit(1) by simp
    moreover have "current s' = current s" using recovery_exit(1) by (simp add: current_def fun_eq_iff)
    ultimately show ?thesis using ok d recovery_exit(1) unfolding current_or_doomed_def by simp blast
  }
qed (rule current_or_doomedI [OF ok doomed_step [OF st inv(1)]]; auto split: if_splits)+

section \<open>What the service shows\<close>

text \<open>A next run is shown only while a scheduler of the current generation is there, a pending recovery only while its goroutine is.\<close>

definition shown_ok :: "system \<Rightarrow> bool" where
  "shown_ok s \<longleftrightarrow>
     (sv_next (sy_sv s) \<noteq> None \<longrightarrow> (\<exists>c x. sy_Schedulers s c = Some x \<and> current s (sc_Generation x))) \<and>
     (sv_priorityRecoveryPending (sy_sv s) \<longrightarrow> (\<exists>c x. sy_Recoveries s c = Some x \<and> rc_Generation x = sv_recoveryGeneration (sy_sv s)))"

lemma recovery_end_pending: "sv_priorityRecoveryPending (apply_recovery_end g r sv) \<Longrightarrow> sv_priorityRecoveryPending sv"
  by (auto simp: apply_recovery_end_def report_priority_recovery_timeout_def set_priority_recovery_result_def split: recovery_end.splits if_splits)

text \<open>Both parts keep when no goroutine of their kind goes and the service does not show more.\<close>

lemma shown_okI:
  assumes ok: "shown_ok s" and sv: "sv_stopped (sy_sv s') = sv_stopped (sy_sv s)" "sv_configGeneration (sy_sv s') = sv_configGeneration (sy_sv s)"
    "sv_recoveryGeneration (sy_sv s') = sv_recoveryGeneration (sy_sv s)"
    and shows_less: "sv_next (sy_sv s') \<noteq> None \<Longrightarrow> sv_next (sy_sv s) \<noteq> None" "sv_priorityRecoveryPending (sy_sv s') \<Longrightarrow> sv_priorityRecoveryPending (sy_sv s)"
    and stays: "\<And>c x. sv_next (sy_sv s') \<noteq> None \<Longrightarrow> sy_Schedulers s c = Some x \<Longrightarrow> current s (sc_Generation x) \<Longrightarrow>
      \<exists>x'. sy_Schedulers s' c = Some x' \<and> sc_Generation x' = sc_Generation x"
      "\<And>c x. sy_Recoveries s c = Some x \<Longrightarrow> \<exists>x'. sy_Recoveries s' c = Some x' \<and> rc_Generation x' = rc_Generation x"
  shows "shown_ok s'"
proof -
  have cs: "current s' = current s" using sv by (simp add: current_def fun_eq_iff)
  have "\<exists>c x. sy_Schedulers s' c = Some x \<and> current s' (sc_Generation x)" if n: "sv_next (sy_sv s') \<noteq> None"
  proof -
    from shows_less(1) [OF n] ok obtain c x where "sy_Schedulers s c = Some x" "current s (sc_Generation x)" unfolding shown_ok_def by blast
    moreover from stays(1) [OF n this] obtain x' where "sy_Schedulers s' c = Some x'" "sc_Generation x' = sc_Generation x" by blast
    ultimately have "sy_Schedulers s' c = Some x' \<and> current s' (sc_Generation x')" by (simp add: cs)
    then show ?thesis by blast
  qed
  moreover have "\<exists>c x. sy_Recoveries s' c = Some x \<and> rc_Generation x = sv_recoveryGeneration (sy_sv s')" if n: "sv_priorityRecoveryPending (sy_sv s')"
  proof -
    from shows_less(2) [OF n] ok obtain c x where "sy_Recoveries s c = Some x" "rc_Generation x = sv_recoveryGeneration (sy_sv s)"
      unfolding shown_ok_def by blast
    with stays(2) [OF this(1)] sv(3) show ?thesis by auto
  qed
  ultimately show ?thesis by (simp add: shown_ok_def)
qed

lemma clear_next_Some: "sv_next (clear_next g sv) \<noteq> None \<Longrightarrow> g \<noteq> sv_configGeneration sv \<and> sv_next sv \<noteq> None"
  by (simp add: clear_next_def split: if_splits)

lemma shown_ok_step:
  assumes st: "sys_step H parse time_local s s'" and ok: "shown_ok s" and inv: "configure_ok s" "numbers_ok s"
  shows "shown_ok s'"
  using st
proof cases
  case (configure raw generation cancels sv')
  then show ?thesis using apply_config_Installed [OF configure(3)] by (simp add: shown_ok_def)
next
  case (shutdown cancels sv')
  then show ?thesis using shutdown_Some [OF shutdown(3)] by (simp add: shown_ok_def)
next
  case (start_scheduler cfg generation ok' sv')
  then show ?thesis using inv(2) by (intro shown_okI [OF ok]) (auto simp: start_scheduler_locked_def split: if_splits)
next
  case (start_recovery cfg generation ok' sv')
  have n: "ok'" "generation = sv_configGeneration (sy_sv s)"
      "sv' = (sy_sv s)\<lparr>sv_recoveryCancel := Some (sy_Fresh s), sv_recoveryGeneration := generation,
                     sv_priorityRecoveryPending := True, sv_priorityRecoveryError := []\<rparr>"
    using start_recovery(2,3) inv(1) by (auto simp: start_priority_recovery_locked_def configure_ok_def current_def split: if_splits)
  then show ?thesis using ok start_recovery(1) by (auto simp: shown_ok_def current_def)
next
  case (schedule c x x' sv')
  note fr = schedule_next_frame [OF schedule(4)] and cs = schedule_next_cases(2,3) [OF schedule(4) refl]
  show ?thesis
  proof (cases "sv_next sv' = sv_next (sy_sv s)")
    case True
    then show ?thesis using fr cs(1) schedule(1,2) by (intro shown_okI [OF ok]) (auto split: if_splits)
  next
    case False
    then have "current s' (sc_Generation x')" using cs fr schedule(1) by (simp add: current_def)
    moreover have "sy_Schedulers s' c = Some x'" using schedule(1) by simp
    ultimately show ?thesis using ok schedule(1) fr unfolding shown_ok_def by auto
  qed
next
  case (schedule_ends c x sv')
  have e: "sv' = clear_next (sc_Generation x) (sy_sv s)" using schedule_next_cases(1) [OF schedule_ends(4)] by simp
  show ?thesis using schedule_ends(1,2) clear_next_Some [of "sc_Generation x" "sy_sv s"]
    by (intro shown_okI [OF ok]) (auto simp: e current_def split: if_splits)
next
  case (schedule_cancelled c x at occurrenceID)
  then show ?thesis using clear_next_Some [of "sc_Generation x" "sy_sv s"]
    by (intro shown_okI [OF ok]) (auto simp: current_def split: if_splits)
next
  case (scheduled_run c x at occurrenceID rand report sv' script)
  note sr = start_run_Inr [OF scheduled_run(5)]
  show ?thesis using scheduled_run(2) unfolding scheduled_run(1)
    by (intro shown_okI [OF ok]) (auto simp: launch_def sr(4) split: if_splits)
next
  case (scheduled_miss c x at occurrenceID rand e sv')
  then show ?thesis using start_run_Inl_frame [OF scheduled_miss(5)] by (intro shown_okI [OF ok]) (auto split: if_splits)
next
  case (manual_run ms cfg generation ms' options rand report sv' script)
  note sr = start_run_Inr [OF manual_run(3)]
  show ?thesis unfolding manual_run(1) by (intro shown_okI [OF ok]) (auto simp: launch_def sr(4) split: if_splits)
next
  case (manual_refused ms cfg generation ms' options rand e sv')
  then show ?thesis using start_run_Inl_frame [OF manual_refused(3)] by (intro shown_okI [OF ok]) (auto split: if_splits)
next
  case (recovery_ends c x r)
  then show ?thesis using recovery_end_pending by (intro shown_okI [OF ok]) (auto split: if_splits)
next
  case (recovery_exit c x)
  have "\<exists>c x. sy_Recoveries s' c = Some x \<and> rc_Generation x = sv_recoveryGeneration (sy_sv s')" if p: "sv_priorityRecoveryPending (sy_sv s')"
  proof -
    have g: "rc_Generation x \<noteq> sv_recoveryGeneration (sy_sv s)" "sv_priorityRecoveryPending (sy_sv s)"
      using p recovery_exit(1) by (auto simp: end_priority_recovery_def split: if_splits)
    with ok obtain c' y where "sy_Recoveries s c' = Some y" "rc_Generation y = sv_recoveryGeneration (sy_sv s)" unfolding shown_ok_def by blast
    moreover from this g recovery_exit(2) have "c' \<noteq> c" by auto
    ultimately show ?thesis using recovery_exit(1) g by (auto simp: end_priority_recovery_def intro!: exI [of _ c'])
  qed
  then show ?thesis using ok recovery_exit(1) by (simp add: shown_ok_def current_def)
qed (rule shown_okI [OF ok]; auto split: if_splits)+

section \<open>The memory of occurrences\<close>

lemma occurrences_ok_cong:
  "occurrences_ok sv \<Longrightarrow> sv_occurrences sv' = sv_occurrences sv \<Longrightarrow> sv_occurrenceOrder sv' = sv_occurrenceOrder sv \<Longrightarrow> occurrences_ok sv'"
  by (simp add: occurrences_ok_def)

lemma remember_occurrence_keeps: "occurrences_ok sv \<Longrightarrow> x = [] \<or> x \<notin> sv_occurrences sv \<Longrightarrow> occurrences_ok (remember_occurrence x sv)"
  using remember_occurrence_ok [of sv x] by (cases "x = []") (simp add: remember_occurrence_def, blast)

lemma start_run_occurrences: "start_run cfg g trigger occ options rand now ctx sv = (r, sv') \<Longrightarrow> occurrences_ok sv \<Longrightarrow> occurrences_ok sv'"
proof (cases r)
  case (Inl e)
  assume "start_run cfg g trigger occ options rand now ctx sv = (r, sv')" "occurrences_ok sv"
  from start_run_Inl [OF this(1) [unfolded Inl]] remember_occurrence_keeps [OF this(2)] this(2) show ?thesis by auto
next
  case (Inr report)
  assume "start_run cfg g trigger occ options rand now ctx sv = (r, sv')" "occurrences_ok sv"
  note sr = start_run_Inr [OF this(1) [unfolded Inr]]
  from remember_occurrence_keeps [OF \<open>occurrences_ok sv\<close> sr(2)] show ?thesis
    by (rule occurrences_ok_cong) (simp_all add: sr(4))
qed

lemma occurrences_step:
  assumes st: "sys_step H parse time_local s s'" and ok: "occurrences_ok (sy_sv s)"
  shows "occurrences_ok (sy_sv s')"
  using st
proof cases
  case (configure raw generation cancels sv')
  then show ?thesis using apply_config_Installed [OF configure(3)] by (intro occurrences_ok_cong [OF ok]) simp_all
next
  case (shutdown cancels sv')
  then show ?thesis using shutdown_Some [OF shutdown(3)] by (intro occurrences_ok_cong [OF ok]) simp_all
next
  case (start_scheduler cfg generation ok' sv')
  then show ?thesis by (intro occurrences_ok_cong [OF ok]) (auto simp: start_scheduler_locked_def split: if_splits)
next
  case (start_recovery cfg generation ok' sv')
  then show ?thesis by (intro occurrences_ok_cong [OF ok]) (auto simp: start_priority_recovery_locked_def split: if_splits)
next
  case (schedule c x x' sv')
  then show ?thesis using schedule_next_frame [OF schedule(4)] by (intro occurrences_ok_cong [OF ok]) simp_all
next
  case (schedule_ends c x sv')
  then show ?thesis using schedule_next_frame [OF schedule_ends(4)] by (intro occurrences_ok_cong [OF ok]) simp_all
qed (use ok start_run_occurrences in \<open>auto simp: launch_def intro: occurrences_ok_cong\<close>)

section \<open>Reachable states\<close>

definition sys_ok :: "system \<Rightarrow> bool" where
  "sys_ok s \<longleftrightarrow> numbers_ok s \<and> flight_ok s \<and> generations_ok s \<and> configure_ok s \<and> current_or_doomed s \<and> shown_ok s \<and> occurrences_ok (sy_sv s)"

lemma sys_ok_step: "sys_step H parse time_local s s' \<Longrightarrow> sys_ok s \<Longrightarrow> sys_ok s'"
  unfolding sys_ok_def
  by (intro conjI; elim conjE; (rule numbers_ok_step flight_ok_step generations_ok_step configure_ok_step current_or_doomed_step shown_ok_step
      occurrences_step; assumption))

lemma sys_ok_init: "sys_ok (initial_system now)"
  by (simp add: sys_ok_def initial_system_def new_service_def numbers_ok_def flight_ok_def unfinished_def generations_ok_def current_def
      configure_ok_def current_or_doomed_def shown_ok_def occurrences_ok_def)

lemma reach_ok: "sys_reach H parse time_local s \<Longrightarrow> sys_ok s"
  by (induction rule: sys_reach.induct) (auto intro: sys_ok_init sys_ok_step)

end
