(* ===== verification/Service_Contract.thy ===== *)
theory Service_Contract imports Service_Safety begin

text \<open>
  What the service promises to whoever configures it and asks it for runs, over all interleavings of its goroutines: which
  configuration a run is under, what is left of an old configuration, what stopping means; and the small machine of
  departures and arrivals that the whole service refines.
\<close>

section \<open>The configuration in force\<close>

definition due_at :: "location \<Rightarrow> config \<Rightarrow> instant \<Rightarrow> string \<Rightarrow> bool" where
  "due_at time_local cfg at occurrenceID \<longleftrightarrow>
     (\<exists>now label. next_occurrence now (cf_Location cfg) (cf_Times cfg) = Some (at, label) \<and>
        occurrenceID = occurrence_id time_local at (cf_Location cfg) label)"

definition schedulers_due :: "location \<Rightarrow> system \<Rightarrow> bool" where
  "schedulers_due time_local s \<longleftrightarrow>
     (\<forall>c x at occurrenceID. sy_Schedulers s c = Some x \<longrightarrow> sc_Pc x = SchedWaiting at occurrenceID \<longrightarrow> due_at time_local (sc_Cfg x) at occurrenceID)"

fun configuring :: "configure_pc \<Rightarrow> config option" where
  "configuring (ConfCancel _ k) = map_option fst k"
| "configuring (ConfScheduler cfg _) = Some cfg"
| "configuring (ConfRecovery cfg _) = Some cfg"
| "configuring ConfFree = None"

definition in_force :: "system \<Rightarrow> bool" where
  "in_force s \<longleftrightarrow>
     (\<forall>c x. sy_Schedulers s c = Some x \<longrightarrow> current s (sc_Generation x) \<longrightarrow> sc_Cfg x = sv_config (sy_sv s)) \<and>
     (\<forall>cfg g. (cfg, g) \<in> set (sy_Manual s) \<longrightarrow> current s g \<longrightarrow> cfg = sv_config (sy_sv s)) \<and>
     (\<forall>cfg. configuring (sy_Conf s) = Some cfg \<longrightarrow> cfg = sv_config (sy_sv s))"

lemma due_atI: "next_occurrence now (cf_Location cfg) (cf_Times cfg) = Some (at, label) \<Longrightarrow>
    due_at time_local cfg at (occurrence_id time_local at (cf_Location cfg) label)"
  unfolding due_at_def by (intro exI conjI) (assumption, rule refl)

lemma schedule_next_due:
  assumes "schedule_next time_local now x sv = (Some x', sv')" "sc_Pc x' = SchedWaiting at occ"
  shows "due_at time_local (sc_Cfg x') at occ"
  using assms due_atI [of now "sc_Cfg x"] by (auto simp: schedule_next_def Let_def split: option.splits)

lemma schedulers_dueI:
  assumes "schedulers_due time_local s" "\<And>c x at occ. sy_Schedulers s' c = Some x \<Longrightarrow> sc_Pc x = SchedWaiting at occ \<Longrightarrow> sy_Schedulers s c = Some x"
  shows "schedulers_due time_local s'"
  using assms unfolding schedulers_due_def by blast

lemma schedulers_due_step: "sys_step H parse time_local s s' \<Longrightarrow> schedulers_due time_local s \<Longrightarrow> schedulers_due time_local s'"
proof (cases rule: sys_step.cases, assumption)
  fix c x x' sv'
  assume a: "s' = s\<lparr>sy_sv := sv', sy_Schedulers := (sy_Schedulers s)(c \<mapsto> x')\<rparr>"
    "schedule_next time_local (sy_Now s) x (sy_sv s) = (Some x', sv')" "schedulers_due time_local s"
  with schedule_next_due [OF a(2)] show ?thesis by (auto simp: schedulers_due_def)
qed (erule schedulers_dueI; auto simp: launch_def split: if_splits)+

lemma in_force_cong:
  assumes ok: "in_force s" and sv: "sv_stopped (sy_sv s') = sv_stopped (sy_sv s)" "sv_configGeneration (sy_sv s') = sv_configGeneration (sy_sv s)"
    "sv_config (sy_sv s') = sv_config (sy_sv s)"
    and less: "\<And>c x'. sy_Schedulers s' c = Some x' \<Longrightarrow> \<exists>x. sy_Schedulers s c = Some x \<and> sc_Generation x' = sc_Generation x \<and> sc_Cfg x' = sc_Cfg x"
      "\<And>m. m \<in> set (sy_Manual s') \<Longrightarrow> m \<in> set (sy_Manual s)"
      "\<And>cfg. configuring (sy_Conf s') = Some cfg \<Longrightarrow> configuring (sy_Conf s) = Some cfg"
  shows "in_force s'"
proof -
  have cs: "current s' = current s" using sv by (simp add: current_def fun_eq_iff)
  have "sc_Cfg x' = sv_config (sy_sv s)" if "sy_Schedulers s' c = Some x'" "current s (sc_Generation x')" for c x'
    using less(1) [OF that(1)] ok that(2) by (auto simp: in_force_def)
  then show ?thesis using ok less(2,3) unfolding in_force_def cs sv(3) by blast
qed

lemma in_force_step:
  assumes st: "sys_step H parse time_local s s'" and ok: "in_force s" and inv: "generations_ok s" "configure_ok s"
  shows "in_force s'"
  using st
proof cases
  case (configure raw generation cancels sv')
  note ap = apply_config_Installed [OF configure(3)]
  have old: "g \<le> sv_configGeneration (sy_sv s) \<Longrightarrow> g \<noteq> generation" for g
    using next_generation [of g "sv_configGeneration (sy_sv s)"] ap(2) configure(4) by auto
  show ?thesis using inv(1) old configure(1) ap
    by (fastforce simp: in_force_def generations_ok_def current_def to_configure_def split: sum.splits)
next
  case (shutdown cancels sv')
  then show ?thesis using shutdown_Some [OF shutdown(3)] ok by (simp add: in_force_def current_def)
next
  case (configure_cancelled k)
  then show ?thesis using ok
    by (intro in_force_cong [OF ok]) (auto simp: after_cancel_def after_scheduler_def split: option.splits if_splits)
next
  case (start_scheduler cfg generation ok' sv')
  have "sv_config sv' = sv_config (sy_sv s)" "sv_stopped sv' = sv_stopped (sy_sv s)" "sv_configGeneration sv' = sv_configGeneration (sy_sv s)"
    using start_scheduler(3) by (auto simp: start_scheduler_locked_def split: if_splits)
  then show ?thesis using ok start_scheduler(1,2) by (auto simp: in_force_def current_def after_scheduler_def split: if_splits)
next
  case (start_recovery cfg generation ok' sv')
  then show ?thesis by (intro in_force_cong [OF ok]) (auto simp: start_priority_recovery_locked_def split: if_splits)
next
  case (schedule c x x' sv')
  then show ?thesis using schedule_next_frame [OF schedule(4)] schedule_next_cases(2) [OF schedule(4)]
    by (intro in_force_cong [OF ok]) (auto split: if_splits)
next
  case (schedule_ends c x sv')
  then show ?thesis using schedule_next_frame [OF schedule_ends(4)] by (intro in_force_cong [OF ok]) (auto split: if_splits)
next
  case (scheduled_run c x at occurrenceID rand report sv' script)
  note sr = start_run_Inr [OF scheduled_run(5)]
  show ?thesis using scheduled_run(2) unfolding scheduled_run(1)
    by (intro in_force_cong [OF ok]) (auto simp: launch_def sr(4) split: if_splits)
next
  case (scheduled_miss c x at occurrenceID rand e sv')
  then show ?thesis using start_run_Inl_frame [OF scheduled_miss(5)] by (intro in_force_cong [OF ok]) (auto split: if_splits)
next
  case manual
  then show ?thesis using ok by (auto simp: in_force_def current_def)
next
  case (manual_run ms cfg generation ms' options rand report sv' script)
  note sr = start_run_Inr [OF manual_run(3)]
  show ?thesis using manual_run(2) unfolding manual_run(1)
    by (intro in_force_cong [OF ok]) (auto simp: launch_def sr(4) split: if_splits)
next
  case (manual_refused ms cfg generation ms' options rand e sv')
  then show ?thesis using start_run_Inl_frame [OF manual_refused(3)] by (intro in_force_cong [OF ok]) (auto split: if_splits)
qed (rule in_force_cong [OF ok]; auto split: if_splits)+

lemma reach_in_force: "sys_reach H parse time_local s \<Longrightarrow> in_force s \<and> schedulers_due time_local s"
proof (induction rule: sys_reach.induct)
  case (reach_init now)
  show ?case by (simp add: initial_system_def in_force_def schedulers_due_def)
next
  case (reach_step s s')
  then show ?case using in_force_step schedulers_due_step reach_ok [OF reach_step(1)] unfolding sys_ok_def by blast
qed

text \<open>Where runs come from.\<close>

lemma run_origin:
  assumes "sys_step H parse time_local s s'" "sy_Runs s c = None" "sy_Runs s' c = Some r"
  shows "\<exists>cfg g trigger occ options rand report sv'.
    start_run cfg g trigger occ options rand (sy_Now s) (sy_Fresh s) (sy_sv s) = (Inr report, sv') \<and> sy_sv s' = sv' \<and> c = sy_Fresh s \<and>
    run_script H cfg options report (ru_Script r) \<and> ru_Generation r = g \<and> ru_ID r = rr_RunID report \<and>
    (ru_Parent r = None \<and> occ = [] \<and> (cfg, g) \<in> set (sy_Manual s) \<or>
     (\<exists>p x at. ru_Parent r = Some p \<and> sy_Schedulers s p = Some x \<and> cfg = sc_Cfg x \<and> g = sc_Generation x \<and> sc_Pc x = SchedWaiting at occ \<and>
        at \<le> sy_Now s))"
  using assms(1)
proof cases
  case (scheduled_run c' x at occurrenceID rand report sv' script)
  then show ?thesis using assms(2,3)
    by (intro exI [of _ "sc_Cfg x"] exI [of _ "sc_Generation x"] exI [of _ "''scheduled''"] exI [of _ occurrenceID]
        exI [of _ scheduled_options] exI [of _ rand] exI [of _ report] exI [of _ sv']) (auto simp: launch_def split: if_splits)
next
  case (manual_run ms cfg generation ms' options rand report sv' script)
  then show ?thesis using assms(2,3)
    by (intro exI [of _ cfg] exI [of _ generation] exI [of _ "''manual''"] exI [of _ "[]"]
        exI [of _ options] exI [of _ rand] exI [of _ report] exI [of _ sv']) (auto simp: launch_def split: if_splits)
qed (use assms(2,3) in \<open>auto split: if_splits\<close>)

text \<open>C8. Every run starts under the configuration in force, on an enabled host of a service that was not stopped, with no other
  run active, and its report is the one published. A scheduled run starts at or after an instant that NextOccurrence gave for that configuration,
  under the key of this occurrence, which was not in memory and now is; a manual run has no occurrence.\<close>

theorem run_starts_in_force:
  assumes "sys_reach H parse time_local s" "sys_step H parse time_local s s'" "sy_Runs s c = None" "sy_Runs s' c = Some r"
  shows "\<exists>options report. run_script H (sv_config (sy_sv s)) options report (ru_Script r) \<and> sv_active (sy_sv s') = Some report \<and>
    rr_StartedAt report = sy_Now s \<and> \<not> sv_stopped (sy_sv s) \<and> cf_HostEnabled (sv_config (sy_sv s)) \<and> \<not> sv_running (sy_sv s) \<and>
    ru_Generation r = sv_configGeneration (sy_sv s) \<and>
    (if ru_Parent r = None then rr_OccurrenceID report = []
     else \<exists>at occ. due_at time_local (sv_config (sy_sv s)) at occ \<and> at \<le> sy_Now s \<and> rr_OccurrenceID report = occ \<and>
            (occ \<noteq> [] \<longrightarrow> occ \<notin> sv_occurrences (sy_sv s) \<and> occ \<in> sv_occurrences (sy_sv s')))"
proof -
  obtain cfg g trigger occ options rand report sv' where
    sr: "start_run cfg g trigger occ options rand (sy_Now s) (sy_Fresh s) (sy_sv s) = (Inr report, sv')" "sy_sv s' = sv'"
    and rs: "run_script H cfg options report (ru_Script r)" "ru_Generation r = g"
    and who: "ru_Parent r = None \<and> occ = [] \<and> (cfg, g) \<in> set (sy_Manual s) \<or>
     (\<exists>p x at. ru_Parent r = Some p \<and> sy_Schedulers s p = Some x \<and> cfg = sc_Cfg x \<and> g = sc_Generation x \<and> sc_Pc x = SchedWaiting at occ \<and>
        at \<le> sy_Now s)"
    using run_origin [OF assms(2-4)] by blast
  note st = start_run_Inr [OF sr(1)]
  have inv: "in_force s" "schedulers_due time_local s" "occurrences_ok (sy_sv s)"
    using reach_in_force [OF assms(1)] reach_ok [OF assms(1)] by (auto simp: sys_ok_def)
  have cur: "current s g" using st(1) by (simp add: start_allowed_def current_def)
  with who inv(1) have cfg: "cfg = sv_config (sy_sv s)" by (auto simp: in_force_def)
  have mem: "occ \<noteq> [] \<Longrightarrow> occ \<notin> sv_occurrences (sy_sv s) \<and> occ \<in> sv_occurrences sv'"
    using st(2,4) remember_occurrence_mem(1) [OF inv(3), of occ] by auto
  have "if ru_Parent r = None then occ = []
     else \<exists>at. due_at time_local (sv_config (sy_sv s)) at occ \<and> at \<le> sy_Now s"
  proof (cases "ru_Parent r")
    case (Some p)
    with who obtain x at where x: "sy_Schedulers s p = Some x" "cfg = sc_Cfg x" "sc_Pc x = SchedWaiting at occ" "at \<le> sy_Now s" by auto
    then have "due_at time_local cfg at occ" using inv(2) unfolding schedulers_due_def by blast
    with x(4) cfg Some show ?thesis by auto
  qed (use who in auto)
  then show ?thesis using st rs sr(2) cfg mem
    by (intro exI [of _ options] exI [of _ report]) (auto simp: start_allowed_def)
qed

text \<open>C9. One run at a time, in every interleaving: at most one run goroutine is at work, the service says it is running exactly when
  there is one, its cancel function is the one the service holds, and the published report is its own.\<close>

theorem single_flight:
  assumes "sys_reach H parse time_local s"
  shows "(sv_running (sy_sv s) \<longleftrightarrow> (\<exists>c. unfinished s c)) \<and> (sv_running (sy_sv s) \<longleftrightarrow> sv_active (sy_sv s) \<noteq> None) \<and>
    (\<forall>c c'. unfinished s c \<longrightarrow> unfinished s c' \<longrightarrow> c = c') \<and>
    (\<forall>c x. sy_Runs s c = Some x \<longrightarrow> unfinished s c \<longrightarrow> sv_activeCancel (sy_sv s) = Some c \<and> map_option rr_RunID (sv_active (sy_sv s)) = Some (ru_ID x))"
proof -
  have "flight_ok s" using reach_ok [OF assms] by (simp add: sys_ok_def)
  then show ?thesis by (cases "sv_running (sy_sv s)") (auto simp: flight_ok_def)
qed

text \<open>C10. Nothing of an older configuration goes on: when no call of ApplyConfig or Shutdown is under way, the context of every
  scheduler, recovery and active run that is not of the current generation of an open service is cancelled. Of the current generation there is
  at most one scheduler and one recovery, and the service holds their cancel functions.\<close>

theorem old_work_cancelled:
  assumes "sys_reach H parse time_local s" "sy_Conf s = ConfFree" "sy_Stop s = []"
  shows "(\<forall>c x. sy_Schedulers s c = Some x \<longrightarrow>
       (if current s (sc_Generation x) then sv_schedulerCancel (sy_sv s) = Some c else c \<in> sy_Cancelled s)) \<and>
    (\<forall>c x. sy_Recoveries s c = Some x \<longrightarrow>
       (if current s (rc_Generation x) then sv_recoveryCancel (sy_sv s) = Some c else c \<in> sy_Cancelled s)) \<and>
    (\<forall>c x. sy_Runs s c = Some x \<longrightarrow> unfinished s c \<longrightarrow> current s (ru_Generation x) \<or> c \<in> sy_Cancelled s)"
proof -
  have "current_or_doomed s" using reach_ok [OF assms(1)] by (simp add: sys_ok_def)
  moreover have "doomed s c \<longleftrightarrow> c \<in> sy_Cancelled s" for c using assms(2,3) by (simp add: doomed_def)
  ultimately show ?thesis by (auto simp: current_or_doomed_def scheduler_kept_def recovery_kept_def unfinished_def)
qed


section \<open>Departures and arrivals\<close>

text \<open>
  The contract of the service, without goroutines: a generation that grows, at most one run in flight, a gate that shuts
  for good. A machine refines it when each of its steps, seen through \<open>view\<close>, is one of its steps or none.
\<close>

record airfield =
  af_Shut :: bool
  af_Generation :: u64
  af_Flight :: "string option"

inductive airfield_step :: "airfield \<Rightarrow> airfield \<Rightarrow> bool" where
  reconfigures: "\<not> af_Shut a \<Longrightarrow> af_Generation a + 1 \<noteq> 0 \<Longrightarrow> airfield_step a (a\<lparr>af_Generation := af_Generation a + 1\<rparr>)"
| departs: "\<not> af_Shut a \<Longrightarrow> af_Flight a = None \<Longrightarrow> airfield_step a (a\<lparr>af_Flight := Some i\<rparr>)"
| arrives: "af_Flight a = Some i \<Longrightarrow> airfield_step a (a\<lparr>af_Flight := None\<rparr>)"
| shuts: "\<not> af_Shut a \<Longrightarrow> airfield_step a (a\<lparr>af_Shut := True\<rparr>)"

inductive_simps airfield_step_iff: "airfield_step a b"

locale flight_machine =
  fixes ok :: "'s \<Rightarrow> bool" and step :: "'s \<Rightarrow> 's \<Rightarrow> bool" and view :: "'s \<Rightarrow> airfield"
  assumes keeps: "ok s \<Longrightarrow> step s s' \<Longrightarrow> ok s'"
    and simulates: "ok s \<Longrightarrow> step s s' \<Longrightarrow> view s' = view s \<or> airfield_step (view s) (view s')"
begin

lemma simulates_many: "step\<^sup>*\<^sup>* s s' \<Longrightarrow> ok s \<Longrightarrow> ok s' \<and> airfield_step\<^sup>*\<^sup>* (view s) (view s')"
proof (induction rule: rtranclp_induct)
  case (step y z)
  then have "ok z" "view z = view y \<or> airfield_step (view y) (view z)" "airfield_step\<^sup>*\<^sup>* (view s) (view y)"
    using keeps simulates by blast+
  then show ?case by (auto intro: rtranclp.rtrancl_into_rtrancl)
qed simp

lemma shut_for_good:
  assumes "step\<^sup>*\<^sup>* s s'" "ok s" "af_Shut (view s)"
  shows "af_Shut (view s') \<and> af_Generation (view s') = af_Generation (view s) \<and>
    (af_Flight (view s') = None \<or> af_Flight (view s') = af_Flight (view s))"
proof -
  have "airfield_step\<^sup>*\<^sup>* (view s) (view s')" using simulates_many assms by blast
  then show ?thesis
  proof (induction rule: rtranclp_induct)
    case (step y z)
    then show ?case by (auto simp: airfield_step_iff)
  qed (use assms(3) in simp)
qed

lemma generation_grows: "step\<^sup>*\<^sup>* s s' \<Longrightarrow> ok s \<Longrightarrow> af_Generation (view s) \<le> af_Generation (view s')"
proof -
  have grows: "airfield_step a b \<Longrightarrow> af_Generation a \<le> af_Generation b" for a b
    by (auto simp: airfield_step_iff intro: next_generation [OF order_refl, THEN less_imp_le])
  have "airfield_step\<^sup>*\<^sup>* a b \<Longrightarrow> af_Generation a \<le> af_Generation b" for a b
    by (induction rule: rtranclp_induct) (auto intro: order_trans grows)
  then show "step\<^sup>*\<^sup>* s s' \<Longrightarrow> ok s \<Longrightarrow> ?thesis" using simulates_many by blast
qed

end

definition view :: "system \<Rightarrow> airfield" where
  "view s = \<lparr> af_Shut = sv_stopped (sy_sv s), af_Generation = sv_configGeneration (sy_sv s),
     af_Flight = map_option rr_RunID (sv_active (sy_sv s)) \<rparr>"

lemma view_same:
  "sv_stopped (sy_sv s') = sv_stopped (sy_sv s) \<Longrightarrow> sv_configGeneration (sy_sv s') = sv_configGeneration (sy_sv s) \<Longrightarrow>
   map_option rr_RunID (sv_active (sy_sv s')) = map_option rr_RunID (sv_active (sy_sv s)) \<Longrightarrow> view s' = view s"
  by (simp add: view_def)

lemma departs_view:
  assumes "start_run cfg g trigger occ options rand now ctx (sy_sv s) = (Inr report, sv')" "flight_ok s" "sy_sv s' = sv'"
  shows "airfield_step (view s) (view s')"
proof -
  note sr = start_run_Inr [OF assms(1)]
  have "view s' = (view s)\<lparr>af_Flight := Some (rr_RunID report)\<rparr>" using assms(3) sr(4) by (simp add: view_def)
  moreover have "\<not> af_Shut (view s)" "af_Flight (view s) = None" using sr(1,3) assms(2)
    by (simp_all add: view_def start_allowed_def flight_ok_def)
  ultimately show ?thesis using departs by simp
qed

lemma view_step:
  assumes st: "sys_step H parse time_local s s'" and ok: "sys_ok s"
  shows "view s' = view s \<or> airfield_step (view s) (view s')"
  using st
proof cases
  case (configure raw generation cancels sv')
  note ap = apply_config_Installed [OF configure(3)]
  have "view s' = (view s)\<lparr>af_Generation := af_Generation (view s) + 1\<rparr>" using configure(1) ap by (simp add: view_def)
  moreover have "\<not> af_Shut (view s)" "af_Generation (view s) + 1 \<noteq> 0" using ap configure(4) by (simp_all add: view_def)
  ultimately show ?thesis using reconfigures by simp
next
  case (shutdown cancels sv')
  note sh = shutdown_Some [OF shutdown(3)]
  have "view s' = (view s)\<lparr>af_Shut := True\<rparr>" "\<not> af_Shut (view s)" using shutdown(1) sh by (simp_all add: view_def)
  then show ?thesis using shuts by simp
next
  case (scheduled_run c x at occurrenceID rand report sv' script)
  then show ?thesis using departs_view [OF scheduled_run(5)] ok by (auto simp: launch_def sys_ok_def)
next
  case (manual_run ms cfg generation ms' options rand report sv' script)
  then show ?thesis using departs_view [OF manual_run(3)] ok by (auto simp: launch_def sys_ok_def)
next
  case (run_finish c x report script)
  have f: "flight_ok s" using ok by (simp add: sys_ok_def)
  have sc: "rr_RunID report = ru_ID x" using flight_script [OF f run_finish(2,3)] by simp
  from flight_active(4) [OF f run_finish(2)] run_finish(3) obtain rep where "sv_active (sy_sv s) = Some rep" "rr_RunID rep = ru_ID x" by auto
  then have "view s' = (view s)\<lparr>af_Flight := None\<rparr>" "af_Flight (view s) = Some (ru_ID x)"
    using run_finish(1) sc by (simp_all add: view_def finish_run_locked_def)
  then show ?thesis using arrives by simp
next
  case (run_publish c x report script)
  have f: "flight_ok s" using ok by (simp add: sys_ok_def)
  have sc: "rr_RunID report = ru_ID x" using flight_script [OF f run_publish(2,3)] by simp
  from flight_active(4) [OF f run_publish(2)] run_publish(3) obtain rep where "sv_active (sy_sv s) = Some rep" "rr_RunID rep = ru_ID x" by auto
  then show ?thesis using run_publish(1) sc by (intro disjI1 view_same) (auto simp: publish_active_def clone_run_report_def)
next
  case (start_scheduler cfg generation ok' sv')
  then show ?thesis by (intro disjI1 view_same) (auto simp: start_scheduler_locked_def split: if_splits)
next
  case (start_recovery cfg generation ok' sv')
  then show ?thesis by (intro disjI1 view_same) (auto simp: start_priority_recovery_locked_def split: if_splits)
next
  case (schedule c x x' sv')
  then show ?thesis using schedule_next_frame [OF schedule(4)] by (intro disjI1 view_same) simp_all
next
  case (schedule_ends c x sv')
  then show ?thesis using schedule_next_frame [OF schedule_ends(4)] by (intro disjI1 view_same) simp_all
next
  case (scheduled_miss c x at occurrenceID rand e sv')
  then show ?thesis using start_run_Inl_frame [OF scheduled_miss(5)] by (intro disjI1 view_same) simp_all
next
  case (manual_refused ms cfg generation ms' options rand e sv')
  then show ?thesis using start_run_Inl_frame [OF manual_refused(3)] by (intro disjI1 view_same) simp_all
qed (rule disjI1, rule view_same; simp)+

interpretation airport: flight_machine sys_ok "sys_step H parse time_local" view for H parse time_local
  by unfold_locales (erule sys_ok_step, assumption, erule view_step, assumption)

text \<open>C7. The service refines the machine of departures and arrivals: every sequence of steps of its goroutines, seen as
  generation, active run and whether it is stopped, is a sequence in which the generation grows by one, a run departs only when none
  is in flight, a run in flight arrives, and the gate shuts.\<close>

theorem service_refines_airfield:
  assumes "(sys_step H parse time_local)\<^sup>*\<^sup>* (initial_system now) s"
  shows "airfield_step\<^sup>*\<^sup>* \<lparr> af_Shut = False, af_Generation = 0, af_Flight = None \<rparr> (view s)"
proof -
  have "view (initial_system now) = \<lparr> af_Shut = False, af_Generation = 0, af_Flight = None \<rparr>"
    by (simp add: view_def initial_system_def new_service_def)
  with airport.simulates_many [OF assms sys_ok_init] show ?thesis by simp
qed

section \<open>Stopping\<close>

lemma stopped_step:
  assumes st: "sys_step H parse time_local s s'" and stop: "sv_stopped (sy_sv s)"
  shows "dom (sy_Schedulers s') \<subseteq> dom (sy_Schedulers s) \<and> dom (sy_Recoveries s') \<subseteq> dom (sy_Recoveries s) \<and> dom (sy_Runs s') \<subseteq> dom (sy_Runs s)"
  using st
proof cases
  case (start_scheduler cfg generation ok' sv')
  then show ?thesis using stop by (auto simp: start_scheduler_locked_def)
next
  case (start_recovery cfg generation ok' sv')
  then show ?thesis using stop by (auto simp: start_priority_recovery_locked_def)
next
  case (scheduled_run c x at occurrenceID rand report sv' script)
  then show ?thesis using stop start_run_Inr(1) [OF scheduled_run(5)] by (simp add: start_allowed_def)
next
  case (manual_run ms cfg generation ms' options rand report sv' script)
  then show ?thesis using stop start_run_Inr(1) [OF manual_run(3)] by (simp add: start_allowed_def)
qed (auto split: if_splits)

text \<open>C19. Shutdown is final: whatever happens afterwards, the service stays stopped under the same generation, shows no next run, no
  goroutine is started, and the only run still active is the one that was active.\<close>

theorem shutdown_is_final:
  assumes "sys_reach H parse time_local s" "sv_stopped (sy_sv s)" "(sys_step H parse time_local)\<^sup>*\<^sup>* s s'"
  shows "sv_stopped (sy_sv s') \<and> sv_configGeneration (sy_sv s') = sv_configGeneration (sy_sv s) \<and> sv_next (sy_sv s') = None \<and>
    (sv_active (sy_sv s') = None \<or> map_option rr_RunID (sv_active (sy_sv s')) = map_option rr_RunID (sv_active (sy_sv s))) \<and>
    dom (sy_Schedulers s') \<subseteq> dom (sy_Schedulers s) \<and> dom (sy_Recoveries s') \<subseteq> dom (sy_Recoveries s) \<and> dom (sy_Runs s') \<subseteq> dom (sy_Runs s)"
proof -
  note ok = reach_ok [OF assms(1)]
  have shut: "af_Shut (view s)" using assms(2) by (simp add: view_def)
  have more: "sv_stopped (sy_sv s') \<and> sys_ok s'" using airport.shut_for_good [OF assms(3) ok shut] airport.simulates_many [OF assms(3) ok]
    by (simp add: view_def)
  then have nxt: "sv_next (sy_sv s') = None" by (cases "sv_next (sy_sv s')") (auto simp: sys_ok_def shown_ok_def current_def)
  have "sv_stopped (sy_sv s') \<and> sys_ok s' \<and> dom (sy_Schedulers s') \<subseteq> dom (sy_Schedulers s) \<and>
      dom (sy_Recoveries s') \<subseteq> dom (sy_Recoveries s) \<and> dom (sy_Runs s') \<subseteq> dom (sy_Runs s)"
    using assms(3)
  proof (induction rule: rtranclp_induct)
    case (step y z)
    have "sv_stopped (sy_sv z)" using airport.shut_for_good [OF r_into_rtranclp [of "sys_step H parse time_local", OF step.hyps(2)]] step.IH by (simp add: view_def)
    then show ?case using stopped_step [OF step.hyps(2)] sys_ok_step [OF step.hyps(2)] step.IH by blast
  qed (use ok assms(2) in simp)
  with airport.shut_for_good [OF assms(3) ok shut] nxt show ?thesis by (auto simp: view_def)
qed

subsection \<open>The wait group comes down to zero\<close>

definition stuck :: "system \<Rightarrow> nat \<Rightarrow> bool" where
  "stuck s c \<longleftrightarrow> (\<exists>x. sy_Runs s c = Some x \<and> ru_Script x = None)"

fun schedule_work :: "schedule_pc \<Rightarrow> nat" where
  "schedule_work (SchedWaiting _ _) = 1"
| "schedule_work SchedLoop = 2"
| "schedule_work (SchedFailed _ _) = 3"

definition work_at :: "system \<Rightarrow> nat \<Rightarrow> nat" where
  "work_at s c =
     (case sy_Schedulers s c of None \<Rightarrow> 0 | Some x \<Rightarrow> schedule_work (sc_Pc x)) +
     (case sy_Recoveries s c of None \<Rightarrow> 0 | Some x \<Rightarrow> if rc_Over x then 1 else 2) +
     (case sy_Runs s c of None \<Rightarrow> 0 | Some x \<Rightarrow> (case ru_Script x of None \<Rightarrow> 0 | Some evs \<Rightarrow> 1 + length evs))"

definition work_left :: "system \<Rightarrow> nat" where
  "work_left s = length (sy_Stop s) + sum (work_at s) {..<sy_Fresh s}"

lemma less_work:
  assumes "sy_Fresh s' = sy_Fresh s" "sy_Stop s' = sy_Stop s" "c < sy_Fresh s" "work_at s' c < work_at s c" "\<And>d. d \<noteq> c \<Longrightarrow> work_at s' d = work_at s d"
  shows "work_left s' < work_left s"
proof -
  have "work_at s' d \<le> work_at s d" for d using assms(4,5) by (cases "d = c") (simp_all add: less_imp_le)
  then have "sum (work_at s') {..<sy_Fresh s} < sum (work_at s) {..<sy_Fresh s}"
    by (intro sum_strict_mono_ex1) (use assms(3,4) in auto)
  then show ?thesis using assms(1,2) by (simp add: work_left_def)
qed

text \<open>A stopped service whose calls of \<^verbatim>\<open>ApplyConfig\<close> have returned.\<close>

definition stopping :: "system \<Rightarrow> bool" where
  "stopping s \<longleftrightarrow> sys_ok s \<and> sv_stopped (sy_sv s) \<and> sy_Conf s = ConfFree \<and> (\<forall>c. \<not> stuck s c)"

lemma scheduler_moves:
  assumes ok: "stopping s" "sy_Stop s = []" and x: "sy_Schedulers s c = Some x"
  shows "\<exists>s'. sys_step H parse time_local s s' \<and> stopping s' \<and> sy_Stop s' = [] \<and> work_left s' < work_left s"
proof -
  have inv: "sys_ok s" "numbers_ok s" and stop: "sv_stopped (sy_sv s)" using ok(1) by (auto simp: stopping_def sys_ok_def)
  have fresh: "c < sy_Fresh s" using numbers_okD(1) [OF inv(2) x] .
  have gone: "c \<in> sy_Cancelled s" using inv(1) x ok stop
    by (auto simp: sys_ok_def current_or_doomed_def scheduler_kept_def doomed_def current_def stopping_def)
  have gen: "\<exists>s'. sys_step H parse time_local s s' \<and> stopping s' \<and> sy_Stop s' = [] \<and> work_left s' < work_left s"
    if st: "sys_step H parse time_local s s1" and s1: "s1 = s\<lparr>sy_sv := sv1, sy_Schedulers := (sy_Schedulers s)(c := y)\<rparr>" "sv_stopped sv1"
      and le: "(case y of None \<Rightarrow> 0 | Some x' \<Rightarrow> schedule_work (sc_Pc x')) < schedule_work (sc_Pc x)" for s1 sv1 y
  proof -
    have "stopping s1" using sys_ok_step [OF st inv(1)] s1 ok(1) by (simp add: stopping_def stuck_def)
    moreover have "work_left s1 < work_left s" by (rule less_work [of s1 s c]) (use s1 fresh le x in \<open>auto simp: work_at_def\<close>)
    ultimately show ?thesis using st s1(1) ok(2) by auto
  qed
  show ?thesis
  proof (cases "sc_Pc x")
    case SchedLoop
    obtain y sv' where n: "schedule_next time_local (sy_Now s) x (sy_sv s) = (y, sv')" by force
    note fr = schedule_next_frame(4) [OF n]
    show ?thesis
    proof (cases y)
      case None
      from gen [OF sys_step.schedule_ends [OF x SchedLoop n [unfolded None]] refl] fr stop SchedLoop show ?thesis by simp
    next
      case (Some x')
      have "schedule_work (sc_Pc x') = 1" using n Some by (auto simp: schedule_next_def Let_def split: option.splits)
      with gen [OF sys_step.schedule [OF x SchedLoop n [unfolded Some]] refl] fr stop SchedLoop show ?thesis by simp
    qed
  next
    case (SchedWaiting at occ)
    from gen [OF sys_step.schedule_cancelled [OF x SchedWaiting gone] refl] stop SchedWaiting show ?thesis by simp
  next
    case (SchedFailed occ e)
    from gen [OF sys_step.schedule_error [OF x SchedFailed] refl] stop SchedFailed show ?thesis by simp
  qed
qed

lemma recovery_moves:
  assumes ok: "stopping s" "sy_Stop s = []" and x: "sy_Recoveries s c = Some x"
  shows "\<exists>s'. sys_step H parse time_local s s' \<and> stopping s' \<and> sy_Stop s' = [] \<and> work_left s' < work_left s"
proof -
  have inv: "sys_ok s" "numbers_ok s" and stop: "sv_stopped (sy_sv s)" using ok(1) by (auto simp: stopping_def sys_ok_def)
  have fresh: "c < sy_Fresh s" using numbers_okD(2) [OF inv(2) x] .
  have gen: ?thesis
    if st: "sys_step H parse time_local s s1" and s1: "sy_Recoveries s1 = (sy_Recoveries s)(c := y)" "sv_stopped (sy_sv s1)"
        "sy_Schedulers s1 = sy_Schedulers s" "sy_Runs s1 = sy_Runs s" "sy_Fresh s1 = sy_Fresh s" "sy_Stop s1 = sy_Stop s" "sy_Conf s1 = sy_Conf s"
      and le: "(case y of None \<Rightarrow> 0 | Some x' \<Rightarrow> if rc_Over x' then 1 else (2::nat)) < (if rc_Over x then 1 else 2)" for s1 y
  proof -
    have "stopping s1" using sys_ok_step [OF st inv(1)] s1 ok(1) by (simp add: stopping_def stuck_def)
    moreover have "work_left s1 < work_left s" by (rule less_work [of s1 s c]) (use s1 fresh le x in \<open>auto simp: work_at_def\<close>)
    ultimately show ?thesis using st s1(6) ok(2) by auto
  qed
  show ?thesis
  proof (cases "rc_Over x")
    case True
    from gen [OF sys_step.recovery_exit [OF x True], of None] stop True show ?thesis by simp
  next
    case False
    have "\<exists>r. recovery_outcome H (rc_Cfg x) r"
      using startup_recovery_ends unfolding recovery_outcome_def by blast
    then obtain r where r: "recovery_outcome H (rc_Cfg x) r" by blast
    from gen [OF sys_step.recovery_ends [OF x False r], of "Some (x\<lparr>rc_Over := True\<rparr>)"] stop False show ?thesis by simp
  qed
qed

lemma script_of_head: "script_of i (ev # evs) \<Longrightarrow> (\<exists>r. ev = EvPublish r) \<or> (\<exists>r. ev = EvFinish r)"
  by (cases ev) simp_all

lemma run_moves:
  assumes ok: "stopping s" "sy_Stop s = []" and x: "sy_Runs s c = Some x"
  shows "\<exists>s'. sys_step H parse time_local s s' \<and> stopping s' \<and> sy_Stop s' = [] \<and> work_left s' < work_left s"
proof -
  have inv: "sys_ok s" "numbers_ok s" "flight_ok s" and stop: "sv_stopped (sy_sv s)" using ok(1) by (auto simp: stopping_def sys_ok_def)
  have fresh: "c < sy_Fresh s" using numbers_okD(3) [OF inv(2) x] .
  obtain evs where evs: "ru_Script x = Some evs" using ok(1) x unfolding stopping_def stuck_def by (metis not_None_eq)
  have gen: ?thesis
    if st: "sys_step H parse time_local s s1" and s1: "sy_Runs s1 = (sy_Runs s)(c := y)" "sv_stopped (sy_sv s1)"
        "sy_Schedulers s1 = sy_Schedulers s" "sy_Recoveries s1 = sy_Recoveries s" "sy_Fresh s1 = sy_Fresh s" "sy_Stop s1 = sy_Stop s" "sy_Conf s1 = sy_Conf s"
      and le: "y = None \<or> (\<exists>x' evs'. y = Some x' \<and> ru_Script x' = Some evs' \<and> length evs' < length evs)" for s1 y
  proof -
    have "stopping s1" using sys_ok_step [OF st inv(1)] s1 ok(1) le by (auto simp: stopping_def stuck_def split: if_splits)
    moreover have "work_left s1 < work_left s" by (rule less_work [of s1 s c]) (use s1 fresh le x evs in \<open>auto simp: work_at_def\<close>)
    ultimately show ?thesis using st s1(6) ok(2) by auto
  qed
  show ?thesis
  proof (cases evs)
    case Nil
    from gen [OF sys_step.run_exit [OF x evs [unfolded Nil]], of None] stop show ?thesis by simp
  next
    case (Cons ev rest)
    consider (pub) r where "ev = EvPublish r" | (fin) r where "ev = EvFinish r"
      using script_of_head flight_script [OF inv(3) x evs] Cons by blast
    then show ?thesis
    proof cases
      case pub
      from gen [OF sys_step.run_publish [OF x evs [unfolded Cons pub]], of "Some (x\<lparr>ru_Script := Some rest\<rparr>)"] stop Cons show ?thesis by simp
    next
      case fin
      from gen [OF sys_step.run_finish [OF x evs [unfolded Cons fin]], of "Some (x\<lparr>ru_Script := Some rest\<rparr>)"] stop Cons show ?thesis by simp
    qed
  qed
qed

lemma drains:
  "stopping s \<Longrightarrow> sy_Stop s = [] \<Longrightarrow>
   \<exists>s'. (sys_step H parse time_local)\<^sup>*\<^sup>* s s' \<and> sy_Stop s' = [] \<and> sy_Schedulers s' = Map.empty \<and> sy_Recoveries s' = Map.empty \<and> sy_Runs s' = Map.empty"
proof (induction "work_left s" arbitrary: s rule: less_induct)
  case less
  show ?case
  proof (cases "sy_Schedulers s = Map.empty \<and> sy_Recoveries s = Map.empty \<and> sy_Runs s = Map.empty")
    case False
    then obtain c where "sy_Schedulers s c \<noteq> None \<or> sy_Recoveries s c \<noteq> None \<or> sy_Runs s c \<noteq> None" by (auto simp: fun_eq_iff)
    then have "\<exists>s1. sys_step H parse time_local s s1 \<and> stopping s1 \<and> sy_Stop s1 = [] \<and> work_left s1 < work_left s"
      using scheduler_moves [OF less.prems] recovery_moves [OF less.prems] run_moves [OF less.prems] by (meson option.exhaust_sel)
    then obtain s1 where s1: "sys_step H parse time_local s s1" "stopping s1" "sy_Stop s1 = []" "work_left s1 < work_left s" by blast
    from less.hyps [OF s1(4,2,3)] s1(1) show ?thesis by (meson converse_rtranclp_into_rtranclp)
  qed (use less.prems in blast)
qed

lemma stopped_conf_step:
  assumes st: "sys_step H parse time_local s s'" and ok: "sv_stopped (sy_sv s) \<Longrightarrow> sy_Conf s = ConfFree" and stop: "sv_stopped (sy_sv s')"
  shows "sy_Conf s' = ConfFree"
  using st
proof cases
  case (configure raw generation cancels sv')
  then show ?thesis using stop apply_config_Installed [OF configure(3)] by simp
next
  case (start_scheduler cfg generation ok' sv')
  then show ?thesis using stop ok by (auto simp: start_scheduler_locked_def split: if_splits)
next
  case (schedule c x x' sv')
  then show ?thesis using stop ok schedule_next_frame [OF schedule(4)] by simp
next
  case (schedule_ends c x sv')
  then show ?thesis using stop ok schedule_next_frame [OF schedule_ends(4)] by simp
next
  case (scheduled_run c x at occurrenceID rand report sv' script)
  then show ?thesis using stop ok start_run_Inr [OF scheduled_run(5)] by (simp add: launch_def)
next
  case (scheduled_miss c x at occurrenceID rand e sv')
  then show ?thesis using stop ok start_run_Inl_frame [OF scheduled_miss(5)] by simp
next
  case (manual_run ms cfg generation ms' options rand report sv' script)
  then show ?thesis using stop ok start_run_Inr [OF manual_run(3)] by (simp add: launch_def)
next
  case (manual_refused ms cfg generation ms' options rand e sv')
  then show ?thesis using stop ok start_run_Inl_frame [OF manual_refused(3)] by simp
qed (use stop ok in auto)

lemma stopped_conf: "sys_reach H parse time_local s \<Longrightarrow> sv_stopped (sy_sv s) \<Longrightarrow> sy_Conf s = ConfFree"
proof (induction rule: sys_reach.induct)
  case (reach_step s s')
  from stopped_conf_step [OF reach_step(2,3,4)] show ?case .
qed (simp add: initial_system_def)

text \<open>C20. Shutdown can always finish: from every reachable state of a stopped service in which every run returns, the goroutines can come to
  their ends, so that the wait of Shutdown is over; nothing deadlocks. The cancellations that are still due come first; then each
  scheduler finds its context cancelled, each recovery ends (its time is bounded), each run plays out.\<close>

theorem shutdown_can_finish:
  assumes "sys_reach H parse time_local s" "sv_stopped (sy_sv s)" "\<forall>c. \<not> stuck s c"
  shows "\<exists>s'. (sys_step H parse time_local)\<^sup>*\<^sup>* s s' \<and> sy_Stop s' = [] \<and>
    sy_Schedulers s' = Map.empty \<and> sy_Recoveries s' = Map.empty \<and> sy_Runs s' = Map.empty"
proof -
  have "\<exists>s1. (sys_step H parse time_local)\<^sup>*\<^sup>* s s1 \<and> stopping s1 \<and> sy_Stop s1 = []"
    if "stopping s" for s
    using that
  proof (induction "sy_Stop s" arbitrary: s)
    case (Cons c cs)
    let ?s1 = "s\<lparr>sy_Cancelled := insert c (sy_Cancelled s), sy_Stop := cs\<rparr>"
    have st: "sys_step H parse time_local s ?s1" using Cons(2) by (intro sys_step.shutdown_cancel) simp
    have "stopping ?s1" using sys_ok_step [OF st] Cons.prems by (simp add: stopping_def stuck_def)
    from Cons(1) [OF _ this] st show ?case by (auto intro: converse_rtranclp_into_rtranclp)
  qed auto
  moreover have "stopping s" using reach_ok [OF assms(1)] stopped_conf [OF assms(1,2)] assms(2,3) by (simp add: stopping_def)
  ultimately obtain s1 where "(sys_step H parse time_local)\<^sup>*\<^sup>* s s1" "stopping s1" "sy_Stop s1 = []" by blast
  moreover from drains [OF this(2,3)] obtain s2 where "(sys_step H parse time_local)\<^sup>*\<^sup>* s1 s2" "sy_Stop s2 = []"
    "sy_Schedulers s2 = Map.empty" "sy_Recoveries s2 = Map.empty" "sy_Runs s2 = Map.empty" by blast
  ultimately show ?thesis by (meson rtranclp_trans)
qed

section \<open>A history\<close>

text \<open>The service is configured, a manual run departs, the service is given a bad configuration, then it is shut down.\<close>

definition sample_config :: config where
  "sample_config = zero_config\<lparr>cf_HostEnabled := True, cf_Model := ''m'', cf_Message := ''hi''\<rparr>"

definition sample_parse :: "bytes \<Rightarrow> err + config" where
  "sample_parse raw = (if raw = [] then Inl (ErrNew ''bad'') else Inr sample_config)"

abbreviation sample_step :: "system \<Rightarrow> system \<Rightarrow> bool" where
  "sample_step \<equiv> sys_step (still_host (sample_active 5) sample_file) sample_parse (fixed_zone ''UTC'' 0)"

abbreviation sample_reach :: "system \<Rightarrow> bool" where
  "sample_reach \<equiv> sys_reach (still_host (sample_active 5) sample_file) sample_parse (fixed_zone ''UTC'' 0)"

lemma run_script_exists: "\<exists>script. run_script H cfg options report script"
proof -
  fix w
  show ?thesis
  proof (cases "execute_run H 0 background cfg options report w")
    case None
    then have "run_script H cfg options report None" unfolding run_script_def by (intro exI [of _ 0] exI [of _ background] exI [of _ w]) simp
    then show ?thesis by blast
  next
    case (Some p)
    obtain rep w' where p: "p = (rep, w')" by force
    from execute_run_trace [OF Some [unfolded p]] obtain evs where "w_trace w' = w_trace w @ evs" by blast
    then have "run_script H cfg options report (Some (svc evs))" using Some p unfolding run_script_def
      by (intro exI [of _ 0] exI [of _ background] exI [of _ w]) auto
    then show ?thesis by blast
  qed
qed

lemma sample_configured:
  "\<exists>s. sample_reach s \<and> sy_Conf s = ConfFree \<and> sy_Stop s = [] \<and> sy_Runs s = Map.empty \<and> sy_Manual s = [(sample_config, 1)] \<and> sy_Fresh s = 1 \<and>
     \<not> sv_running (sy_sv s) \<and> \<not> sv_stopped (sy_sv s) \<and> sv_configGeneration (sy_sv s) = 1"
proof -
  let ?s0 = "initial_system 0"
  obtain r sv1 where ap: "apply_config_locked (sample_parse ''x'') (sy_sv ?s0) = (r, sv1)" by force
  then have r: "r = ApplyInstalled 1 []" and sv1: "sv_config sv1 = sample_config" "\<not> sv_stopped sv1" "sv_configGeneration sv1 = 1" "\<not> sv_running sv1"
    by (auto simp: apply_config_locked_def initial_system_def new_service_def sample_parse_def)
  let ?s1 = "?s0\<lparr>sy_sv := sv1, sy_Conf := ConfCancel [] (Some (sample_config, 1))\<rparr>"
  let ?s2 = "?s1\<lparr>sy_Conf := ConfRecovery sample_config 1\<rparr>"
  obtain ok sv3 where sp: "start_priority_recovery_locked 1 (sy_Fresh ?s2) (sy_sv ?s2) = (ok, sv3)" by force
  let ?s3 = "?s2\<lparr>sy_sv := sv3, sy_Fresh := 1, sy_Conf := ConfFree,
    sy_Recoveries := (sy_Recoveries ?s2)(0 \<mapsto> \<lparr> rc_Cfg = sample_config, rc_Generation = 1, rc_Over = False \<rparr>)\<rparr>"
  have sv3: ok "sv_config sv3 = sample_config" "\<not> sv_stopped sv3" "sv_configGeneration sv3 = 1" "\<not> sv_running sv3"
    using sp sv1 by (auto simp: start_priority_recovery_locked_def)
  let ?s4 = "?s3\<lparr>sy_Manual := [(sample_config, 1)]\<rparr>"
  have "sample_step ?s0 ?s1"
    using sys_step.configure [of ?s0 sample_parse "''x''" 1 "[]" sv1] ap r by (simp add: to_configure_def sample_parse_def initial_system_def)
  moreover have "sample_step ?s1 ?s2"
    using sys_step.configure_cancelled [of ?s1 "Some (sample_config, 1)"] by (simp add: after_cancel_def after_scheduler_def sample_config_def zero_config_def)
  moreover have "sample_step ?s2 ?s3"
    using sys_step.start_recovery [of ?s2 sample_config 1 True sv3] sp sv3(1) by (simp add: initial_system_def)
  moreover have "sample_step ?s3 ?s4" using sys_step.manual [of _ _ _ ?s3] sv3 by (simp add: initial_system_def)
  ultimately have "sample_reach ?s4" by (meson sys_reach.intros)
  then show ?thesis using sv3 by (intro exI [of _ ?s4]) (simp add: initial_system_def)
qed

lemma sample_departure:
  "\<exists>s s' r. sample_reach s \<and> sample_step s s' \<and> sy_Runs s 1 = None \<and> sy_Runs s' 1 = Some r \<and> sy_Conf s' = ConfFree \<and> sy_Stop s' = [] \<and>
     unfinished s' 1 \<and> ru_Generation r = 1 \<and> sv_configGeneration (sy_sv s') = 1 \<and> \<not> sv_stopped (sy_sv s')"
proof -
  obtain s where s: "sample_reach s" "sy_Conf s = ConfFree" "sy_Stop s = []" "sy_Runs s = Map.empty" "sy_Manual s = [] @ (sample_config, 1) # []"
    "sy_Fresh s = 1" "\<not> sv_running (sy_sv s)" "\<not> sv_stopped (sy_sv s)" "sv_configGeneration (sy_sv s) = 1"
    using sample_configured by auto
  obtain res sv' where sr: "start_run sample_config 1 ''manual'' [] (dry_options True) (Inr []) (sy_Now s) (sy_Fresh s) (sy_sv s) = (res, sv')" by force
  have "trim_space ''m'' \<noteq> []" "trim_space ''hi'' \<noteq> []" by code_simp+
  then have "start_run_check sample_config (Inr []) = Inr (hex_encode [])"
    by (simp add: start_run_check_def sample_config_def zero_config_def random_id_def)
  then have "\<exists>report. res = Inr report" using sr s
    by (auto simp: start_run_def start_run_locked_def sample_config_def zero_config_def Let_def)
  then obtain report where res: "res = Inr report" by blast
  obtain script where sc: "run_script (still_host (sample_active 5) sample_file) (config_clone sample_config) (dry_options True) report script"
    using run_script_exists by blast
  let ?s' = "launch None 1 report script (s\<lparr>sy_sv := sv', sy_Manual := [] @ []\<rparr>)"
  have st: "sample_step s ?s'" by (rule sys_step.manual_run [OF s(5) sr [unfolded res] sc])
  have "script \<noteq> Some []" using sc by (auto elim: run_script_cases)
  then show ?thesis using st s start_run_Inr(4) [OF sr [unfolded res]]
    by (intro exI [of _ s] exI [of _ ?s']) (auto simp: launch_def unfinished_def)
qed

lemma sample_stopped:
  "\<exists>s. sample_reach s \<and> sv_stopped (sy_sv s) \<and> sy_Runs s = Map.empty \<and> sv_configGeneration (sy_sv s) = 1"
proof -
  obtain s where s: "sample_reach s" "sy_Conf s = ConfFree" "sy_Runs s = Map.empty" "\<not> sv_stopped (sy_sv s)" "sv_configGeneration (sy_sv s) = 1"
    using sample_configured by auto
  obtain cs sv' where sh: "shutdown_locked (sy_sv s) = (Some cs, sv')" using s(4) by (simp add: shutdown_locked_def)
  note st = sys_step.shutdown [OF s(2) sh] and sv' = shutdown_Some [OF sh]
  from sys_reach.reach_step [OF s(1) st] s sv' show ?thesis
    by (intro exI [of _ "s\<lparr>sy_sv := sv', sy_Stop := cs\<rparr>"]) simp
qed

lemma sample_reach_steps: "sample_reach s \<Longrightarrow> \<exists>now. sample_step\<^sup>*\<^sup>* (initial_system now) s"
  by (induction rule: sys_reach.induct) (auto intro: rtranclp.rtrancl_into_rtrancl)

lemma run_starts_in_force_witness:
  "\<exists>s s' r. sample_reach s \<and> sample_step s s' \<and> sy_Runs s' 1 = Some r \<and>
    (\<exists>options report. run_script (still_host (sample_active 5) sample_file) (sv_config (sy_sv s)) options report (ru_Script r) \<and>
       sv_active (sy_sv s') = Some report \<and> cf_HostEnabled (sv_config (sy_sv s)))"
proof -
  obtain s s' r where s: "sample_reach s" "sample_step s s'" "sy_Runs s 1 = None" "sy_Runs s' 1 = Some r" using sample_departure by blast
  from run_starts_in_force [OF s] s show ?thesis by blast
qed

lemma single_flight_witness:
  "\<exists>s. sample_reach s \<and> unfinished s 1 \<and> sv_running (sy_sv s) \<and> sv_activeCancel (sy_sv s) = Some 1"
proof -
  obtain s s' r where s: "sample_reach s" "sample_step s s'" "sy_Runs s' 1 = Some r" "unfinished s' 1" using sample_departure by blast
  then have "sample_reach s'" by (blast intro: sys_reach.intros)
  from single_flight [OF this] s this show ?thesis by blast
qed

lemma old_work_cancelled_witness:
  "\<exists>s r. sample_reach s \<and> sy_Conf s = ConfFree \<and> sy_Runs s 1 = Some r \<and> unfinished s 1 \<and> (current s (ru_Generation r) \<or> 1 \<in> sy_Cancelled s)"
proof -
  obtain s s' r where s: "sample_reach s" "sample_step s s'" "sy_Runs s' 1 = Some r" "unfinished s' 1" "sy_Conf s' = ConfFree" "sy_Stop s' = []"
    using sample_departure by blast
  then have r: "sample_reach s'" by (blast intro: sys_reach.intros)
  from old_work_cancelled [OF r s(5,6)] s r show ?thesis by blast
qed


lemma service_refines_airfield_witness:
  "\<exists>s. sample_reach s \<and> af_Generation (view s) = 1 \<and> airfield_step\<^sup>*\<^sup>* \<lparr> af_Shut = False, af_Generation = 0, af_Flight = None \<rparr> (view s)"
proof -
  obtain s where s: "sample_reach s" "sv_configGeneration (sy_sv s) = 1" using sample_stopped by blast
  obtain now where "sample_step\<^sup>*\<^sup>* (initial_system now) s" using sample_reach_steps [OF s(1)] by blast
  from service_refines_airfield [OF this] s show ?thesis by (auto simp: view_def)
qed

lemma shutdown_is_final_witness: "\<exists>s. sample_reach s \<and> sv_stopped (sy_sv s) \<and> \<not> (\<exists>s' c. sample_step\<^sup>*\<^sup>* s s' \<and> c \<in> dom (sy_Runs s'))"
proof -
  obtain s where s: "sample_reach s" "sv_stopped (sy_sv s)" "sy_Runs s = Map.empty" using sample_stopped by blast
  from shutdown_is_final [OF s(1,2)] s show ?thesis by (intro exI [of _ s]) auto
qed

lemma shutdown_can_finish_witness:
  "\<exists>s s'. sample_reach s \<and> sv_stopped (sy_sv s) \<and> sample_step\<^sup>*\<^sup>* s s' \<and> sy_Recoveries s' = Map.empty"
proof -
  obtain s where s: "sample_reach s" "sv_stopped (sy_sv s)" "sy_Runs s = Map.empty" using sample_stopped by blast
  then have "\<forall>c. \<not> stuck s c" by (simp add: stuck_def)
  from shutdown_can_finish [OF s(1,2) this] s show ?thesis by blast
qed

end
