(* ===== verification/Pin_Registry.thy ===== *)
theory Pin_Registry imports Refresh_Types Go_Sha256 begin

text \<open>
  \<^verbatim>\<open>cmd/cpa-auto-refresh-quota/pin.go\<close>: the registry of routing tokens by which one model call is
  tied to one credential. \<open>register\<close> opens an entry, the host's scheduler callback
  (\<open>pick_pinned_auth\<close>) answers for the token in the request's header, \<open>pin_finish\<close> closes the
  entry and says whether the scheduler really selected the credential. A nil registry is \<open>None\<close>;
  \<^verbatim>\<open>crypto/rand\<close> is a parameter, one result per attempt; headers are listed in the order in which
  the map is traversed. Each critical section of the mutex is one function.
\<close>

section \<open>Definitions\<close>

definition pinHeaderName :: string where
  "pinHeaderName = ''X-CPA-Auto-Refresh-Token''"

record pin_state =
  ps_AuthID :: string
  ps_SchedulerSeen :: bool
  ps_Selected :: bool

type_synonym pin_map = "string \<Rightarrow> pin_state option"
type_synonym pin_registry = "pin_map option"

definition empty_pin_state :: pin_state where
  "empty_pin_state = \<lparr> ps_AuthID = [], ps_SchedulerSeen = False, ps_Selected = False \<rparr>"

definition fresh_pin :: "string \<Rightarrow> pin_state" where
  "fresh_pin authID = \<lparr> ps_AuthID = authID, ps_SchedulerSeen = False, ps_Selected = False \<rparr>"

definition newAuthPinRegistry :: pin_registry where
  "newAuthPinRegistry = Some (\<lambda>_. None)"

definition hex_token :: "bytes \<Rightarrow> string" where
  "hex_token raw = hex_encode (map of_char raw)"

fun register_attempts :: "(nat \<Rightarrow> err + bytes) \<Rightarrow> pin_map \<Rightarrow> string \<Rightarrow> nat \<Rightarrow> nat \<Rightarrow> pin_map \<times> (err + string)" where
  "register_attempts rand pins authID attempt 0 = (pins, Inl (ErrNew ''create unique routing token''))"
| "register_attempts rand pins authID attempt (Suc left) =
     (case rand attempt of
        Inl e \<Rightarrow> (pins, Inl (ErrWrap ''create routing token: '' e))
      | Inr raw \<Rightarrow>
          (let token = hex_token raw
           in if pins token = None then (pins(token \<mapsto> fresh_pin authID), Inr token)
              else register_attempts rand pins authID (attempt + 1) left))"

definition register_pin :: "(nat \<Rightarrow> err + bytes) \<Rightarrow> pin_registry \<Rightarrow> string \<Rightarrow> pin_registry \<times> (err + string)" where
  "register_pin rand r rawID =
     (let authID = trim_space rawID
      in if authID = [] then (r, Inl (ErrNew ''auth ID is required''))
         else case r of
           None \<Rightarrow> (r, Inl (ErrNew ''auth pin registry is unavailable''))
         | Some pins \<Rightarrow> (case register_attempts rand pins authID 0 4 of (pins', res) \<Rightarrow> (Some pins', res)))"

definition pin_finish :: "pin_registry \<Rightarrow> string \<Rightarrow> pin_registry \<times> pin_state \<times> bool" where
  "pin_finish r token =
     (case r of
        None \<Rightarrow> (r, empty_pin_state, False)
      | Some pins \<Rightarrow>
          if token = [] then (r, empty_pin_state, False)
          else (Some (pins(token := None)),
                (case pins token of None \<Rightarrow> empty_pin_state | Some st \<Rightarrow> st), pins token \<noteq> None))"

fun header_items :: "string list \<Rightarrow> string list" where
  "header_items [] = []"
| "header_items (item # items) =
     (let item' = trim_space item in if item' \<noteq> [] then item' # header_items items else header_items items)"

fun pin_header_values :: "header \<Rightarrow> string list \<times> bool" where
  "pin_header_values [] = ([], False)"
| "pin_header_values ((key, items) # hs) =
     (if \<not> equal_fold_ascii (trim_space key) pinHeaderName then pin_header_values hs
      else (header_items items @ fst (pin_header_values hs), True))"

definition mark_seen :: "pin_map \<Rightarrow> string \<Rightarrow> pin_map" where
  "mark_seen pins token =
     (case pins token of None \<Rightarrow> pins | Some st \<Rightarrow> pins(token \<mapsto> st\<lparr>ps_SchedulerSeen := True\<rparr>))"

definition match_header :: "pin_registry \<Rightarrow> header \<Rightarrow> pin_registry \<times> string \<times> pin_state \<times> bool \<times> err option" where
  "match_header r headers =
     (case r of
        None \<Rightarrow> (r, [], empty_pin_state, False, None)
      | Some pins \<Rightarrow>
          (case pin_header_values headers of
             (vals, present) \<Rightarrow>
               if \<not> present then (r, [], empty_pin_state, False, None)
               else if vals = [] then (r, [], empty_pin_state, True, Some ErrInvalidPinHeader)
               else let known = filter (\<lambda>v. pins v \<noteq> None) vals
                    in if known = [] then (r, [], empty_pin_state, True, Some ErrInvalidPinHeader)
                       else let pins' = foldl mark_seen pins known
                            in if length vals \<noteq> 1 \<or> length known \<noteq> 1
                               then (Some pins', [], empty_pin_state, True, Some ErrInvalidPinHeader)
                               else (Some pins', hd known, the (pins' (hd known)), True, None)))"

definition mark_selected :: "pin_registry \<Rightarrow> string \<Rightarrow> pin_registry" where
  "mark_selected r token =
     (case r of
        None \<Rightarrow> r
      | Some pins \<Rightarrow>
          if token = [] then r
          else (case pins token of None \<Rightarrow> r
                | Some st \<Rightarrow> Some (pins(token \<mapsto> st\<lparr>ps_SchedulerSeen := True, ps_Selected := True\<rparr>))))"

definition pick_pinned_auth :: "pin_registry \<Rightarrow> header \<Rightarrow> string list \<Rightarrow> pin_registry \<times> (err + string \<times> bool)" where
  "pick_pinned_auth r headers candidates =
     (case match_header r headers of
        (r', token, st, handled, errMatch) \<Rightarrow>
          (case errMatch of
             Some e \<Rightarrow> (r', Inl e)
           | None \<Rightarrow>
               if \<not> handled then (r', Inr ([], False))
               else if \<exists>c \<in> set candidates. trim_space c = ps_AuthID st
               then (mark_selected r' token, Inr (ps_AuthID st, True))
               else (r', Inl ErrPinnedAuthUnavailable)))"

section \<open>Registration\<close>

lemma register_attempts_spec:
  "register_attempts rand pins authID attempt left = (pins', res) \<Longrightarrow>
     (case res of
        Inl e \<Rightarrow> pins' = pins
      | Inr token \<Rightarrow> pins token = None \<and> pins' = pins(token \<mapsto> fresh_pin authID) \<and>
          (\<exists>k < left. \<exists>raw. rand (attempt + k) = Inr raw \<and> token = hex_token raw))"
proof (induction rand pins authID attempt left rule: register_attempts.induct)
  case (2 rand pins authID attempt left)
  show ?case
  proof (cases "rand attempt")
    case (Inl e)
    with "2.prems" show ?thesis by auto
  next
    case (Inr raw)
    show ?thesis
    proof (cases "pins (hex_token raw) = None")
      case True
      moreover have "\<exists>k < Suc left. \<exists>raw'. rand (attempt + k) = Inr raw' \<and> hex_token raw = hex_token raw'"
        using Inr by (intro exI [of _ 0]) auto
      moreover have "res = Inr (hex_token raw)" "pins' = pins(hex_token raw \<mapsto> fresh_pin authID)"
        using "2.prems" Inr True by (auto simp: Let_def)
      ultimately show ?thesis using True by simp
    next
      case False
      with "2.prems" Inr have "register_attempts rand pins authID (attempt + 1) left = (pins', res)"
        by (auto simp: Let_def)
      note ih = "2.IH" [OF Inr refl False this]
      show ?thesis
      proof (cases res)
        case err: (Inl e)
        with ih show ?thesis by simp
      next
        case tok: (Inr token)
        with ih obtain k raw' where k: "pins token = None" "pins' = pins(token \<mapsto> fresh_pin authID)" "k < left"
          "rand (attempt + 1 + k) = Inr raw'" "token = hex_token raw'" by auto
        then have "\<exists>k < Suc left. \<exists>raw. rand (attempt + k) = Inr raw \<and> token = hex_token raw"
          by (intro exI [of _ "Suc k"]) auto
        with k tok show ?thesis by simp
      qed
    qed
  qed
qed auto

section \<open>Matching and marking\<close>

lemma mark_seen_apply:
  "mark_seen pins t u = (if u = t then map_option (ps_SchedulerSeen_update (\<lambda>_. True)) (pins u) else pins u)"
  by (auto simp: mark_seen_def split: option.splits)

lemma foldl_mark_seen:
  "foldl mark_seen pins ts u = (if u \<in> set ts then map_option (ps_SchedulerSeen_update (\<lambda>_. True)) (pins u) else pins u)"
proof (induction ts arbitrary: pins)
  case (Cons t ts)
  have "map_option (ps_SchedulerSeen_update (\<lambda>_. True)) (map_option (ps_SchedulerSeen_update (\<lambda>_. True)) x) =
        map_option (ps_SchedulerSeen_update (\<lambda>_. True)) x" for x :: "pin_state option"
    by (cases x) auto
  with Cons show ?case by (auto simp: mark_seen_apply)
qed simp

lemma mark_selected_apply:
  "mark_selected (Some pins) t = Some (\<lambda>u. if u = t \<and> t \<noteq> []
     then map_option (\<lambda>st. st\<lparr>ps_SchedulerSeen := True, ps_Selected := True\<rparr>) (pins u) else pins u)"
  by (auto simp: mark_selected_def split: option.splits)

lemma header_values_nonblank: "v \<in> set (header_items items) \<Longrightarrow> v \<noteq> [] \<and> trim_space v = v"
  by (induction items rule: header_items.induct) (auto simp: Let_def trim_space_idem split: if_splits)

lemma pin_header_values_nonblank: "v \<in> set (fst (pin_header_values hs)) \<Longrightarrow> v \<noteq> []"
  by (induction hs rule: pin_header_values.induct) (auto dest: header_values_nonblank split: if_splits)

lemma pin_header_present:
  "snd (pin_header_values hs) \<longleftrightarrow> (\<exists>h \<in> set hs. equal_fold_ascii (trim_space (fst h)) pinHeaderName)"
  by (induction hs rule: pin_header_values.induct) auto

text \<open>What the scheduler callback does, case by case.\<close>

lemma pick_pinned_auth_cases:
  assumes "pin_header_values headers = (vals, present)"
  shows "pick_pinned_auth (Some pins) headers candidates =
     (if \<not> present then (Some pins, Inr ([], False))
      else case vals of
        [t] \<Rightarrow> (case pins t of
                 None \<Rightarrow> (Some pins, Inl ErrInvalidPinHeader)
               | Some st \<Rightarrow>
                   if \<exists>c \<in> set candidates. trim_space c = ps_AuthID st
                   then (mark_selected (Some pins) t, Inr (ps_AuthID st, True))
                   else (Some (mark_seen pins t), Inl ErrPinnedAuthUnavailable))
      | _ \<Rightarrow> (Some (foldl mark_seen pins (filter (\<lambda>v. pins v \<noteq> None) vals)), Inl ErrInvalidPinHeader))"
proof -
  have nb: "v \<noteq> []" if "v \<in> set vals" for v using pin_header_values_nonblank [of v headers] assms that by simp
  show ?thesis
  proof (cases vals rule: list.exhaust)
    case Nil
    then show ?thesis using assms by (simp add: pick_pinned_auth_def match_header_def)
  next
    case (Cons t ts)
    show ?thesis
    proof (cases ts)
      case Nil
      have "t \<noteq> []" using nb Cons by simp
      then have sel: "mark_selected (Some (mark_seen pins t)) t = mark_selected (Some pins) t"
        by (auto simp: mark_selected_apply mark_seen_apply fun_eq_iff option.map_comp comp_def)
      show ?thesis using assms Cons Nil nb sel
        by (cases "pins t") (auto simp: pick_pinned_auth_def match_header_def mark_seen_apply Let_def)
    next
      case more: (Cons u us)
      then show ?thesis using assms Cons
        by (auto simp: pick_pinned_auth_def match_header_def Let_def)
    qed
  qed
qed

section \<open>The store of routing tokens\<close>

text \<open>
  What the calls of other threads do to the entries, one critical section at a time, and the laws
  that let a call rely on its own entry while the others run.
\<close>

datatype pin_action = ActOpen string string | ActSeen "string list" | ActSelect string | ActClose string

definition pin_apply :: "pin_map \<Rightarrow> pin_action \<Rightarrow> pin_map" where
  "pin_apply pins act =
     (case act of
        ActOpen t a \<Rightarrow> (if pins t = None then pins(t \<mapsto> fresh_pin a) else pins)
      | ActSeen ts \<Rightarrow> foldl mark_seen pins (filter (\<lambda>v. pins v \<noteq> None) ts)
      | ActSelect t \<Rightarrow> the (mark_selected (Some pins) t)
      | ActClose t \<Rightarrow> the (fst (pin_finish (Some pins) t)))"

locale token_store =
  fixes get :: "'r \<Rightarrow> string \<Rightarrow> pin_state option" and act :: "'r \<Rightarrow> pin_action \<Rightarrow> 'r"
  assumes get_open: "get (act r (ActOpen t a)) u = (if u = t \<and> get r t = None then Some (fresh_pin a) else get r u)"
    and get_seen: "get (act r (ActSeen ts)) u =
      (if u \<in> set ts then map_option (ps_SchedulerSeen_update (\<lambda>_. True)) (get r u) else get r u)"
    and get_select: "t \<noteq> [] \<Longrightarrow> get (act r (ActSelect t)) u =
      (if u = t then map_option (\<lambda>st. st\<lparr>ps_SchedulerSeen := True, ps_Selected := True\<rparr>) (get r u) else get r u)"
    and get_close: "t \<noteq> [] \<Longrightarrow> get (act r (ActClose t)) u = (if u = t then None else get r u)"
begin

lemma own_entry_step:
  assumes "get r t = Some st" "a \<noteq> ActClose t" "a \<noteq> ActSelect []" "a \<noteq> ActClose []"
  obtains st' where "get (act r a) t = Some st'" "ps_AuthID st' = ps_AuthID st"
    "ps_Selected st' \<longleftrightarrow> ps_Selected st \<or> a = ActSelect t"
proof (cases a)
  case (ActOpen u b)
  with assms that show ?thesis by (cases "u = t") (auto simp: get_open)
next
  case (ActSeen ts)
  with assms that show ?thesis by (cases "t \<in> set ts") (auto simp: get_seen)
next
  case (ActSelect u)
  with assms that show ?thesis by (cases "u = t") (auto simp: get_select)
next
  case (ActClose u)
  with assms that show ?thesis by (auto simp: get_close)
qed

lemma own_entry_run:
  assumes "get r t = Some st" "ActClose t \<notin> set as" "ActSelect [] \<notin> set as" "ActClose [] \<notin> set as"
  shows "\<exists>st'. get (foldl act r as) t = Some st' \<and> ps_AuthID st' = ps_AuthID st \<and>
    (ps_Selected st' \<longleftrightarrow> ps_Selected st \<or> ActSelect t \<in> set as)"
  using assms
proof (induction as arbitrary: r st)
  case (Cons a as)
  obtain st' where "get (act r a) t = Some st'" "ps_AuthID st' = ps_AuthID st"
    "ps_Selected st' \<longleftrightarrow> ps_Selected st \<or> a = ActSelect t"
    using Cons.prems by (auto intro: own_entry_step [of r t st a])
  with Cons.IH [of "act r a" st'] Cons.prems show ?case by auto
qed simp

end

interpretation pins: token_store "\<lambda>r t. r t" pin_apply
  by unfold_locales
    (auto simp: pin_apply_def foldl_mark_seen mark_selected_apply pin_finish_def split: if_splits)

section \<open>Interleavings\<close>

text \<open>
  The whole registry with its callers: model calls that open and close entries, scheduler callbacks
  between their two critical sections (\<open>answering\<close>), and the record of what happened. A token
  is 32 random bytes: a new one differs from every token used before.
\<close>

record pin_system =
  sys_pins :: pin_map
  sys_opened :: "(string \<times> string) set"
  sys_answering :: "(string \<times> string) set"
  sys_picked :: "(string \<times> string) set"
  sys_closed :: "(string \<times> pin_state) set"

definition pin_start :: pin_system where
  "pin_start = \<lparr> sys_pins = (\<lambda>_. None), sys_opened = {}, sys_answering = {}, sys_picked = {}, sys_closed = {} \<rparr>"

inductive pin_step :: "pin_system \<Rightarrow> pin_system \<Rightarrow> bool" where
  open_call: "register_pin rand (Some (sys_pins s)) rawID = (Some pins', Inr token) \<Longrightarrow>
    token \<notin> fst ` sys_opened s \<Longrightarrow>
    pin_step s (s\<lparr>sys_pins := pins', sys_opened := insert (token, trim_space rawID) (sys_opened s)\<rparr>)"
| match_ok: "match_header (Some (sys_pins s)) headers = (Some pins', token, st, True, None) \<Longrightarrow>
    \<exists>c \<in> set candidates. trim_space c = ps_AuthID st \<Longrightarrow>
    pin_step s (s\<lparr>sys_pins := pins', sys_answering := insert (token, ps_AuthID st) (sys_answering s)\<rparr>)"
| match_refused: "match_header (Some (sys_pins s)) headers = (Some pins', token, st, handled, e) \<Longrightarrow>
    pin_step s (s\<lparr>sys_pins := pins'\<rparr>)"
| answer: "(token, a) \<in> sys_answering s \<Longrightarrow> mark_selected (Some (sys_pins s)) token = Some pins' \<Longrightarrow>
    pin_step s (s\<lparr>sys_pins := pins', sys_answering := sys_answering s - {(token, a)},
      sys_picked := insert (token, a) (sys_picked s)\<rparr>)"
| close_call: "pin_finish (Some (sys_pins s)) token = (Some pins', st, True) \<Longrightarrow>
    pin_step s (s\<lparr>sys_pins := pins', sys_closed := insert (token, st) (sys_closed s)\<rparr>)"

definition pin_inv :: "pin_system \<Rightarrow> bool" where
  "pin_inv s \<longleftrightarrow>
     (\<forall>t a b. (t, a) \<in> sys_opened s \<and> (t, b) \<in> sys_opened s \<longrightarrow> a = b) \<and>
     (\<forall>t st. sys_pins s t = Some st \<longrightarrow> (t, ps_AuthID st) \<in> sys_opened s) \<and>
     sys_answering s \<subseteq> sys_opened s \<and> sys_picked s \<subseteq> sys_opened s \<and>
     (\<forall>t st. sys_pins s t = Some st \<and> ps_Selected st \<longrightarrow> (t, ps_AuthID st) \<in> sys_picked s) \<and>
     (\<forall>t st. (t, st) \<in> sys_closed s \<longrightarrow> (t, ps_AuthID st) \<in> sys_opened s \<and>
        (ps_Selected st \<longrightarrow> (t, ps_AuthID st) \<in> sys_picked s))"

lemma register_pin_effect:
  assumes "register_pin rand (Some pins) rawID = (r', Inr token)"
  shows "r' = Some (pins(token \<mapsto> fresh_pin (trim_space rawID))) \<and> pins token = None \<and> trim_space rawID \<noteq> []"
  using assms register_attempts_spec [of rand pins "trim_space rawID" 0 4]
  by (fastforce simp: register_pin_def Let_def split: if_splits prod.splits)

lemma match_header_effect:
  assumes "match_header (Some pins) headers = (Some pins', token, st, handled, e)"
  obtains ts where "pins' = foldl mark_seen pins ts" "set ts \<subseteq> dom pins"
    "handled \<and> e = None \<longrightarrow> token \<in> dom pins \<and> pins' token = Some st"
proof -
  obtain vals present where v: "pin_header_values headers = (vals, present)" by fastforce
  let ?known = "filter (\<lambda>v. pins v \<noteq> None) vals"
  consider "pins' = pins" "\<not> (handled \<and> e = None)"
    | "pins' = foldl mark_seen pins ?known" "handled \<and> e = None \<longrightarrow> ?known \<noteq> [] \<and> token = hd ?known \<and> st = the (pins' token)"
    using assms v by (auto simp: match_header_def Let_def split: if_splits)
  then show ?thesis
  proof cases
    case 1
    with that [of "[]"] show ?thesis by simp
  next
    case 2
    have "token \<in> dom pins \<and> pins' token = Some st" if "handled \<and> e = None"
    proof -
      have "token \<in> set ?known" using 2(2) that hd_in_set by blast
      then show ?thesis using 2 that by (auto simp: foldl_mark_seen)
    qed
    with that [of ?known] 2(1) show ?thesis by auto
  qed
qed

lemma pin_inv_seen:
  assumes "pin_inv s" "set ts \<subseteq> dom (sys_pins s)"
  shows "pin_inv (s\<lparr>sys_pins := foldl mark_seen (sys_pins s) ts\<rparr>)"
  using assms(1) unfolding pin_inv_def by (auto simp: foldl_mark_seen split: if_splits)

lemma pin_inv_answering:
  "pin_inv s \<Longrightarrow> (t, a) \<in> sys_opened s \<Longrightarrow> pin_inv (s\<lparr>sys_answering := insert (t, a) (sys_answering s)\<rparr>)"
  by (simp add: pin_inv_def)

lemma pin_inv_open:
  assumes "pin_inv s" "t \<notin> fst ` sys_opened s"
  shows "pin_inv (s\<lparr>sys_pins := (sys_pins s)(t \<mapsto> fresh_pin a), sys_opened := insert (t, a) (sys_opened s)\<rparr>)"
proof -
  have new: "(t, b) \<notin> sys_opened s" for b using assms(2) by force
  show ?thesis using assms(1) new unfolding pin_inv_def by (auto simp: fresh_pin_def split: if_splits)
qed

lemma pin_inv_answer:
  assumes "pin_inv s" "(t, a) \<in> sys_answering s" "mark_selected (Some (sys_pins s)) t = Some pins'"
  shows "pin_inv (s\<lparr>sys_pins := pins', sys_answering := sys_answering s - {(t, a)},
      sys_picked := insert (t, a) (sys_picked s)\<rparr>)"
proof -
  have id: "ps_AuthID st = a" if "sys_pins s t = Some st" for st
    using assms(1,2) that unfolding pin_inv_def by blast
  have "pins' u = (if u = t \<and> t \<noteq> [] then map_option (\<lambda>st. st\<lparr>ps_SchedulerSeen := True, ps_Selected := True\<rparr>) (sys_pins s u)
      else sys_pins s u)" for u
    using assms(3) by (auto simp: mark_selected_apply)
  with assms(1,2) id show ?thesis unfolding pin_inv_def by (auto split: if_splits)
qed

lemma pin_inv_close:
  assumes "pin_inv s" "pin_finish (Some (sys_pins s)) t = (Some pins', st, True)"
  shows "pin_inv (s\<lparr>sys_pins := pins', sys_closed := insert (t, st) (sys_closed s)\<rparr>)"
proof -
  have "sys_pins s t = Some st" "pins' = (sys_pins s)(t := None)"
    using assms(2) by (auto simp: pin_finish_def split: if_splits)
  with assms(1) show ?thesis unfolding pin_inv_def by (auto split: if_splits)
qed

lemma pin_inv_step: "pin_step s s' \<Longrightarrow> pin_inv s \<Longrightarrow> pin_inv s'"
proof (induction rule: pin_step.induct)
  case (open_call rand s rawID pins' token)
  have "pins' = (sys_pins s)(token \<mapsto> fresh_pin (trim_space rawID))" using register_pin_effect [OF open_call(1)] by simp
  with pin_inv_open [OF open_call(3,2)] show ?case by simp
next
  case (match_ok s headers pins' token st candidates)
  obtain ts where ts: "pins' = foldl mark_seen (sys_pins s) ts" "set ts \<subseteq> dom (sys_pins s)" "pins' token = Some st"
    using match_header_effect [OF match_ok(1)] by metis
  have "pin_inv (s\<lparr>sys_pins := pins'\<rparr>)" using pin_inv_seen [OF match_ok(3) ts(2)] ts(1) by simp
  moreover from this have "(token, ps_AuthID st) \<in> sys_opened s" using ts(3) by (simp add: pin_inv_def)
  ultimately show ?case using pin_inv_answering [of "s\<lparr>sys_pins := pins'\<rparr>" token "ps_AuthID st"] by simp
next
  case (match_refused s headers pins' token st handled e)
  obtain ts where "pins' = foldl mark_seen (sys_pins s) ts" "set ts \<subseteq> dom (sys_pins s)"
    using match_header_effect [OF match_refused(1)] by metis
  with pin_inv_seen match_refused(2) show ?case by simp
next
  case (answer token a s pins')
  then show ?case by (intro pin_inv_answer)
next
  case (close_call s token pins' st)
  then show ?case by (intro pin_inv_close)
qed

lemma pin_inv_reachable: "pin_step\<^sup>*\<^sup>* pin_start s \<Longrightarrow> pin_inv s"
proof (induction rule: rtranclp_induct)
  case base
  show ?case by (simp add: pin_start_def pin_inv_def)
qed (rule pin_inv_step)

lemma case_not_single: "\<nexists>t. vs = [t] \<Longrightarrow> (case vs of [t] \<Rightarrow> f t | _ \<Rightarrow> g) = g"
  by (auto split: list.splits)

section \<open>Properties\<close>

text \<open>C24. The scheduler callback fails closed: on a request that carries the token header it never declines
  to the host's own choice. It answers only for a single known token, only with the credential
  that token was opened for, and only when that credential is a candidate; otherwise it is an error.\<close>

theorem pick_fails_closed:
  assumes "h \<in> set headers" "equal_fold_ascii (trim_space (fst h)) pinHeaderName"
    "pick_pinned_auth (Some pins) headers candidates = (r', res)"
  shows "(\<exists>t st. fst (pin_header_values headers) = [t] \<and> pins t = Some st \<and> res = Inr (ps_AuthID st, True) \<and>
            (\<exists>c \<in> set candidates. trim_space c = ps_AuthID st) \<and> r' = mark_selected (Some pins) t) \<or>
         (res = Inl ErrInvalidPinHeader \<or> res = Inl ErrPinnedAuthUnavailable) \<and>
           (\<exists>ts. r' = Some (foldl mark_seen pins ts))"
proof -
  have present: "snd (pin_header_values headers)" using assms(1,2) pin_header_present by blast
  obtain vals where v: "pin_header_values headers = (vals, True)" using present by (metis prod.collapse)
  note c = pick_pinned_auth_cases [OF v, of pins candidates, unfolded assms(3)]
  show ?thesis
  proof (cases "\<exists>t. vals = [t]")
    case True
    then obtain t where t: "vals = [t]" by blast
    show ?thesis using c v t
      by (cases "pins t") (auto intro: exI [of _ "[]"] exI [of _ "[t]"] split: if_splits)
  next
    case False
    then have "(r', res) = (Some (foldl mark_seen pins (filter (\<lambda>v. pins v \<noteq> None) vals)), Inl ErrInvalidPinHeader)"
      using c case_not_single [OF False] by (simp only: not_True_eq_False if_False)
    then show ?thesis by blast
  qed
qed

text \<open>C14. However scheduler callbacks and other model calls interleave, a call that finds its entry selected
  when it closes it was answered for its own token with the credential it had asked for, and no
  callback ever answers for a token with any other credential.\<close>

theorem selected_means_answered:
  assumes "pin_step\<^sup>*\<^sup>* pin_start s"
  shows "((token, a) \<in> sys_opened s \<and> (token, st) \<in> sys_closed s \<and> ps_Selected st \<longrightarrow> (token, a) \<in> sys_picked s) \<and>
         ((token, b) \<in> sys_picked s \<longrightarrow> (token, b) \<in> sys_opened s) \<and>
         ((token, a) \<in> sys_opened s \<and> (token, b) \<in> sys_opened s \<longrightarrow> a = b)"
  using pin_inv_reachable [OF assms] unfolding pin_inv_def by blast

text \<open>Opening, calling and closing: \<^verbatim>\<open>register\<close> yields a token no live entry has, and whatever the other
  threads do to their own entries meanwhile, \<^verbatim>\<open>finish\<close> returns the registered credential, selected
  exactly when a callback marked this token, and removes the entry.\<close>

theorem register_finish:
  assumes "register_pin rand (Some pins) rawID = (Some pins', Inr token)" "token \<noteq> []"
    "ActClose token \<notin> set acts" "ActSelect [] \<notin> set acts" "ActClose [] \<notin> set acts"
  shows "pins token = None \<and>
    (\<exists>r st. pin_finish (Some (foldl pin_apply pins' acts)) token = (Some r, st, True) \<and> r token = None \<and>
       ps_AuthID st = trim_space rawID \<and> (ps_Selected st \<longleftrightarrow> ActSelect token \<in> set acts))"
proof -
  note reg = register_pin_effect [OF assms(1)]
  then have "pins' token = Some (fresh_pin (trim_space rawID))" by simp
  from pins.own_entry_run [where r = pins' and t = token, OF this assms(3-5)] obtain st where
    "foldl pin_apply pins' acts token = Some st" "ps_AuthID st = trim_space rawID" "ps_Selected st \<longleftrightarrow> ActSelect token \<in> set acts"
    by (auto simp: fresh_pin_def)
  with reg assms(2) show ?thesis by (simp add: pin_finish_def)
qed

section \<open>Examples\<close>

definition sample_pins :: pin_map where
  "sample_pins = [''tok'' \<mapsto> fresh_pin ''auth'']"

lemma pick_fails_closed_witness:
  "snd (pick_pinned_auth (Some sample_pins) [(''x-cpa-auto-refresh-token'', [''tok''])] [''other'', ''auth'']) = Inr (''auth'', True)"
proof -
  obtain r' res where p: "pick_pinned_auth (Some sample_pins) [(''x-cpa-auto-refresh-token'', [''tok''])] [''other'', ''auth''] = (r', res)"
    by fastforce
  have h: "equal_fold_ascii (trim_space (fst (''x-cpa-auto-refresh-token'', [''tok'']))) pinHeaderName" by code_simp
  have v: "pin_header_values [(''x-cpa-auto-refresh-token'', [''tok''])] = ([''tok''], True)" by code_simp
  have "trim_space ''auth'' = ''auth''" by code_simp
  then have "res \<noteq> Inl ErrInvalidPinHeader" "res \<noteq> Inl ErrPinnedAuthUnavailable"
    using pick_pinned_auth_cases [OF v, of sample_pins "[''other'', ''auth'']"] p
    by (auto simp: sample_pins_def fresh_pin_def)
  with pick_fails_closed [OF _ h p] v p show ?thesis
    by (auto simp: sample_pins_def fresh_pin_def)
qed

definition picked_pin :: pin_state where
  "picked_pin = \<lparr> ps_AuthID = ''auth'', ps_SchedulerSeen = True, ps_Selected = True \<rparr>"

lemma sample_register:
  "register_pin (\<lambda>_. Inr [CHR 0x00]) (Some (\<lambda>_. None)) ''auth'' = (Some [''00'' \<mapsto> fresh_pin ''auth''], Inr ''00'')"
proof -
  have "trim_space ''auth'' = ''auth''" "hex_token [CHR 0x00] = ''00''" by code_simp+
  then show ?thesis by (simp add: register_pin_def Let_def eval_nat_numeral)
qed

text \<open>A call that is opened, matched, answered and closed.\<close>

lemma sample_run:
  "\<exists>s. pin_step\<^sup>*\<^sup>* pin_start s \<and> (''00'', ''auth'') \<in> sys_opened s \<and> (''00'', picked_pin) \<in> sys_closed s"
proof -
  let ?s1 = "pin_start\<lparr>sys_pins := [''00'' \<mapsto> fresh_pin ''auth''], sys_opened := {(''00'', ''auth'')}\<rparr>"
  let ?seen = "(fresh_pin ''auth'')\<lparr>ps_SchedulerSeen := True\<rparr>"
  let ?s2 = "?s1\<lparr>sys_pins := [''00'' \<mapsto> ?seen], sys_answering := {(''00'', ''auth'')}\<rparr>"
  let ?s3 = "?s2\<lparr>sys_pins := [''00'' \<mapsto> picked_pin], sys_answering := {}, sys_picked := {(''00'', ''auth'')}\<rparr>"
  let ?s4 = "?s3\<lparr>sys_pins := (\<lambda>_. None), sys_closed := {(''00'', picked_pin)}\<rparr>"
  have t: "trim_space ''auth'' = ''auth''" by code_simp
  have v: "pin_header_values [(pinHeaderName, [''00''])] = ([''00''], True)" by code_simp
  have "pin_step pin_start ?s1"
    using pin_step.open_call [of "\<lambda>_. Inr [CHR 0x00]" pin_start "''auth''", simplified pin_start_def pin_system.simps, OF sample_register]
    by (simp add: pin_start_def t)
  moreover have "pin_step ?s1 ?s2"
    using pin_step.match_ok [of ?s1 "[(pinHeaderName, [''00''])]" "[''00'' \<mapsto> ?seen]" "''00''" ?seen "[''auth'']"] v t
    by (simp add: match_header_def mark_seen_def pin_start_def fresh_pin_def)
  moreover have "pin_step ?s2 ?s3"
    using pin_step.answer [of "''00''" "''auth''" ?s2 "[''00'' \<mapsto> picked_pin]"]
    by (simp add: mark_selected_def pin_start_def fresh_pin_def picked_pin_def)
  moreover have "pin_step ?s3 ?s4"
    using pin_step.close_call [of ?s3 "''00''" "\<lambda>_. None" picked_pin]
    by (simp add: pin_finish_def pin_start_def)
  ultimately have "pin_step\<^sup>*\<^sup>* pin_start ?s4"
    by (meson converse_rtranclp_into_rtranclp rtranclp.rtrancl_refl)
  then show ?thesis by (intro exI [of _ ?s4]) simp
qed

lemma selected_means_answered_witness:
  "\<exists>s. pin_step\<^sup>*\<^sup>* pin_start s \<and> (''00'', ''auth'') \<in> sys_picked s"
proof -
  from sample_run obtain s where s: "pin_step\<^sup>*\<^sup>* pin_start s" "(''00'', ''auth'') \<in> sys_opened s"
    "(''00'', picked_pin) \<in> sys_closed s" by blast
  moreover have "ps_Selected picked_pin" by (simp add: picked_pin_def)
  ultimately show ?thesis using selected_means_answered [OF s(1)] by blast
qed

lemma register_finish_witness:
  "\<exists>r st. pin_finish (Some (foldl pin_apply [''00'' \<mapsto> fresh_pin ''auth''] [ActSelect ''00''])) ''00'' = (Some r, st, True) \<and>
     ps_AuthID st = ''auth'' \<and> ps_Selected st"
proof -
  have "trim_space ''auth'' = ''auth''" by code_simp
  with register_finish [OF sample_register, of "[ActSelect ''00'']"] show ?thesis by auto
qed

end
