(* ===== verification/Auth_Store.thy ===== *)
theory Auth_Store imports Host_Interface Go_Path begin

text \<open>
  Reading and replacing credential files (\<^verbatim>\<open>cmd/cpa-auto-refresh-quota/main.go\<close>, \<^verbatim>\<open>replace_unix.go\<close>), for a Unix build.
  A disk is the files by path, the clock, and, for the statements only, the files as each system call found them. Every
  system call can fail, takes time, and comes after whatever other programs did to the files: these are the functions of the
  record \<open>os\<close>, indexed by the number of the call. A whole file is read at one instant; \<^verbatim>\<open>CreateTemp\<close> is its last attempt at a name. Only the last element of a path can be a
  symbolic link.
\<close>

section \<open>Files and system calls\<close>

datatype node = RegularFile bytes nat | Symlink string | OtherNode

type_synonym files = "string \<rightharpoonup> node"

record disk =
  dk_Files :: files
  dk_Now :: instant
  dk_Seen :: "files list"

record os =
  os_Fault :: "nat \<Rightarrow> err option"
  os_Others :: "nat \<Rightarrow> files \<Rightarrow> files"
  os_Took :: "nat \<Rightarrow> nat"
  os_Random :: "nat \<Rightarrow> string"

definition sys_call :: "os \<Rightarrow> (files \<Rightarrow> (err + 'a) \<times> files) \<Rightarrow> disk \<Rightarrow> (err + 'a) \<times> disk" where
  "sys_call E f d =
     (let n = length (dk_Seen d);
          found = os_Others E n (dk_Files d);
          res = (case os_Fault E n of Some e \<Rightarrow> (Inl e, found) | None \<Rightarrow> f found)
      in (fst res, \<lparr> dk_Files = snd res, dk_Now = dk_Now d + int (os_Took E n), dk_Seen = dk_Seen d @ [found] \<rparr>))"

definition after :: "(disk \<Rightarrow> (err + 'a) \<times> disk) \<Rightarrow> ('a \<Rightarrow> disk \<Rightarrow> (err + 'b) \<times> disk) \<Rightarrow> disk \<Rightarrow> (err + 'b) \<times> disk" where
  "after m f d = (case m d of (Inl e, d1) \<Rightarrow> (Inl e, d1) | (Inr a, d1) \<Rightarrow> f a d1)"

definition failing :: "string \<Rightarrow> (disk \<Rightarrow> (err + 'a) \<times> disk) \<Rightarrow> disk \<Rightarrow> (err + 'a) \<times> disk" where
  "failing prefix m d = (case m d of (Inl e, d1) \<Rightarrow> (Inl (ErrWrap prefix e), d1) | (Inr a, d1) \<Rightarrow> (Inr a, d1))"

definition unless_done :: "ctx \<Rightarrow> (disk \<Rightarrow> (err + 'a) \<times> disk) \<Rightarrow> disk \<Rightarrow> (err + 'a) \<times> disk" where
  "unless_done c m d = (case ctx_err c (dk_Now d) of Some e \<Rightarrow> (Inl e, d) | None \<Rightarrow> m d)"

fun follow_links :: "nat \<Rightarrow> files \<Rightarrow> string \<Rightarrow> string option" where
  "follow_links 0 fs path = None"
| "follow_links (Suc n) fs path =
     (case fs path of None \<Rightarrow> None | Some (Symlink target) \<Rightarrow> follow_links n fs target | Some _ \<Rightarrow> Some path)"

definition maxAuthFileWriteBytes :: int where "maxAuthFileWriteBytes = 4 * 1024 * 1024"

section \<open>Reading\<close>

definition readable :: "files \<Rightarrow> string \<Rightarrow> err + bytes" where
  "readable fs path =
     (case follow_links 40 fs path of
        None \<Rightarrow> Inl (ErrNew ''no such file or directory'')
      | Some target \<Rightarrow>
          (case fs target of
             Some (RegularFile raw _) \<Rightarrow>
               if int (length raw) > maxAuthFileWriteBytes
               then Inl (ErrNew (''auth file exceeds '' @ itoa maxAuthFileWriteBytes @ '' bytes'')) else Inr raw
           | _ \<Rightarrow> Inl (ErrNew ''auth file is not a regular file'')))"

definition read_auth_file_bounded :: "os \<Rightarrow> string \<Rightarrow> disk \<Rightarrow> (err + bytes) \<times> disk" where
  "read_auth_file_bounded E path = sys_call E (\<lambda>fs. (readable fs path, fs))"

definition same_auth_file_name :: "string \<Rightarrow> string \<Rightarrow> bool" where
  "same_auth_file_name left right \<longleftrightarrow> left = right"

definition auth_file_sha256 :: "bytes \<Rightarrow> string" where
  "auth_file_sha256 raw = sha256_hex raw"

text \<open>The size and the permissions of the regular file that \<^verbatim>\<open>Lstat\<close> finds.\<close>

definition inspect_file :: "os \<Rightarrow> string \<Rightarrow> disk \<Rightarrow> (err + int \<times> nat) \<times> disk" where
  "inspect_file E path = sys_call E (\<lambda>fs.
     (case fs path of
        None \<Rightarrow> Inl (ErrWrap ''inspect auth file: '' (ErrNew ''no such file or directory''))
      | Some (RegularFile raw mode) \<Rightarrow> Inr (int (length raw), mode)
      | Some _ \<Rightarrow> Inl (ErrNew ''auth file is not a regular file''), fs))"

definition auth_path_ok :: "string \<Rightarrow> string \<Rightarrow> bool" where
  "auth_path_ok path name \<longleftrightarrow>
     path \<noteq> [] \<and> path_is_abs path \<and> equal_fold_ascii (path_ext path) ''.json'' \<and> same_auth_file_name (path_base path) name"

definition validate_physical_auth_file :: "os \<Rightarrow> string \<Rightarrow> string \<Rightarrow> disk \<Rightarrow> (err + string \<times> int \<times> nat) \<times> disk" where
  "validate_physical_auth_file E name path d =
     (let name = trim_space name; path = path_clean (trim_space path)
      in if name = [] then (Inl (ErrNew ''auth file name is required''), d)
         else if \<not> auth_path_ok path name then (Inl (ErrNew ''auth file path is invalid''), d)
         else after (inspect_file E path) (\<lambda>info d1. (Inr (path, info), d1)) d)"

definition validate_auth_file_json :: "bytes \<Rightarrow> err + unit" where
  "validate_auth_file_json raw =
     (if trim_space raw = [] then Inl (ErrNew ''JSON is empty'')
      else case parse_json raw of
        Some (JObj _) \<Rightarrow> Inr ()
      | Some JNull \<Rightarrow> Inl (ErrNew ''top-level JSON value must be an object'')
      | _ \<Rightarrow> Inl ErrJson)"

text \<open>What \<^verbatim>\<open>host.auth.get\<close> answers, decoded.\<close>

record auth_get_response =
  ag_AuthIndex :: string
  ag_Name :: string
  ag_Path :: string

definition get_physical_file :: "os \<Rightarrow> ctx \<Rightarrow> string \<Rightarrow> auth_get_response \<Rightarrow> disk \<Rightarrow> (err + auth_file) \<times> disk" where
  "get_physical_file E c authIndex response d =
     (if trim_space (ag_AuthIndex response) \<noteq> trim_space authIndex
      then (Inl (ErrNew ''host.auth.get returned a different auth_index''), d)
      else after (validate_physical_auth_file E (ag_Name response) (ag_Path response)) (\<lambda>(path, size, mode) d1.
             if size > maxAuthFileWriteBytes then (Inl (ErrNew ''auth file is too large''), d1)
             else unless_done c (after (failing ''read physical auth file: '' (read_auth_file_bounded E path)) (\<lambda>raw d2.
               case validate_auth_file_json raw of
                 Inl e \<Rightarrow> (Inl (ErrWrap ''physical auth file JSON is invalid: '' e), d2)
               | Inr _ \<Rightarrow> (Inr \<lparr> af_AuthIndex = ag_AuthIndex response, af_Name = trim_space (ag_Name response), af_Path = path,
                              af_JSON = raw, af_ExpectedSHA256 = auth_file_sha256 raw \<rparr>, d2))) d1) d)"

section \<open>Replacing\<close>

definition create_temp :: "os \<Rightarrow> string \<Rightarrow> disk \<Rightarrow> (err + string) \<times> disk" where
  "create_temp E directory d =
     (let temp = directory @ ''/.cpa-auto-refresh-'' @ os_Random E (length (dk_Seen d)) @ ''.tmp''
      in sys_call E (\<lambda>fs. if fs temp = None then (Inr temp, fs(temp \<mapsto> RegularFile [] 384)) else (Inl (ErrNew ''file exists''), fs)) d)"

definition change_file :: "os \<Rightarrow> string \<Rightarrow> (bytes \<Rightarrow> nat \<Rightarrow> node) \<Rightarrow> disk \<Rightarrow> (err + unit) \<times> disk" where
  "change_file E path g = sys_call E (\<lambda>fs. (Inr (), case fs path of Some (RegularFile raw mode) \<Rightarrow> fs(path \<mapsto> g raw mode) | _ \<Rightarrow> fs))"

definition sync_file :: "os \<Rightarrow> disk \<Rightarrow> (err + unit) \<times> disk" where
  "sync_file E = sys_call E (\<lambda>fs. (Inr (), fs))"

definition rename_file :: "os \<Rightarrow> string \<Rightarrow> string \<Rightarrow> disk \<Rightarrow> (err + unit) \<times> disk" where
  "rename_file E old new = sys_call E (\<lambda>fs.
     (case fs old of
        None \<Rightarrow> (Inl (ErrNew ''no such file or directory''), fs)
      | Some nd \<Rightarrow> (Inr (), fs(old := None, new \<mapsto> nd))))"

definition remove_file :: "os \<Rightarrow> string \<Rightarrow> disk \<Rightarrow> (err + unit) \<times> disk" where
  "remove_file E path = sys_call E (\<lambda>fs. if fs path = None then (Inl (ErrNew ''no such file or directory''), fs) else (Inr (), fs(path := None)))"

definition sync_directory :: "os \<Rightarrow> disk \<Rightarrow> disk" where
  "sync_directory E d = (case sync_file E d of (Inl _, d1) \<Rightarrow> d1 | (Inr _, d1) \<Rightarrow> snd (sync_file E (snd (sync_file E d1))))"

definition hash_expected :: "string \<Rightarrow> bytes \<Rightarrow> bool" where
  "hash_expected expected raw \<longleftrightarrow> trim_space expected \<noteq> [] \<and> equal_fold_ascii expected (auth_file_sha256 raw)"

definition replace_auth_file_cas :: "os \<Rightarrow> ctx \<Rightarrow> string \<Rightarrow> string \<Rightarrow> string \<Rightarrow> disk \<Rightarrow> (err + unit) \<times> disk" where
  "replace_auth_file_cas E c target replacement expected =
     unless_done c (after (read_auth_file_bounded E target) (\<lambda>latest d1.
       if \<not> hash_expected expected latest then (Inl ErrAuthFileChanged, d1)
       else unless_done c (after (rename_file E replacement target) (\<lambda>_ d2. (Inr (), sync_directory E d2))) d1))"

definition fill_and_replace :: "os \<Rightarrow> ctx \<Rightarrow> string \<Rightarrow> string \<Rightarrow> bytes \<Rightarrow> nat \<Rightarrow> string \<Rightarrow> disk \<Rightarrow> (err + unit) \<times> disk" where
  "fill_and_replace E c path temp raw mode expected =
     after (change_file E temp (\<lambda>_ m. RegularFile raw m)) (\<lambda>_.
     after (change_file E temp (\<lambda>bs _. RegularFile bs mode)) (\<lambda>_.
     after (sync_file E) (\<lambda>_.
     after (sync_file E) (\<lambda>_.
     replace_auth_file_cas E c path temp expected))))"

text \<open>The temporary file is closed and removed in the end, whatever happened.\<close>

definition atomic_write_auth_file :: "os \<Rightarrow> ctx \<Rightarrow> string \<Rightarrow> bytes \<Rightarrow> nat \<Rightarrow> string \<Rightarrow> disk \<Rightarrow> (err + unit) \<times> disk" where
  "atomic_write_auth_file E c path raw mode expected =
     after (create_temp E (path_dir path)) (\<lambda>temp d1.
       case fill_and_replace E c path temp raw mode expected d1 of
         (r, d2) \<Rightarrow> (r, snd (remove_file E temp (snd (sync_file E d2)))))"

definition save_physical_file :: "os \<Rightarrow> ctx \<Rightarrow> auth_file \<Rightarrow> disk \<Rightarrow> (err + unit) \<times> disk" where
  "save_physical_file E c f d =
     (if trim_space (af_AuthIndex f) = [] then (Inl (ErrNew ''auth_index is required''), d)
      else if trim_space (af_Name f) = [] then (Inl (ErrNew ''auth file name is required''), d)
      else if trim_space (af_JSON f) = [] then (Inl (ErrNew ''auth file JSON is required''), d)
      else if int (length (af_JSON f)) > maxAuthFileWriteBytes then (Inl (ErrNew ''auth file JSON is too large''), d)
      else case validate_auth_file_json (af_JSON f) of
        Inl e \<Rightarrow> (Inl (ErrWrap ''auth file JSON is invalid: '' e), d)
      | Inr _ \<Rightarrow>
          after (validate_physical_auth_file E (trim_space (af_Name f)) (af_Path f)) (\<lambda>(path, size, mode).
            after (failing ''read auth file before write: '' (read_auth_file_bounded E path)) (\<lambda>current d2.
              if \<not> hash_expected (af_ExpectedSHA256 f) current then (Inl (ErrWrap [] ErrAuthFileChanged), d2)
              else unless_done c (failing ''write auth file: ''
                     (atomic_write_auth_file E c path (af_JSON f) mode (af_ExpectedSHA256 f))) d2)) d)"

section \<open>Steps, one by one\<close>

lemma after_cases:
  assumes "after m f d = (r, d')"
  obtains (failed) e where "m d = (Inl e, d')" "r = Inl e" | (went) a d1 where "m d = (Inr a, d1)" "f a d1 = (r, d')"
proof (cases "m d")
  case (Pair res d1)
  show thesis
  proof (cases res)
    case (Inl e)
    then show thesis using assms Pair by (intro failed) (auto simp: after_def)
  next
    case (Inr a)
    then show thesis using assms Pair by (intro went) (auto simp: after_def)
  qed
qed

lemma unless_done_cases:
  assumes "unless_done c m d = (r, d')"
  obtains (over) e where "r = Inl e" "d' = d" | (goes) "m d = (r, d')"
  using assms by (cases "ctx_err c (dk_Now d)") (auto simp: unless_done_def)

lemma failing_cases:
  assumes "failing prefix m d = (r, d')"
  obtains (failed) e where "m d = (Inl e, d')" "r = Inl (ErrWrap prefix e)" | (went) a where "m d = (Inr a, d')" "r = Inr a"
  using assms by (cases "m d"; cases "fst (m d)") (auto simp: failing_def)

lemma failing_Inr: "failing prefix m d = (Inr a, d') \<Longrightarrow> m d = (Inr a, d')"
  by (erule failing_cases) simp_all

text \<open>Other programs leave the disk alone.\<close>

definition quiet_os :: "os \<Rightarrow> bool" where
  "quiet_os E \<longleftrightarrow> (\<forall>n fs. os_Others E n fs = fs)"

lemma quiet_call:
  assumes "quiet_os E" "sys_call E f d = (r, d')"
  obtains (fault) e where "r = Inl e" "dk_Files d' = dk_Files d" | (runs) "r = fst (f (dk_Files d))" "dk_Files d' = snd (f (dk_Files d))"
  using assms by (cases "os_Fault E (length (dk_Seen d))") (auto simp: sys_call_def quiet_os_def Let_def prod_eq_iff)

lemma call_seen:
  assumes "sys_call E f d = (r, d')"
  shows "dk_Seen d' = dk_Seen d @ [os_Others E (length (dk_Seen d)) (dk_Files d)]"
    "r = Inr a \<Longrightarrow> f (os_Others E (length (dk_Seen d)) (dk_Files d)) = (Inr a, dk_Files d')"
  using assms by (auto simp: sys_call_def Let_def prod_eq_iff split: option.splits)

text \<open>Reading changes nothing.\<close>

lemma reads:
  assumes "quiet_os E"
  shows "read_auth_file_bounded E path d = (r, d') \<Longrightarrow> dk_Files d' = dk_Files d \<and> (r = Inr raw \<longrightarrow> readable (dk_Files d) path = Inr raw)"
    "inspect_file E path d = (r2, d') \<Longrightarrow> dk_Files d' = dk_Files d \<and>
       (r2 = Inr (sz, mode) \<longrightarrow> (\<exists>bs. dk_Files d path = Some (RegularFile bs mode) \<and> sz = int (length bs)))"
  unfolding read_auth_file_bounded_def inspect_file_def
  by (erule quiet_call [OF assms]; auto split: option.splits node.splits)+

lemma validate_cases:
  assumes "quiet_os E" "validate_physical_auth_file E name path d = (r, d')"
  shows "dk_Files d' = dk_Files d \<and> (r = Inr (p, sz, mode) \<longrightarrow> auth_path_ok p (trim_space name) \<and> p = path_clean (trim_space path) \<and>
     (\<exists>bs. dk_Files d p = Some (RegularFile bs mode) \<and> sz = int (length bs)))"
proof (cases "trim_space name = [] \<or> \<not> auth_path_ok (path_clean (trim_space path)) (trim_space name)")
  case True
  then have "(\<exists>e. r = Inl e) \<and> d' = d" using assms(2) by (auto simp: validate_physical_auth_file_def Let_def split: if_splits)
  then show ?thesis by auto
next
  case False
  then have "after (inspect_file E (path_clean (trim_space path))) (\<lambda>info d1. (Inr (path_clean (trim_space path), info), d1)) d = (r, d')"
    using assms(2) by (simp add: validate_physical_auth_file_def Let_def)
  then show ?thesis
  proof (cases rule: after_cases)
    case (failed e)
    then show ?thesis using reads(2) [OF assms(1) failed(1)] by simp
  next
    case (went info d1)
    obtain sz1 mode1 where i: "info = (sz1, mode1)" by force
    from reads(2) [OF assms(1) went(1), of sz1 mode1] went(2) False show ?thesis by (auto simp: i)
  qed
qed

lemma readable_regular: "fs path = Some (RegularFile bs mode) \<Longrightarrow> readable fs path = Inr raw \<Longrightarrow> raw = bs"
  by (simp add: readable_def eval_nat_numeral split: if_splits)

subsection \<open>The temporary file is not the credential file\<close>

lemma fold_ascii_last:
  "s \<noteq> [] \<Longrightarrow> fold_ascii s \<noteq> [] \<and> (last (fold_ascii s) = ascii_lower (last s) \<or> last (fold_ascii s) = CHR ''s'' \<or> last (fold_ascii s) = CHR ''k'')"
proof (induction s rule: fold_ascii.induct)
  case (2 c cs)
  consider (long_s) "c = CHR 0xC5 \<and> take 1 cs = [CHR 0xBF]" | (kelvin) "\<not> (c = CHR 0xC5 \<and> take 1 cs = [CHR 0xBF])" "c = CHR 0xE2 \<and> take 2 cs = [CHR 0x84, CHR 0xAA]"
    | (other) "\<not> (c = CHR 0xC5 \<and> take 1 cs = [CHR 0xBF])" "\<not> (c = CHR 0xE2 \<and> take 2 cs = [CHR 0x84, CHR 0xAA])" by blast
  then show ?case
  proof cases
    case long_s
    then obtain rest where cs: "cs = CHR 0xBF # rest" by (cases cs) auto
    then show ?thesis using 2(1) [OF long_s] long_s cs by (cases "rest = []") auto
  next
    case kelvin
    then obtain rest where cs: "cs = CHR 0x84 # CHR 0xAA # rest" by (cases cs; cases "tl cs") auto
    then show ?thesis using 2(2) [OF kelvin] kelvin cs by (cases "rest = []") (auto simp: numeral_2_eq_2)
  next
    case other
    have f: "fold_ascii (c # cs) = ascii_lower c # fold_ascii cs"
      unfolding fold_ascii.simps if_not_P [OF other(1)] if_not_P [OF other(2)] by (rule refl)
    show ?thesis using 2(3) [OF other] f by (cases "cs = []") auto
  qed
qed simp

lemma path_ext_last: "path_ext p \<noteq> [] \<Longrightarrow> p \<noteq> [] \<and> last p = last (path_ext p)"
proof -
  assume e: "path_ext p \<noteq> []"
  let ?l = "takeWhile (\<lambda>c. c \<noteq> slash) (rev p)"
  have dot: "CHR ''.'' \<in> set ?l" and ext: "path_ext p = CHR ''.'' # rev (takeWhile (\<lambda>c. c \<noteq> CHR ''.'') ?l)"
    using e by (auto simp: path_ext_def Let_def split: if_splits)
  then obtain x xs where l: "?l = x # xs" by (cases ?l) auto
  then obtain y ys where r: "rev p = x # ys" by (cases "rev p") (auto split: if_splits)
  then have p: "p = rev ys @ [x]" by (simp add: rev_eq_Cons_iff)
  show ?thesis
  proof (cases "x = CHR ''.''")
    case True
    then show ?thesis using ext l p by simp
  next
    case False
    then show ?thesis using ext l p by simp
  qed
qed

lemma auth_path_last: "auth_path_ok path name \<Longrightarrow> path \<noteq> [] \<and> (last path = CHR ''n'' \<or> last path = CHR ''N'')"
proof -
  assume ok: "auth_path_ok path name"
  have f: "fold_ascii (path_ext path) = ''.json''" using ok by (simp add: auth_path_ok_def equal_fold_ascii_def ascii_lower_def)
  then have e: "path_ext path \<noteq> []" by auto
  have "ascii_lower (last (path_ext path)) = CHR ''n''" using fold_ascii_last [OF e] f by auto
  moreover have "ascii_lower x = CHR ''n'' \<Longrightarrow> x = CHR ''n'' \<or> x = CHR ''N''" for x
  proof (cases "65 \<le> (of_char x :: nat) \<and> (of_char x :: nat) \<le> 90")
    case True
    assume "ascii_lower x = CHR ''n''"
    with True have "of_char (char_of (of_char x + 32 :: nat) :: char) = (of_char (CHR ''n'') :: nat)" by (simp add: ascii_lower_def)
    then have "(of_char x :: nat) = of_char (CHR ''N'')" using True by simp
    then have "x = CHR ''N''" by (simp only: of_char_eq_iff)
    then show ?thesis ..
  qed (simp add: ascii_lower_def)
  ultimately show ?thesis using path_ext_last [OF e] by auto
qed

lemma temp_not_json: "auth_path_ok path name \<Longrightarrow> path \<noteq> directory @ ''/.cpa-auto-refresh-'' @ rnd @ ''.tmp''"
  using auth_path_last [of path name] by auto

subsection \<open>A cleaned path is clean\<close>

definition plain_part :: "string \<Rightarrow> bool" where
  "plain_part p \<longleftrightarrow> p \<noteq> [] \<and> p \<noteq> ''.'' \<and> p \<noteq> ''..'' \<and> slash \<notin> set p"

lemma clean_parts_plain: "list_all (\<lambda>p. slash \<notin> set p) ps \<Longrightarrow> list_all plain_part kept \<Longrightarrow> list_all plain_part (clean_parts True kept ps)"
proof (induction ps arbitrary: kept)
  case (Cons p ps)
  show ?case
  proof (cases "p = [] \<or> p = ''.'' \<or> p = ''..''")
    case True
    then show ?thesis using Cons by (cases kept) (auto simp: plain_part_def)
  next
    case False
    then have "plain_part p" using Cons.prems by (simp add: plain_part_def)
    then show ?thesis using Cons False by simp
  qed
qed (simp add: list_all_iff)

lemma clean_parts_from: "q \<in> set (clean_parts rooted kept ps) \<Longrightarrow> q \<in> set kept \<or> q \<in> set ps \<and> q \<noteq> [] \<or> q = ''..''"
proof (induction ps arbitrary: kept)
  case (Cons p ps)
  show ?case
  proof (cases "p = [] \<or> p = ''.''")
    case True
    then show ?thesis using Cons by auto
  next
    case False
    show ?thesis
    proof (cases "p = ''..''")
      case True
      then show ?thesis using Cons.prems Cons.IH [of "[]"] Cons.IH [of "[''..'']"] Cons.IH [of "''..'' # kept"] Cons.IH [of "tl kept"]
        by (cases kept) (auto split: if_splits)
    next
      case False
      then show ?thesis using Cons.prems Cons.IH [of "p # kept"] \<open>\<not> (p = [] \<or> p = ''.'')\<close> by auto
    qed
  qed
qed simp

lemma clean_parts_id: "list_all plain_part ps \<Longrightarrow> clean_parts True kept ps = rev kept @ ps"
  by (induction ps arbitrary: kept) (auto simp: plain_part_def)

lemma split_join: "list_all plain_part ps \<Longrightarrow> ps \<noteq> [] \<Longrightarrow> split_on slash (join_with [slash] ps) = ps"
proof (induction ps)
  case (Cons p ps)
  then have "slash \<notin> set p" by (simp add: plain_part_def)
  then show ?case using Cons by (cases ps) (simp_all add: split_on_none split_on_append)
qed simp

lemma path_clean_idem:
  assumes "path_is_abs (path_clean p)"
  shows "path_clean (path_clean p) = path_clean p"
proof (cases "path_is_abs p")
  case True
  let ?ps = "clean_parts True [] (split_on slash p)"
  have c: "path_clean p = slash # join_with [slash] ?ps" using True by (simp add: path_clean_def Let_def)
  have pl: "list_all plain_part ?ps" using split_on_parts [of _ slash p] by (intro clean_parts_plain) (auto simp: list_all_iff)
  have "clean_parts True [] (split_on slash (slash # join_with [slash] ?ps)) = ?ps"
    using split_join [OF pl] clean_parts_id [OF pl, of "[]"] by (cases "?ps = []") simp_all
  then show ?thesis unfolding c by (simp add: path_clean_def path_is_abs_def Let_def)
next
  case False
  let ?ps = "clean_parts False [] (split_on slash p)"
  have ps: "q \<in> set ?ps \<Longrightarrow> q \<noteq> [] \<and> slash \<notin> set q" for q
    using clean_parts_from [of q False "[]" "split_on slash p"] split_on_parts [of q slash p] by (auto simp: slash_def)
  have "path_clean p = (if ?ps = [] then ''.'' else join_with [slash] ?ps)" using False by (simp add: path_clean_def Let_def)
  moreover have "\<not> path_is_abs (join_with [slash] ?ps)" if ne: "?ps \<noteq> []"
  proof -
    obtain x xs where x: "?ps = x # xs" using ne by (cases ?ps) auto
    with ps [of x] obtain y ys where "x = y # ys" "y \<noteq> slash" by (cases x) auto
    then show ?thesis using x by (cases xs) (simp_all add: path_is_abs_def)
  qed
  ultimately have False using assms by (auto simp: path_is_abs_def slash_def split: if_splits)
  then show ?thesis ..
qed

lemma auth_path_clean: "auth_path_ok (path_clean p) name \<Longrightarrow> path_clean (trim_space (path_clean p)) = path_clean p"
proof -
  assume ok: "auth_path_ok (path_clean p) name"
  then have a: "path_is_abs (path_clean p)" by (simp add: auth_path_ok_def)
  obtain t where t: "path_clean p = slash # t" using a by (cases "path_clean p") (auto simp: path_is_abs_def)
  obtain u d where u: "path_clean p = u @ [d]" "d = CHR ''n'' \<or> d = CHR ''N''"
    using auth_path_last [OF ok] by (cases "path_clean p" rule: rev_cases) auto
  have "trim_space (path_clean p) = path_clean p" by (rule space_free_ends [OF t u(1)]) (use u(2) in \<open>auto simp: slash_def ascii_space_def\<close>)
  then show ?thesis using path_clean_idem [OF a] by simp
qed

section \<open>All or nothing\<close>

text \<open>What the steps on the temporary file and the replacement do to the files, on a quiet disk.\<close>

definition same_but :: "string \<Rightarrow> files \<Rightarrow> files \<Rightarrow> bool" where
  "same_but temp fs fs' \<longleftrightarrow> (\<forall>p. p \<noteq> temp \<longrightarrow> fs' p = fs p)"

lemma same_but_trans: "same_but t fs fs' \<Longrightarrow> same_but t fs' fs'' \<Longrightarrow> same_but t fs fs''"
  by (simp add: same_but_def)

lemma quiet_change:
  assumes "quiet_os E" "change_file E temp g d = (r, d')"
  shows "same_but temp (dk_Files d) (dk_Files d')"
    "r = Inr u \<Longrightarrow> dk_Files d temp = Some (RegularFile bs m) \<Longrightarrow> dk_Files d' temp = Some (g bs m)"
  using assms(2) unfolding change_file_def
  by - (erule quiet_call [OF assms(1)]; auto simp: same_but_def split: option.splits node.splits)+

lemma quiet_sync: "quiet_os E \<Longrightarrow> sync_file E d = (r, d') \<Longrightarrow> dk_Files d' = dk_Files d"
  unfolding sync_file_def by (erule (1) quiet_call) auto

lemma quiet_directory: "quiet_os E \<Longrightarrow> dk_Files (sync_directory E d) = dk_Files d"
proof -
  assume q: "quiet_os E"
  obtain r1 d1 where s1: "sync_file E d = (r1, d1)" by force
  obtain r2 d2 where s2: "sync_file E d1 = (r2, d2)" by force
  obtain r3 d3 where s3: "sync_file E d2 = (r3, d3)" by force
  show ?thesis using quiet_sync [OF q s1] quiet_sync [OF q s2] quiet_sync [OF q s3]
    by (cases r1) (simp_all add: sync_directory_def s1 s2 s3)
qed

lemma replace_cases:
  assumes q: "quiet_os E" and ne: "temp \<noteq> path" and pa: "dk_Files d path = Some (RegularFile bs mode)"
    and r: "replace_auth_file_cas E c path temp expected d = (r, d')"
  shows "(\<exists>e. r = Inl e \<and> dk_Files d' = dk_Files d) \<or>
    (r = Inr () \<and> hash_expected expected bs \<and> (\<exists>nd. dk_Files d temp = Some nd \<and> dk_Files d' = (dk_Files d)(temp := None, path \<mapsto> nd)))"
  using r unfolding replace_auth_file_cas_def
proof (cases rule: unless_done_cases)
  case goes
  then show ?thesis
  proof (cases rule: after_cases)
    case (failed e)
    then show ?thesis using reads(1) [OF q failed(1)] by simp
  next
    case (went latest d1)
    note rd = reads(1) [OF q went(1), of latest]
    then have bs: "latest = bs" using readable_regular [of "dk_Files d" path bs mode] pa by simp
    show ?thesis
    proof (cases "hash_expected expected latest")
      case False
      then show ?thesis using went(2) rd by auto
    next
      case True
      then have "unless_done c (after (rename_file E temp path) (\<lambda>_ d2. (Inr (), sync_directory E d2))) d1 = (r, d')" using went(2) by simp
      then show ?thesis
      proof (cases rule: unless_done_cases)
        case goes
        then show ?thesis
        proof (cases rule: after_cases)
          case (failed e)
          then show ?thesis using rd unfolding rename_file_def
            by (elim quiet_call [OF q]) (auto split: option.splits)
        next
          case (went u d2)
          from went(1) rd have "\<exists>nd. dk_Files d temp = Some nd \<and> dk_Files d2 = (dk_Files d)(temp := None, path \<mapsto> nd)"
            unfolding rename_file_def by (elim quiet_call [OF q]) (auto split: option.splits)
          then show ?thesis using went(2) quiet_directory [OF q, of d2] True bs by auto
        qed
      qed (use rd in auto)
    qed
  qed
qed auto

lemma fill_cases:
  assumes q: "quiet_os E" and ne: "temp \<noteq> path" and pa: "dk_Files d path = Some (RegularFile bs mode0)"
    and te: "dk_Files d temp = Some (RegularFile bs0 m0)"
    and r: "fill_and_replace E c path temp raw mode expected d = (r, d')"
  shows "(\<exists>e. r = Inl e \<and> same_but temp (dk_Files d) (dk_Files d')) \<or>
    (r = Inr () \<and> hash_expected expected bs \<and> same_but temp ((dk_Files d)(path \<mapsto> RegularFile raw mode)) (dk_Files d'))"
  using r unfolding fill_and_replace_def
proof (cases rule: after_cases)
  case (failed e)
  then show ?thesis using quiet_change(1) [OF q failed(1)] by simp
next
  case (went u1 d1)
  note w1 = quiet_change [OF q went(1)]
  have t1: "dk_Files d1 temp = Some (RegularFile raw m0)" using w1(2) [OF _ te] by simp
  from went(2) show ?thesis
  proof (cases rule: after_cases)
    case (failed e)
    then show ?thesis using quiet_change(1) [OF q failed(1)] same_but_trans [OF w1(1)] by auto
  next
    case (went u2 d2)
    note w2 = quiet_change [OF q went(1)]
    have t2: "dk_Files d2 temp = Some (RegularFile raw mode)" using w2(2) [OF _ t1] by simp
    have sb: "same_but temp (dk_Files d) (dk_Files d2)" using same_but_trans [OF w1(1) w2(1)] .
    from went(2) show ?thesis
    proof (cases rule: after_cases)
      case (failed e)
      then show ?thesis using quiet_sync [OF q failed(1)] sb by simp
    next
      case (went u3 d3)
      note s3 = quiet_sync [OF q went(1)]
      from went(2) show ?thesis
      proof (cases rule: after_cases)
        case (failed e)
        then show ?thesis using quiet_sync [OF q failed(1)] s3 sb by simp
      next
        case (went u4 d4)
        have f4: "dk_Files d4 = dk_Files d2" using quiet_sync [OF q went(1)] s3 by simp
        then have "dk_Files d4 path = Some (RegularFile bs mode0)" using sb ne pa by (simp add: same_but_def)
        from replace_cases [OF q ne this went(2)] show ?thesis using f4 sb t2 ne by (auto simp: same_but_def)
      qed
    qed
  qed
qed

lemma quiet_remove: "quiet_os E \<Longrightarrow> remove_file E temp d = (r, d') \<Longrightarrow> same_but temp (dk_Files d) (dk_Files d')"
  unfolding remove_file_def by (erule (1) quiet_call) (auto simp: same_but_def split: if_splits)

text \<open>Every file that was there is as it was, but for the one replaced.\<close>

definition others_kept :: "string \<Rightarrow> files \<Rightarrow> files \<Rightarrow> bool" where
  "others_kept path fs fs' \<longleftrightarrow> (\<forall>p. fs p \<noteq> None \<longrightarrow> p \<noteq> path \<longrightarrow> fs' p = fs p)"

lemma atomic_write_cases:
  assumes q: "quiet_os E" and ok: "auth_path_ok path name" and pa: "dk_Files d path = Some (RegularFile bs mode0)"
    and r: "atomic_write_auth_file E c path raw mode expected d = (r, d')"
  shows "others_kept path (dk_Files d) (dk_Files d') \<and>
    ((\<exists>e. r = Inl e \<and> dk_Files d' path = dk_Files d path) \<or>
     (r = Inr () \<and> hash_expected expected bs \<and> dk_Files d' path = Some (RegularFile raw mode)))"
  using r unfolding atomic_write_auth_file_def
proof (cases rule: after_cases)
  case (failed e)
  from failed(1) have "dk_Files d' = dk_Files d" unfolding create_temp_def Let_def by (elim quiet_call [OF q]) (auto split: if_splits)
  then show ?thesis using failed(2) by (simp add: others_kept_def)
next
  case (went temp d1)
  from went(1) have c: "dk_Files d temp = None" "dk_Files d1 = (dk_Files d)(temp \<mapsto> RegularFile [] 384)"
    and t: "temp = path_dir path @ ''/.cpa-auto-refresh-'' @ os_Random E (length (dk_Seen d)) @ ''.tmp''"
    unfolding create_temp_def Let_def by (elim quiet_call [OF q]; auto split: if_splits)+
  have ne: "temp \<noteq> path" using temp_not_json [OF ok] t by metis
  obtain r2 d2 where f: "fill_and_replace E c path temp raw mode expected d1 = (r2, d2)" by force
  obtain r3 d3 where s: "sync_file E d2 = (r3, d3)" by force
  obtain r4 d4 where rm: "remove_file E temp d3 = (r4, d4)" by force
  have e: "r = r2" "d' = d4" using went(2) f s rm by auto
  have sb: "same_but temp (dk_Files d2) (dk_Files d4)" using quiet_remove [OF q rm] quiet_sync [OF q s] by simp
  have "dk_Files d1 path = Some (RegularFile bs mode0)" "dk_Files d1 temp = Some (RegularFile [] 384)" using c pa ne by auto
  note fc = fill_cases [OF q ne this f]
  have keep: "dk_Files d' p = dk_Files d2 p" if "p \<noteq> temp" for p using sb that e by (simp add: same_but_def)
  have old: "p \<noteq> temp" if "dk_Files d p \<noteq> None" for p using that c(1) by auto
  from fc show ?thesis
  proof (elim disjE exE conjE)
    fix x
    assume "r2 = Inl x" "same_but temp (dk_Files d1) (dk_Files d2)"
    then have "dk_Files d' p = dk_Files d p" if "p \<noteq> temp" for p using keep that c(2) by (simp add: same_but_def)
    then show ?thesis using \<open>r2 = Inl x\<close> e(1) ne old unfolding others_kept_def by (metis (no_types))
  next
    assume a: "r2 = Inr ()" "hash_expected expected bs" "same_but temp ((dk_Files d1)(path \<mapsto> RegularFile raw mode)) (dk_Files d2)"
    then have "dk_Files d' p = ((dk_Files d)(path \<mapsto> RegularFile raw mode)) p" if "p \<noteq> temp" for p
      using keep that c(2) by (simp add: same_but_def)
    then show ?thesis using a e(1) ne old unfolding others_kept_def by (metis (no_types) fun_upd_apply)
  qed
qed

section \<open>Reading and replacing a credential file\<close>

definition auth_file_path :: "auth_file \<Rightarrow> string" where
  "auth_file_path f = path_clean (trim_space (af_Path f))"

lemma get_cases:
  assumes q: "quiet_os E" and g: "get_physical_file E c authIndex response d = (r, d')"
  shows "dk_Files d' = dk_Files d \<and> (r = Inr f \<longrightarrow>
    (\<exists>bs mode. dk_Files d (af_Path f) = Some (RegularFile bs mode) \<and> af_JSON f = bs \<and> af_ExpectedSHA256 f = auth_file_sha256 bs) \<and>
    auth_file_path f = af_Path f \<and> validate_auth_file_json (af_JSON f) = Inr () \<and> trim_space (af_AuthIndex f) = trim_space authIndex)"
proof (cases "trim_space (ag_AuthIndex response) = trim_space authIndex")
  case True
  let ?k = "\<lambda>(path, sz, mode) d1. if sz > maxAuthFileWriteBytes then (Inl (ErrNew ''auth file is too large''), d1)
      else unless_done c (after (failing ''read physical auth file: '' (read_auth_file_bounded E path)) (\<lambda>raw d2.
         case validate_auth_file_json raw of
           Inl e \<Rightarrow> (Inl (ErrWrap ''physical auth file JSON is invalid: '' e), d2)
         | Inr _ \<Rightarrow> (Inr \<lparr> af_AuthIndex = ag_AuthIndex response, af_Name = trim_space (ag_Name response), af_Path = path,
                        af_JSON = raw, af_ExpectedSHA256 = auth_file_sha256 raw \<rparr>, d2))) d1"
  have "after (validate_physical_auth_file E (ag_Name response) (ag_Path response)) ?k d = (r, d')"
    using g True by (simp add: get_physical_file_def)
  then show ?thesis
  proof (cases rule: after_cases)
    case (failed e)
    then show ?thesis using validate_cases [OF q failed(1)] by simp
  next
    case (went info d1)
    obtain path sz mode where i: "info = (path, sz, mode)" by (cases info) auto
    note v = validate_cases [OF q went(1), of path sz mode]
    show ?thesis
    proof (cases "sz > maxAuthFileWriteBytes")
      case True
      then show ?thesis using went(2) v i by auto
    next
      case False
      then have "unless_done c (after (failing ''read physical auth file: '' (read_auth_file_bounded E path)) (\<lambda>raw d2.
         case validate_auth_file_json raw of
           Inl e \<Rightarrow> (Inl (ErrWrap ''physical auth file JSON is invalid: '' e), d2)
         | Inr _ \<Rightarrow> (Inr \<lparr> af_AuthIndex = ag_AuthIndex response, af_Name = trim_space (ag_Name response), af_Path = path,
                        af_JSON = raw, af_ExpectedSHA256 = auth_file_sha256 raw \<rparr>, d2))) d1 = (r, d')"
        using went(2) i by simp
      then show ?thesis
      proof (cases rule: unless_done_cases)
        case (over e)
        then show ?thesis using v i by simp
      next
        case goes
        then show ?thesis
        proof (cases rule: after_cases)
          case (failed e)
          from failed(1) have "dk_Files d' = dk_Files d1" by (cases rule: failing_cases) (use reads(1) [OF q] in blast)+
          then show ?thesis using v i failed(2) by simp
        next
          case (went raw d2)
          from went(1) have rd: "read_auth_file_bounded E path d1 = (Inr raw, d2)" by (cases rule: failing_cases) auto
          obtain bs where bs: "dk_Files d path = Some (RegularFile bs mode)" "dk_Files d1 = dk_Files d" "auth_path_ok path (trim_space (ag_Name response))"
            "path = path_clean (trim_space (ag_Path response))" using v i by blast
          note f2 = reads(1) [OF q rd, of raw]
          have raw: "raw = bs" using f2 bs readable_regular [of "dk_Files d1" path bs mode raw] by simp
          have cl: "path_clean (trim_space path) = path" using auth_path_clean [of "trim_space (ag_Path response)"] bs(3,4) by simp
          show ?thesis
          proof (cases "validate_auth_file_json raw")
            case (Inl e)
            then show ?thesis using went(2) f2 bs by auto
          next
            case (Inr u)
            then show ?thesis using went(2) f2 bs raw cl True by (auto simp: auth_file_path_def)
          qed
        qed
      qed
    qed
  qed
next
  case False
  then show ?thesis using g by (auto simp: get_physical_file_def)
qed

lemma save_cases:
  assumes q: "quiet_os E" and s: "save_physical_file E c f d = (r, d')"
  shows "others_kept (auth_file_path f) (dk_Files d) (dk_Files d') \<and>
    ((\<exists>e. r = Inl e \<and> dk_Files d' (auth_file_path f) = dk_Files d (auth_file_path f)) \<or>
     (\<exists>bs mode. r = Inr () \<and> dk_Files d (auth_file_path f) = Some (RegularFile bs mode) \<and> hash_expected (af_ExpectedSHA256 f) bs \<and>
        dk_Files d' (auth_file_path f) = Some (RegularFile (af_JSON f) mode)))"
proof -
  let ?k2 = "\<lambda>path mode current d2. if \<not> hash_expected (af_ExpectedSHA256 f) current then (Inl (ErrWrap [] ErrAuthFileChanged), d2)
      else unless_done c (failing ''write auth file: '' (atomic_write_auth_file E c path (af_JSON f) mode (af_ExpectedSHA256 f))) d2"
  have same: "others_kept (auth_file_path f) (dk_Files d) (dk_Files d)" by (simp add: others_kept_def)
  have "(\<exists>e. r = Inl e \<and> d' = d) \<or> after (validate_physical_auth_file E (trim_space (af_Name f)) (af_Path f)) (\<lambda>(path, sz, mode).
      after (failing ''read auth file before write: '' (read_auth_file_bounded E path)) (?k2 path mode)) d = (r, d')"
    using s unfolding save_physical_file_def by (auto split: if_splits sum.splits)
  then show ?thesis
  proof (elim disjE)
    assume "after (validate_physical_auth_file E (trim_space (af_Name f)) (af_Path f)) (\<lambda>(path, sz, mode).
      after (failing ''read auth file before write: '' (read_auth_file_bounded E path)) (?k2 path mode)) d = (r, d')"
    then show ?thesis
    proof (cases rule: after_cases)
      case (failed e)
      then show ?thesis using validate_cases [OF q failed(1)] same by auto
    next
      case (went info d1)
      obtain path sz mode where i: "info = (path, sz, mode)" by (cases info) auto
      obtain bs where v: "dk_Files d1 = dk_Files d" "auth_path_ok path (trim_space (trim_space (af_Name f)))" "path = auth_file_path f"
          "dk_Files d path = Some (RegularFile bs mode)"
        using validate_cases [OF q went(1), of path sz mode] i unfolding auth_file_path_def by blast
      from went(2) i have "after (failing ''read auth file before write: '' (read_auth_file_bounded E path)) (?k2 path mode) d1 = (r, d')" by simp
      then show ?thesis
      proof (cases rule: after_cases)
        case (failed e)
        from failed(1) have "dk_Files d' = dk_Files d1" by (cases rule: failing_cases) (use reads(1) [OF q] in blast)+
        then show ?thesis using v failed(2) same by auto
      next
        case (went current d2)
        from went(1) have rd: "read_auth_file_bounded E path d1 = (Inr current, d2)" by (cases rule: failing_cases) auto
        note f2 = reads(1) [OF q rd, of current]
        have pa: "dk_Files d2 path = Some (RegularFile bs mode)" using f2 v by simp
        show ?thesis
        proof (cases "hash_expected (af_ExpectedSHA256 f) current")
          case False
          then show ?thesis using went(2) f2 v same by auto
        next
          case True
          then have "unless_done c (failing ''write auth file: '' (atomic_write_auth_file E c path (af_JSON f) mode (af_ExpectedSHA256 f))) d2 = (r, d')"
            using went(2) by simp
          then show ?thesis
          proof (cases rule: unless_done_cases)
            case (over e)
            then show ?thesis using f2 v same by auto
          next
            case goes
            then show ?thesis
            proof (cases rule: failing_cases)
              case (failed e)
              from atomic_write_cases [OF q v(2) pa failed(1)] show ?thesis using f2 v failed(2) by auto
            next
              case (went u)
              from atomic_write_cases [OF q v(2) pa went(1)] show ?thesis using f2 v went(2) pa by auto
            qed
          qed
        qed
      qed
    qed
  qed (use same in auto)
qed

section \<open>The contract of the credential store\<close>

text \<open>A hash is lower-case, so that comparing without case is comparing.\<close>

lemma fold_plain: "(\<And>c. c \<in> set s \<Longrightarrow> c \<noteq> CHR 0xC5 \<and> c \<noteq> CHR 0xE2 \<and> ascii_lower c = c) \<Longrightarrow> fold_ascii s = s"
  by (induction s rule: fold_ascii.induct) auto

lemma hex_digit_plain: "k < 16 \<Longrightarrow> hex_digit k \<noteq> CHR 0xC5 \<and> hex_digit k \<noteq> CHR 0xE2 \<and> ascii_lower (hex_digit k) = hex_digit k"
proof -
  have "list_all (\<lambda>k. hex_digit k \<noteq> CHR 0xC5 \<and> hex_digit k \<noteq> CHR 0xE2 \<and> ascii_lower (hex_digit k) = hex_digit k) [0..<16]" by code_simp
  then show "k < 16 \<Longrightarrow> ?thesis" by (simp add: list_all_iff)
qed

lemma word_bytes_small: "n \<in> set (word_bytes w) \<Longrightarrow> n < 256"
proof -
  have "unat w < 4294967296" using unsigned_less [of w] by simp
  then show "n \<in> set (word_bytes w) \<Longrightarrow> n < 256" by (auto simp: word_bytes_def Let_def div_less_iff_less_mult)
qed

lemma hash_plain: "fold_ascii (auth_file_sha256 raw) = auth_file_sha256 raw"
proof (rule fold_plain)
  fix c
  assume "c \<in> set (auth_file_sha256 raw)"
  then obtain n where n: "c \<in> set (hex_byte n)" "n < 256"
    using word_bytes_small unfolding auth_file_sha256_def sha256_hex_def hex_encode_def Let_def by fastforce
  then have "c = hex_digit (n div 16) \<or> c = hex_digit (n mod 16)" by (auto simp: hex_byte_def)
  then show "c \<noteq> CHR 0xC5 \<and> c \<noteq> CHR 0xE2 \<and> ascii_lower c = c" using hex_digit_plain n(2) by (auto simp: div_less_iff_less_mult)
qed

lemma hash_expectedD: "hash_expected (auth_file_sha256 a) b \<Longrightarrow> auth_file_sha256 b = auth_file_sha256 a"
  by (simp add: hash_expected_def equal_fold_ascii_def hash_plain)

text \<open>What whoever edits credentials relies on, for any store of files.\<close>

locale credential_store =
  fixes content :: "'d \<Rightarrow> string \<Rightarrow> bytes option" and path_of :: "auth_file \<Rightarrow> string"
    and get :: "'k \<Rightarrow> 'd \<Rightarrow> (err + auth_file) \<times> 'd" and save :: "auth_file \<Rightarrow> 'd \<Rightarrow> (err + unit) \<times> 'd"
  assumes get_reads: "get k d = (Inr f, d') \<Longrightarrow> content d (path_of f) = Some (af_JSON f) \<and> af_ExpectedSHA256 f = auth_file_sha256 (af_JSON f)"
    and get_keeps: "get k d = (r, d') \<Longrightarrow> content d' = content d"
    and save_done: "save f d = (Inr u, d') \<Longrightarrow> content d' (path_of f) = Some (af_JSON f) \<and>
      (\<exists>bs. content d (path_of f) = Some bs \<and> hash_expected (af_ExpectedSHA256 f) bs)"
    and save_failed: "save f d = (Inl e, d') \<Longrightarrow> content d' (path_of f) = content d (path_of f)"
    and path_stays: "path_of (f\<lparr>af_JSON := j\<rparr>) = path_of f"
begin

lemma update_checked:
  assumes "get k d0 = (Inr f, d1)" "save (f\<lparr>af_JSON := j\<rparr>) d2 = (Inr u, d3)"
  shows "\<exists>bs. content d2 (path_of f) = Some bs \<and> auth_file_sha256 bs = auth_file_sha256 (af_JSON f)"
  using get_reads [OF assms(1)] save_done [OF assms(2)] hash_expectedD by (fastforce simp: path_stays)

lemma second_refused:
  assumes "get k d0 = (Inr f, d1)" "save (f\<lparr>af_JSON := j1\<rparr>) d1 = (Inr u, d2)" "auth_file_sha256 j1 \<noteq> auth_file_sha256 (af_JSON f)"
    "save (f\<lparr>af_JSON := j2\<rparr>) d2 = (r, d3)"
  shows "(\<exists>e. r = Inl e) \<and> content d3 (path_of f) = Some j1"
proof -
  have c: "content d2 (path_of f) = Some j1" using save_done [OF assms(2)] by (simp add: path_stays)
  have "r \<noteq> Inr v" for v
  proof
    assume "r = Inr v"
    with update_checked [OF assms(1)] assms(4) c assms(3) show False by fastforce
  qed
  then obtain e where "r = Inl e" by (cases r) auto
  with save_failed assms(4) c show ?thesis by (fastforce simp: path_stays)
qed

lemma put_get:
  assumes "get k d0 = (Inr f, d1)" "save (f\<lparr>af_JSON := j\<rparr>) d1 = (Inr u, d2)" "get k' d2 = (Inr g, d3)" "path_of g = path_of f"
  shows "af_JSON g = j"
  using save_done [OF assms(2)] get_reads [OF assms(3)] assms(4) by (simp add: path_stays)

end

definition calm :: "os \<Rightarrow> os" where
  "calm E = E\<lparr>os_Others := \<lambda>_ fs. fs\<rparr>"

definition file_content :: "disk \<Rightarrow> string \<Rightarrow> bytes option" where
  "file_content d path = (case dk_Files d path of Some (RegularFile bs _) \<Rightarrow> Some bs | _ \<Rightarrow> None)"

lemma calm_quiet [simp]: "quiet_os (calm E)"
  by (simp add: quiet_os_def calm_def)

text \<open>The plugin's own reading and replacing keep the contract as long as no other program writes in the middle of one of them; between
  two of them others may do anything.\<close>

interpretation files: credential_store file_content auth_file_path "\<lambda>k. get_physical_file (calm E) c (fst k) (snd k)"
  "save_physical_file (calm E) c'" for E c c'
proof (unfold_locales, goal_cases)
  case (1 k d f d')
  then show ?case using get_cases [OF calm_quiet 1, of f] by (auto simp: file_content_def)
next
  case (2 k d r d')
  then show ?case using get_cases [OF calm_quiet 2] by (simp add: file_content_def fun_eq_iff)
next
  case (3 f d u d')
  then show ?case using save_cases [OF calm_quiet 3] by (auto simp: file_content_def)
next
  case (4 f d e d')
  then show ?case using save_cases [OF calm_quiet 4] by (auto simp: file_content_def)
next
  case (5 f j)
  then show ?case by (simp add: auth_file_path_def)
qed

section \<open>The window of the replacement\<close>

text \<open>With others writing at any time: what a system call adds to the files seen.\<close>

definition seen_more :: "disk \<Rightarrow> disk \<Rightarrow> bool" where
  "seen_more d d' \<longleftrightarrow> (\<exists>xs. dk_Seen d' = dk_Seen d @ xs)"

lemma seen_more_trans: "seen_more d d1 \<Longrightarrow> seen_more d1 d2 \<Longrightarrow> seen_more d d2"
  by (auto simp: seen_more_def)

lemma call_sees: "sys_call E f d = (r, d') \<Longrightarrow> seen_more d d'"
  by (auto simp: seen_more_def sys_call_def Let_def)

lemma steps_see:
  "read_auth_file_bounded E path d = (r1, d') \<Longrightarrow> seen_more d d'" "inspect_file E path d = (r2, d') \<Longrightarrow> seen_more d d'"
  "create_temp E path d = (r3, d') \<Longrightarrow> seen_more d d'" "change_file E path g d = (r4, d') \<Longrightarrow> seen_more d d'"
  "sync_file E d = (r4, d') \<Longrightarrow> seen_more d d'" "remove_file E path d = (r4, d') \<Longrightarrow> seen_more d d'"
  unfolding read_auth_file_bounded_def inspect_file_def create_temp_def change_file_def sync_file_def remove_file_def Let_def
  by (erule call_sees)+

lemma directory_sees: "seen_more d (sync_directory E d)"
proof -
  obtain r1 d1 where s1: "sync_file E d = (r1, d1)" by force
  obtain r2 d2 where s2: "sync_file E d1 = (r2, d2)" by force
  obtain r3 d3 where s3: "sync_file E d2 = (r3, d3)" by force
  note t2 = seen_more_trans [OF steps_see(5) [OF s1] steps_see(5) [OF s2]]
  show ?thesis using steps_see(5) [OF s1] seen_more_trans [OF t2 steps_see(5) [OF s3]]
    by (cases r1) (simp_all add: sync_directory_def s1 s2 s3)
qed

lemma replace_window:
  assumes "replace_auth_file_cas E c target temp expected d = (Inr (), d')"
  shows "\<exists>found raw rest. dk_Seen d' = dk_Seen d @ found # os_Others E (Suc (length (dk_Seen d))) found # rest \<and>
    readable found target = Inr raw \<and> hash_expected expected raw"
  using assms unfolding replace_auth_file_cas_def
proof (cases rule: unless_done_cases)
  case goes
  then show ?thesis
  proof (cases rule: after_cases)
    case (went latest d1)
    let ?found = "os_Others E (length (dk_Seen d)) (dk_Files d)"
    note cs = call_seen [OF went(1) [unfolded read_auth_file_bounded_def]]
    have h: "hash_expected expected latest" using went(2) by (auto split: if_splits)
    then have "unless_done c (after (rename_file E temp target) (\<lambda>_ d2. (Inr (), sync_directory E d2))) d1 = (Inr (), d')" using went(2) by simp
    then show ?thesis
    proof (cases rule: unless_done_cases)
      case goes
      then show ?thesis
      proof (cases rule: after_cases)
        case (went u d2)
        have "dk_Seen d2 = dk_Seen d1 @ [os_Others E (length (dk_Seen d1)) (dk_Files d1)]"
          using call_seen(1) [OF went(1) [unfolded rename_file_def]] .
        moreover have "seen_more d2 d'" using went(2) directory_sees [of d2 E] by simp
        moreover have "dk_Files d1 = ?found" "readable ?found target = Inr latest" using cs(2) [OF refl] by auto
        ultimately show ?thesis using cs(1) h unfolding seen_more_def by auto
      qed auto
    qed auto
  qed auto
qed auto

lemma fill_window:
  assumes "fill_and_replace E c path temp raw mode expected d = (Inr (), d')"
  shows "\<exists>d1. seen_more d d1 \<and> replace_auth_file_cas E c path temp expected d1 = (Inr (), d')"
  using assms unfolding fill_and_replace_def
proof (cases rule: after_cases)
  case (went u1 d1)
  note s1 = steps_see(4) [OF went(1)]
  from went(2) show ?thesis
  proof (cases rule: after_cases)
    case (went u2 d2)
    note s2 = seen_more_trans [OF s1 steps_see(4) [OF went(1)]]
    from went(2) show ?thesis
    proof (cases rule: after_cases)
      case (went u3 d3)
      note s3 = seen_more_trans [OF s2 steps_see(5) [OF went(1)]]
      from went(2) show ?thesis
      proof (cases rule: after_cases)
        case (went u4 d4)
        then show ?thesis using seen_more_trans [OF s3 steps_see(5) [OF went(1)]] by blast
      qed auto
    qed auto
  qed auto
qed auto

lemma atomic_window:
  assumes "atomic_write_auth_file E c path raw mode expected d = (Inr (), d')"
  shows "\<exists>temp d1 d2. seen_more d d1 \<and> replace_auth_file_cas E c path temp expected d1 = (Inr (), d2) \<and> seen_more d2 d'"
  using assms unfolding atomic_write_auth_file_def
proof (cases rule: after_cases)
  case (went temp d1)
  obtain r2 d2 where f: "fill_and_replace E c path temp raw mode expected d1 = (r2, d2)" by force
  obtain r3 d3 where s: "sync_file E d2 = (r3, d3)" by force
  obtain r4 d4 where rm: "remove_file E temp d3 = (r4, d4)" by force
  have e: "r2 = Inr ()" "d' = d4" using went(2) f s rm by auto
  obtain d0 where "seen_more d1 d0" "replace_auth_file_cas E c path temp expected d0 = (Inr (), d2)" using fill_window [OF f [unfolded e]] by blast
  moreover have "seen_more d2 d'" using seen_more_trans [OF steps_see(5) [OF s] steps_see(6) [OF rm]] e by simp
  ultimately show ?thesis using seen_more_trans [OF steps_see(3) [OF went(1)]] by blast
qed auto

lemma validate_sees: "validate_physical_auth_file E name path d = (Inr (p, sz, mode), d') \<Longrightarrow> p = path_clean (trim_space path) \<and> seen_more d d'"
proof -
  assume v: "validate_physical_auth_file E name path d = (Inr (p, sz, mode), d')"
  then have "after (inspect_file E (path_clean (trim_space path))) (\<lambda>info d1. (Inr (path_clean (trim_space path), info), d1)) d = (Inr (p, sz, mode), d')"
    by (auto simp: validate_physical_auth_file_def Let_def split: if_splits)
  then show ?thesis
  proof (cases rule: after_cases)
    case (went info d1)
    then show ?thesis using steps_see(2) [OF went(1)] by blast
  qed blast
qed

lemma save_window_steps:
  assumes s: "save_physical_file E c f d = (Inr (), d')"
  shows "\<exists>temp d1 d2. seen_more d d1 \<and> replace_auth_file_cas E c (auth_file_path f) temp (af_ExpectedSHA256 f) d1 = (Inr (), d2) \<and> seen_more d2 d'"
proof -
  have "after (validate_physical_auth_file E (trim_space (af_Name f)) (af_Path f)) (\<lambda>(path, sz, mode).
      after (failing ''read auth file before write: '' (read_auth_file_bounded E path)) (\<lambda>current d2.
        if \<not> hash_expected (af_ExpectedSHA256 f) current then (Inl (ErrWrap [] ErrAuthFileChanged), d2)
        else unless_done c (failing ''write auth file: '' (atomic_write_auth_file E c path (af_JSON f) mode (af_ExpectedSHA256 f))) d2)) d = (Inr (), d')"
    using s unfolding save_physical_file_def by (simp split: if_splits sum.splits)
  then show ?thesis
  proof (cases rule: after_cases)
    case (went info d1)
    obtain path sz mode where i: "info = (path, sz, mode)" by (cases info) auto
    note v = validate_sees [OF went(1) [unfolded i]]
    have p: "path = auth_file_path f" using v unfolding auth_file_path_def by blast
    from went(2) show ?thesis unfolding i prod.case
    proof (cases rule: after_cases)
      case (went current d2)
      note rd = failing_Inr [OF went(1)]
      have s2: "seen_more d d2" using seen_more_trans [OF conjunct2 [OF v] steps_see(1) [OF rd]] .
      from went(2) have "unless_done c (failing ''write auth file: '' (atomic_write_auth_file E c path (af_JSON f) mode (af_ExpectedSHA256 f))) d2 = (Inr (), d')"
        by (auto split: if_splits)
      then show ?thesis
      proof (cases rule: unless_done_cases)
        case goes
        from atomic_window [OF failing_Inr [OF goes]] obtain temp d3 d4 where w: "seen_more d2 d3"
          "replace_auth_file_cas E c path temp (af_ExpectedSHA256 f) d3 = (Inr (), d4)" "seen_more d4 d'" by blast
        show ?thesis using seen_more_trans [OF s2 w(1)] w(2,3) p by (intro exI [of _ temp] exI [of _ d3] exI [of _ d4]) simp
      qed auto
    qed auto
  qed auto
qed

section \<open>Properties\<close>


text \<open>C12. No update is lost between two operations: a document read by GetAuthFile is only replaced while its content still has the hash
  that was read, whatever happened in between (\<open>d2\<close> is any disk); of two writers that read the same document the second gets an
  error and leaves the first one's document alone, unless the first wrote a document of the same hash.\<close>

theorem stale_save_refused:
  assumes "get_physical_file (calm E) c authIndex response d0 = (Inr f, d1)"
  shows "(save_physical_file (calm E) c' (f\<lparr>af_JSON := j\<rparr>) d2 = (Inr (), d3) \<longrightarrow>
      (\<exists>bs. file_content d2 (auth_file_path f) = Some bs \<and> auth_file_sha256 bs = auth_file_sha256 (af_JSON f))) \<and>
    (save_physical_file (calm E) c' (f\<lparr>af_JSON := j1\<rparr>) d1 = (Inr (), e1) \<longrightarrow>
      auth_file_sha256 j1 = auth_file_sha256 (af_JSON f) \<or>
      (\<exists>e e2. save_physical_file (calm E) c' (f\<lparr>af_JSON := j2\<rparr>) e1 = (Inl e, e2) \<and> file_content e2 (auth_file_path f) = Some j1))"
proof (intro conjI impI)
  show "\<exists>bs. file_content d2 (auth_file_path f) = Some bs \<and> auth_file_sha256 bs = auth_file_sha256 (af_JSON f)"
    if "save_physical_file (calm E) c' (f\<lparr>af_JSON := j\<rparr>) d2 = (Inr (), d3)"
    using files.update_checked [of E c "(authIndex, response)", OF _ that] assms by simp
next
  assume first: "save_physical_file (calm E) c' (f\<lparr>af_JSON := j1\<rparr>) d1 = (Inr (), e1)"
  obtain r e2 where second: "save_physical_file (calm E) c' (f\<lparr>af_JSON := j2\<rparr>) e1 = (r, e2)" by force
  show "auth_file_sha256 j1 = auth_file_sha256 (af_JSON f) \<or>
      (\<exists>e e2. save_physical_file (calm E) c' (f\<lparr>af_JSON := j2\<rparr>) e1 = (Inl e, e2) \<and> file_content e2 (auth_file_path f) = Some j1)"
    using files.second_refused [of E c "(authIndex, response)" d0 f d1, OF _ first _ second] assms second by auto
qed


section \<open>A disk with one credential\<close>

definition sample_os :: os where
  "sample_os = \<lparr> os_Fault = \<lambda>_. None, os_Others = \<lambda>_ fs. fs, os_Took = \<lambda>_. 0, os_Random = \<lambda>_. ''1'' \<rparr>"

definition sample_disk :: disk where
  "sample_disk = \<lparr> dk_Files = [''/auth/a.json'' \<mapsto> RegularFile ''{}'' 384], dk_Now = 0, dk_Seen = [] \<rparr>"

definition sample_response :: auth_get_response where
  "sample_response = \<lparr> ag_AuthIndex = ''index'', ag_Name = ''a.json'', ag_Path = ''/auth/a.json'' \<rparr>"

lemma sample_call: "sys_call (calm sample_os) f d = (fst (f (dk_Files d)), \<lparr> dk_Files = snd (f (dk_Files d)), dk_Now = dk_Now d, dk_Seen = dk_Seen d @ [dk_Files d] \<rparr>)"
  by (simp add: sys_call_def calm_def sample_os_def Let_def)

lemma sample_texts:
  "trim_space ''index'' = ''index''" "trim_space ''a.json'' = ''a.json''" "trim_space ''/auth/a.json'' = ''/auth/a.json''"
  "path_clean ''/auth/a.json'' = ''/auth/a.json''" "auth_path_ok ''/auth/a.json'' ''a.json''" "validate_auth_file_json ''{}'' = Inr ()"
  "validate_auth_file_json ''{ }'' = Inr ()" "trim_space ''{ }'' = ''{ }''" "path_dir ''/auth/a.json'' = ''/auth''"
  by code_simp+

lemma sample_get:
  "get_physical_file (calm sample_os) background ''index'' sample_response sample_disk =
     (Inr \<lparr> af_AuthIndex = ''index'', af_Name = ''a.json'', af_Path = ''/auth/a.json'', af_JSON = ''{}'', af_ExpectedSHA256 = auth_file_sha256 ''{}'' \<rparr>,
      \<lparr> dk_Files = dk_Files sample_disk, dk_Now = 0, dk_Seen = [dk_Files sample_disk, dk_Files sample_disk] \<rparr>)"
  by (simp add: get_physical_file_def sample_response_def sample_texts validate_physical_auth_file_def inspect_file_def sample_call after_def
      failing_def unless_done_def ctx_err_def read_auth_file_bounded_def readable_def sample_disk_def maxAuthFileWriteBytes_def eval_nat_numeral Let_def)

text \<open>A hash has 64 hexadecimal digits; what matters here is that it is not empty and has no space around it.\<close>

lemma round_length: "length hs = 8 \<Longrightarrow> length (sha_round hs kw) = 8"
  by (cases kw; cases "(hs, kw)" rule: sha_round.cases) (auto simp: Let_def)

lemma rounds_length: "length hs = 8 \<Longrightarrow> length (foldl sha_round hs kws) = 8"
  by (induction kws arbitrary: hs) (simp_all add: round_length)

lemma block_length: "length hs = 8 \<Longrightarrow> length (sha_block hs ws) = 8"
  by (simp add: sha_block_def rounds_length)

lemma blocks_length: "length hs = 8 \<Longrightarrow> length (sha_blocks n hs ws) = 8"
  by (induction n hs ws rule: sha_blocks.induct) (simp_all add: block_length)

lemma hash_chars: "c \<in> set (auth_file_sha256 raw) \<Longrightarrow> \<exists>k<16. c = hex_digit k"
proof -
  assume "c \<in> set (auth_file_sha256 raw)"
  then obtain n where n: "c \<in> set (hex_byte n)" "n < 256"
    using word_bytes_small unfolding auth_file_sha256_def sha256_hex_def hex_encode_def Let_def by fastforce
  then have "c = hex_digit (n div 16) \<or> c = hex_digit (n mod 16)" by (auto simp: hex_byte_def)
  moreover have "n div 16 < 16" "n mod 16 < 16" using n(2) by auto
  ultimately show ?thesis by blast
qed

lemma hash_nonempty: "auth_file_sha256 raw \<noteq> []"
proof -
  have "length (sha_blocks n sha_init ws) = 8" for n ws by (rule blocks_length) (simp add: sha_init_def)
  then have "sha_blocks n sha_init ws \<noteq> []" for n ws by (metis length_0_conv zero_neq_numeral)
  then obtain x xs where "sha_blocks (length (be_words (sha_pad (bytes_of raw))) div 16) sha_init (be_words (sha_pad (bytes_of raw))) = x # xs"
    by (meson list.exhaust)
  then show ?thesis by (simp add: auth_file_sha256_def sha256_hex_def Let_def word_bytes_def hex_encode_def hex_byte_def)
qed

lemma hash_trim: "trim_space (auth_file_sha256 raw) = auth_file_sha256 raw"
proof -
  have pl: "list_all (\<lambda>k. \<not> digit7 (hex_digit k) \<and> \<not> ascii_space (hex_digit k)) [0..<16]" by code_simp
  obtain c t where c: "auth_file_sha256 raw = c # t" using hash_nonempty by (meson list.exhaust)
  obtain u d where u: "auth_file_sha256 raw = u @ [d]" using hash_nonempty by (meson rev_exhaust)
  have "\<not> digit7 x \<and> \<not> ascii_space x" if "x \<in> set (auth_file_sha256 raw)" for x
    using hash_chars [OF that] pl by (auto simp: list_all_iff)
  then have "\<not> digit7 c \<and> \<not> ascii_space c" "\<not> digit7 d \<and> \<not> ascii_space d" using c u by (metis list.set_intros(1), metis in_set_conv_decomp)
  then show ?thesis by (intro space_free_ends [OF c u]) simp_all
qed

lemma hash_expected_self: "hash_expected (auth_file_sha256 raw) raw"
  by (simp add: hash_expected_def hash_trim hash_nonempty)

text \<open>A smooth run: nothing fails, nobody interferes, the context stays open.\<close>

definition smooth :: "os \<Rightarrow> ctx \<Rightarrow> bool" where
  "smooth E c \<longleftrightarrow> quiet_os E \<and> (\<forall>n. os_Fault E n = None) \<and> ctx_end c = None"

lemma smooth_call: "smooth E c \<Longrightarrow> f (dk_Files d) = (r, fs) \<Longrightarrow> \<exists>d'. sys_call E f d = (r, d') \<and> dk_Files d' = fs"
  by (simp add: smooth_def sys_call_def quiet_os_def Let_def)

lemma after_Inr: "m d = (Inr a, d1) \<Longrightarrow> after m f d = f a d1"
  by (simp add: after_def)

lemma unless_smooth: "smooth E c \<Longrightarrow> unless_done c m d = m d"
  by (simp add: smooth_def unless_done_def ctx_err_def)

lemma smooth_replace:
  assumes sm: "smooth E c" and pa: "readable (dk_Files d) path = Inr bs" "hash_expected expected bs" and te: "dk_Files d temp = Some nd"
  shows "\<exists>d'. replace_auth_file_cas E c path temp expected d = (Inr (), d')"
proof -
  obtain d1 where d1: "read_auth_file_bounded E path d = (Inr bs, d1)" "dk_Files d1 = dk_Files d"
    using smooth_call [OF sm, of "\<lambda>fs. (readable fs path, fs)" d] pa(1) unfolding read_auth_file_bounded_def by auto
  have "dk_Files d1 temp = Some nd" using d1(2) te by simp
  then obtain d2 where d2: "rename_file E temp path d1 = (Inr (), d2)"
    using smooth_call [OF sm, of "\<lambda>fs. (case fs temp of None \<Rightarrow> (Inl (ErrNew ''no such file or directory''), fs) | Some nd \<Rightarrow> (Inr (), fs(temp := None, path \<mapsto> nd)))" d1]
    unfolding rename_file_def by auto
  show ?thesis using pa(2) unfolding replace_auth_file_cas_def unless_smooth [OF sm] after_Inr [of "read_auth_file_bounded E path", OF d1(1)]
    by (simp add: after_Inr [of "rename_file E temp path", OF d2])
qed

lemma smooth_write:
  assumes sm: "smooth E c" and ok: "auth_path_ok path name" and pa: "dk_Files d path = Some (RegularFile bs mode)" "int (length bs) \<le> maxAuthFileWriteBytes"
    and h: "hash_expected expected bs"
    and te: "dk_Files d (path_dir path @ ''/.cpa-auto-refresh-'' @ os_Random E (length (dk_Seen d)) @ ''.tmp'') = None"
  shows "\<exists>d'. atomic_write_auth_file E c path raw mode expected d = (Inr (), d')"
proof -
  define temp where "temp = path_dir path @ ''/.cpa-auto-refresh-'' @ os_Random E (length (dk_Seen d)) @ ''.tmp''"
  have ne: "path \<noteq> temp" using temp_not_json [OF ok] unfolding temp_def .
  have te': "dk_Files d temp = None" using te unfolding temp_def .
  obtain d1 where d1: "create_temp E (path_dir path) d = (Inr temp, d1)" "dk_Files d1 = (dk_Files d)(temp \<mapsto> RegularFile [] 384)"
    using smooth_call [OF sm, of "\<lambda>fs. if fs temp = None then (Inr temp, fs(temp \<mapsto> RegularFile [] 384)) else (Inl (ErrNew ''file exists''), fs)" d] te'
    unfolding create_temp_def Let_def temp_def [symmetric] by auto
  have change: "\<exists>d'. change_file E temp g d0 = (Inr (), d') \<and> dk_Files d' = (dk_Files d0)(temp \<mapsto> g b m)" if "dk_Files d0 temp = Some (RegularFile b m)" for g d0 b m
    using smooth_call [OF sm, of "\<lambda>fs. (Inr (), case fs temp of Some (RegularFile raw mode) \<Rightarrow> fs(temp \<mapsto> g raw mode) | _ \<Rightarrow> fs)" d0] that
    unfolding change_file_def by auto
  have sync: "\<exists>d'. sync_file E d0 = (Inr (), d') \<and> dk_Files d' = dk_Files d0" for d0
    using smooth_call [OF sm, of "\<lambda>fs. (Inr (), fs)" d0] unfolding sync_file_def by auto
  obtain d2 where d2: "change_file E temp (\<lambda>_ m. RegularFile raw m) d1 = (Inr (), d2)" "dk_Files d2 = (dk_Files d1)(temp \<mapsto> RegularFile raw 384)"
    using change [of d1 "[]" 384] d1(2) by auto
  obtain d3 where d3: "change_file E temp (\<lambda>b _. RegularFile b mode) d2 = (Inr (), d3)" "dk_Files d3 = (dk_Files d2)(temp \<mapsto> RegularFile raw mode)"
    using change [of d2 raw 384] d2(2) by auto
  obtain d4 where d4: "sync_file E d3 = (Inr (), d4)" "dk_Files d4 = dk_Files d3" using sync by blast
  obtain d5 where d5: "sync_file E d4 = (Inr (), d5)" "dk_Files d5 = dk_Files d4" using sync by blast
  have f5: "dk_Files d5 path = Some (RegularFile bs mode)" "dk_Files d5 temp = Some (RegularFile raw mode)"
    using d1(2) d2(2) d3(2) d4(2) d5(2) ne pa by auto
  have "readable (dk_Files d5) path = Inr bs" using f5(1) pa(2) by (simp add: readable_def eval_nat_numeral)
  then obtain d6 where d6: "replace_auth_file_cas E c path temp expected d5 = (Inr (), d6)" using smooth_replace [OF sm _ h f5(2)] by blast
  have "fill_and_replace E c path temp raw mode expected d1 = (Inr (), d6)"
    unfolding fill_and_replace_def after_Inr [of "change_file E temp (\<lambda>_ m. RegularFile raw m)", OF d2(1)]
      after_Inr [of "change_file E temp (\<lambda>b _. RegularFile b mode)", OF d3(1)] after_Inr [of "sync_file E", OF d4(1)]
      after_Inr [of "sync_file E", OF d5(1)] by (rule d6)
  then show ?thesis unfolding atomic_write_auth_file_def after_Inr [of "create_temp E (path_dir path)", OF d1(1)] by simp
qed

lemma sample_save:
  assumes "dk_Files d = dk_Files sample_disk"
  shows "\<exists>d'. save_physical_file (calm sample_os) background
      \<lparr> af_AuthIndex = ''index'', af_Name = ''a.json'', af_Path = ''/auth/a.json'', af_JSON = ''{ }'', af_ExpectedSHA256 = auth_file_sha256 ''{}'' \<rparr> d = (Inr (), d')"
proof -
  have sm: "smooth (calm sample_os) background" by (simp add: smooth_def) (simp add: calm_def sample_os_def)
  let ?d2 = "\<lparr> dk_Files = dk_Files d, dk_Now = dk_Now d, dk_Seen = dk_Seen d @ [dk_Files d, dk_Files d] \<rparr>"
  obtain d' where w: "atomic_write_auth_file (calm sample_os) background ''/auth/a.json'' ''{ }'' 384 (auth_file_sha256 ''{}'') ?d2 = (Inr (), d')"
    using smooth_write [OF sm sample_texts(5), of ?d2 "''{}''" 384 "auth_file_sha256 ''{}''" "''{ }''"] assms
    by (auto simp: sample_disk_def hash_expected_self maxAuthFileWriteBytes_def sample_texts)
  show ?thesis using assms w
    by (simp add: save_physical_file_def sample_texts validate_physical_auth_file_def inspect_file_def sample_call after_def failing_def
      unless_done_def ctx_err_def read_auth_file_bounded_def readable_def sample_disk_def maxAuthFileWriteBytes_def eval_nat_numeral Let_def hash_expected_self)
qed


lemma stale_save_refused_witness:
  "\<exists>f d1. get_physical_file (calm sample_os) background ''index'' sample_response sample_disk = (Inr f, d1) \<and>
    (\<exists>e1. save_physical_file (calm sample_os) background (f\<lparr>af_JSON := ''{ }''\<rparr>) d1 = (Inr (), e1) \<and>
      (auth_file_sha256 ''{ }'' = auth_file_sha256 ''{}'' \<or>
       (\<exists>e e2. save_physical_file (calm sample_os) background (f\<lparr>af_JSON := ''[]''\<rparr>) e1 = (Inl e, e2) \<and> file_content e2 ''/auth/a.json'' = Some ''{ }'')))"
proof -
  let ?f = "\<lparr> af_AuthIndex = ''index'', af_Name = ''a.json'', af_Path = ''/auth/a.json'', af_JSON = ''{}'', af_ExpectedSHA256 = auth_file_sha256 ''{}'' \<rparr>"
  let ?d1 = "\<lparr> dk_Files = dk_Files sample_disk, dk_Now = 0, dk_Seen = [dk_Files sample_disk, dk_Files sample_disk] \<rparr>"
  obtain e1 where e1: "save_physical_file (calm sample_os) background (?f\<lparr>af_JSON := ''{ }''\<rparr>) ?d1 = (Inr (), e1)"
    using sample_save [of ?d1] by auto
  have p: "auth_file_path ?f = ''/auth/a.json''" by (simp add: auth_file_path_def sample_texts)
  from conjunct2 [OF stale_save_refused [OF sample_get, of background _ _ _ "''{ }''" e1 "''[]''"]] e1 p
  have "auth_file_sha256 ''{ }'' = auth_file_sha256 ''{}'' \<or>
       (\<exists>e e2. save_physical_file (calm sample_os) background (?f\<lparr>af_JSON := ''[]''\<rparr>) e1 = (Inl e, e2) \<and> file_content e2 ''/auth/a.json'' = Some ''{ }'')"
    by simp
  then show ?thesis using sample_get e1 by blast
qed


end
