(* ===== verification/Plugin_Entry.thy ===== *)
theory Plugin_Entry imports Service_System Pin_Registry Auth_Store begin

text \<open>
  The entry points of the plugin (\<^verbatim>\<open>cmd/cpa-auto-refresh-quota/main.go\<close>): the envelopes of the ABI, the management routes, the
  dispatch of methods, the lifecycle of the service, and the pinned model call. The structs of the CLIProxyAPI SDK and
  the names of its methods are parameters, already decoded where the code decodes them. The status document is kept as the
  status itself.
\<close>

section \<open>Envelopes\<close>

record envelope_error =
  ee_Code :: string
  ee_Message :: string

record envelope =
  ev_OK :: bool
  ev_Result :: "json option"
  ev_Error :: "envelope_error option"

definition ok_envelope :: "json \<Rightarrow> bytes" where
  "ok_envelope v = print_json (JObj [(''ok'', JBool True), (''result'', v)])"

definition error_envelope :: "string \<Rightarrow> string \<Rightarrow> bytes" where
  "error_envelope code message = print_json (JObj [(''ok'', JBool False),
     (''error'', JObj [(''code'', JStr (encode_text code)), (''message'', JStr (encode_text message))])])"

definition set_error_field :: "envelope_error \<Rightarrow> string \<times> json \<Rightarrow> envelope_error option" where
  "set_error_field e kv =
     (let k = unquote (fst kv); v = snd kv
      in if equal_fold_ascii k ''code'' then map_option (\<lambda>x. e\<lparr>ee_Code := x\<rparr>) (json_string v (ee_Code e))
         else if equal_fold_ascii k ''message'' then map_option (\<lambda>x. e\<lparr>ee_Message := x\<rparr>) (json_string v (ee_Message e))
         else if equal_fold_ascii k ''retryable'' then map_option (\<lambda>_. e) (json_bool v False)
         else if equal_fold_ascii k ''http_status'' then map_option (\<lambda>_. e) (json_int v 0)
         else Some e)"

fun set_error_fields :: "envelope_error \<Rightarrow> (string \<times> json) list \<Rightarrow> envelope_error option" where
  "set_error_fields e [] = Some e"
| "set_error_fields e (kv # kvs) = (case set_error_field e kv of None \<Rightarrow> None | Some e' \<Rightarrow> set_error_fields e' kvs)"

definition set_envelope_field :: "envelope \<Rightarrow> string \<times> json \<Rightarrow> envelope option" where
  "set_envelope_field env kv =
     (let k = unquote (fst kv); v = snd kv
      in if equal_fold_ascii k ''ok'' then map_option (\<lambda>b. env\<lparr>ev_OK := b\<rparr>) (json_bool v (ev_OK env))
         else if equal_fold_ascii k ''result'' then Some (env\<lparr>ev_Result := Some v\<rparr>)
         else if equal_fold_ascii k ''error'' then
           (case v of
              JNull \<Rightarrow> Some (env\<lparr>ev_Error := None\<rparr>)
            | JObj kvs \<Rightarrow>
                map_option (\<lambda>e. env\<lparr>ev_Error := Some e\<rparr>)
                  (set_error_fields (case ev_Error env of None \<Rightarrow> \<lparr> ee_Code = [], ee_Message = [] \<rparr> | Some e \<Rightarrow> e) kvs)
            | _ \<Rightarrow> None)
         else Some env)"

fun set_envelope_fields :: "envelope \<Rightarrow> (string \<times> json) list \<Rightarrow> envelope option" where
  "set_envelope_fields env [] = Some env"
| "set_envelope_fields env (kv # kvs) = (case set_envelope_field env kv of None \<Rightarrow> None | Some env' \<Rightarrow> set_envelope_fields env' kvs)"

definition zero_envelope :: envelope where
  "zero_envelope = \<lparr> ev_OK = False, ev_Result = None, ev_Error = None \<rparr>"

definition decode_envelope :: "bytes \<Rightarrow> envelope option" where
  "decode_envelope raw =
     (case parse_json raw of
        Some (JObj kvs) \<Rightarrow> set_envelope_fields zero_envelope kvs
      | Some JNull \<Rightarrow> Some zero_envelope
      | _ \<Rightarrow> None)"

text \<open>What \<^verbatim>\<open>call\<close> makes of the host's answer.\<close>

definition host_answer :: "string \<Rightarrow> int \<Rightarrow> bytes \<Rightarrow> err + json option" where
  "host_answer meth callCode rawResponse =
     (if rawResponse = [] then Inl (ErrNew (''host callback '' @ meth @ '' returned no response, code='' @ itoa callCode))
      else case decode_envelope rawResponse of
        None \<Rightarrow> Inl (ErrWrap (''decode host callback envelope '' @ meth @ '': '') ErrJson)
      | Some env \<Rightarrow>
          if \<not> ev_OK env
          then (case ev_Error env of
                  Some e \<Rightarrow> Inl (ErrNew (ee_Code e @ '': '' @ ee_Message e))
                | None \<Rightarrow> Inl (ErrNew (''host callback '' @ meth @ '' failed'')))
          else if callCode \<noteq> 0 then Inl (ErrNew (''host callback '' @ meth @ '' returned code='' @ itoa callCode))
          else Inr (ev_Result env))"

text \<open>
  The context is looked at before the payload is marshalled (at \<open>now\<close>) and again when the lock is held (at \<open>locked\<close>). \<open>api\<close>
  is the C function of the host, with its code and its buffer.
\<close>

definition call_host ::
  "ctx \<Rightarrow> instant \<Rightarrow> instant \<Rightarrow> (string \<Rightarrow> bytes \<Rightarrow> int \<times> bytes) \<Rightarrow> string \<Rightarrow> err + bytes \<Rightarrow> err + json option"
where
  "call_host c now locked api meth payload =
     (case ctx_err c now of
        Some e \<Rightarrow> Inl e
      | None \<Rightarrow>
          (case payload of
             Inl e \<Rightarrow> Inl (ErrWrap (''marshal host callback payload '' @ meth @ '': '') e)
           | Inr rawPayload \<Rightarrow>
               (case ctx_err c locked of
                  Some e \<Rightarrow> Inl e
                | None \<Rightarrow> (case api meth rawPayload of (callCode, rawResponse) \<Rightarrow> host_answer meth callCode rawResponse))))"

section \<open>The request of a manual run\<close>

record manual_run_request =
  mq_DryRun :: bool
  mq_AuthIndices :: "json option"

definition set_request_field :: "manual_run_request \<Rightarrow> string \<times> json \<Rightarrow> manual_run_request option" where
  "set_request_field q kv =
     (let k = unquote (fst kv); v = snd kv
      in if equal_fold_ascii k ''dry_run'' then map_option (\<lambda>b. q\<lparr>mq_DryRun := b\<rparr>) (json_bool v (mq_DryRun q))
         else if equal_fold_ascii k ''auth_indices'' then Some (q\<lparr>mq_AuthIndices := Some v\<rparr>)
         else None)"

fun set_request_fields :: "manual_run_request \<Rightarrow> (string \<times> json) list \<Rightarrow> manual_run_request option" where
  "set_request_fields q [] = Some q"
| "set_request_fields q (kv # kvs) = (case set_request_field q kv of None \<Rightarrow> None | Some q' \<Rightarrow> set_request_fields q' kvs)"

definition request_of_json :: "json option \<Rightarrow> manual_run_request \<Rightarrow> manual_run_request option" where
  "request_of_json v q =
     (case v of Some (JObj kvs) \<Rightarrow> set_request_fields q kvs | Some JNull \<Rightarrow> Some q | _ \<Rightarrow> None)"

text \<open>
  A request, and after it a value that \<^verbatim>\<open>Decode\<close> can put into an empty struct. The error is then not the decoder's.
\<close>

definition second_value :: "bytes \<Rightarrow> manual_run_request \<Rightarrow> bool" where
  "second_value raw q \<longleftrightarrow>
     list_ex (\<lambda>n. request_of_json (parse_json (take n raw)) q \<noteq> None \<and>
       list_ex (\<lambda>m. case parse_json (take m (drop n raw)) of Some (JObj kvs) \<Rightarrow> kvs = [] | Some JNull \<Rightarrow> True | _ \<Rightarrow> False)
         [0..<Suc (length raw)])
       [0..<Suc (length raw)]"

definition decode_strict_json :: "bytes \<Rightarrow> manual_run_request \<Rightarrow> err + manual_run_request" where
  "decode_strict_json raw q =
     (case request_of_json (parse_json raw) q of
        Some q' \<Rightarrow> Inr q'
      | None \<Rightarrow> if second_value raw q then Inl (ErrNew ''invalid JSON request: multiple values'')
                else Inl (ErrWrap ''invalid JSON request: '' ErrJson))"

fun json_strings :: "json list \<Rightarrow> string list option" where
  "json_strings [] = Some []"
| "json_strings (v # vs) =
     (case json_string v [] of None \<Rightarrow> None | Some s \<Rightarrow> map_option ((#) s) (json_strings vs))"

definition request_options :: "manual_run_request \<Rightarrow> err + manual_run_options" where
  "request_options q =
     (case mq_AuthIndices q of
        None \<Rightarrow> Inr \<lparr> mo_DryRun = mq_DryRun q, mo_AuthIndices = [] \<rparr>
      | Some JNull \<Rightarrow> Inl (ErrNew ''auth_indices must be a non-empty array when provided'')
      | Some v \<Rightarrow>
          (case (case v of JArr vs \<Rightarrow> json_strings vs | _ \<Rightarrow> None) of
             None \<Rightarrow> Inl (ErrWrap ''auth_indices must be an array of strings: '' ErrJson)
           | Some [] \<Rightarrow> Inl (ErrNew ''auth_indices must be a non-empty array when provided'')
           | Some indices \<Rightarrow> Inr \<lparr> mo_DryRun = mq_DryRun q, mo_AuthIndices = indices \<rparr>))"

fun normalize_indices :: "string list \<Rightarrow> string list \<Rightarrow> err + string list" where
  "normalize_indices seen [] = Inr []"
| "normalize_indices seen (x # xs) =
     (let authIndex = trim_space x
      in if authIndex = [] then Inl (ErrNew ''auth_indices must not contain empty values'')
         else if authIndex \<in> set seen then normalize_indices seen xs
         else rbind (normalize_indices (authIndex # seen) xs) (\<lambda>ys. Inr (authIndex # ys)))"

definition normalize_manual_run_options :: "manual_run_options \<Rightarrow> err + manual_run_options" where
  "normalize_manual_run_options options =
     (if length (mo_AuthIndices options) > 256 then Inl (ErrNew ''auth_indices contains more than 256 entries'')
      else rbind (normalize_indices [] (mo_AuthIndices options)) (\<lambda>indices. Inr (options\<lparr>mo_AuthIndices := indices\<rparr>)))"

definition run_body_options :: "bytes \<Rightarrow> err + manual_run_options" where
  "run_body_options body =
     (let zero = \<lparr> mq_DryRun = False, mq_AuthIndices = None \<rparr>
      in rbind (if trim_space body \<noteq> [] then decode_strict_json body zero else Inr zero) (\<lambda>q.
         rbind (request_options q) normalize_manual_run_options))"

section \<open>Management routes\<close>

definition statusRoute :: string where "statusRoute = ''/plugins/cpa-auto-refresh-quota/status''"
definition runRoute :: string where "runRoute = ''/plugins/cpa-auto-refresh-quota/run''"
definition maxManagementBodyBytes :: int where "maxManagementBodyBytes = 64 * 1024"

record management_request =
  mg_Method :: string
  mg_Path :: string
  mg_Body :: bytes

datatype management_body = StatusBody status | ErrorBody string | AcceptedBody string

record management_response =
  mp_StatusCode :: int
  mp_Headers :: header
  mp_Body :: management_body

definition json_management_response :: "int \<Rightarrow> management_body \<Rightarrow> management_response" where
  "json_management_response code body =
     \<lparr> mp_StatusCode = code, mp_Headers = [(''Content-Type'', [''application/json; charset=utf-8''])], mp_Body = body \<rparr>"

text \<open>The bodies whose keys are in this file.\<close>

definition error_body_json :: "string \<Rightarrow> json" where
  "error_body_json text = JObj [(''error'', JStr (encode_text text))]"

definition accepted_body_json :: "string \<Rightarrow> json" where
  "accepted_body_json runID = JObj [(''accepted'', JBool True), (''run_id'', JStr (encode_text runID))]"

text \<open>\<^verbatim>\<open>StartManual\<close> with nobody in between; the interleavings are those of \<open>sys_step\<close>.\<close>

definition start_manual :: "manual_run_options \<Rightarrow> err + bytes \<Rightarrow> instant \<Rightarrow> nat \<Rightarrow> service \<Rightarrow> (err + run_report) \<times> service" where
  "start_manual options rand now ctx sv =
     start_run (config_clone (sv_config sv)) (sv_configGeneration sv) ''manual'' [] options rand now ctx sv"

definition start_status_code :: "err \<Rightarrow> int" where
  "start_status_code e =
     (if err_is e ErrBusy then 409 else if err_is e ErrNotConfigured then 400 else if err_is e ErrStopped then 503 else 500)"

definition handle_run :: "bytes \<Rightarrow> err + bytes \<Rightarrow> instant \<Rightarrow> nat \<Rightarrow> service \<Rightarrow> management_response \<times> service" where
  "handle_run body rand now ctx sv =
     (if int (length body) > maxManagementBodyBytes then (json_management_response 413 (ErrorBody ''request body is too large''), sv)
      else case run_body_options body of
        Inl e \<Rightarrow> (json_management_response 400 (ErrorBody (err_text e)), sv)
      | Inr options \<Rightarrow>
          (case start_manual options rand now ctx sv of
             (Inl e, sv') \<Rightarrow> (json_management_response (start_status_code e) (ErrorBody (err_text e)), sv')
           | (Inr report, sv') \<Rightarrow> (json_management_response 202 (AcceptedBody (rr_RunID report)), sv')))"

definition handle_management ::
  "err + management_request \<Rightarrow> err + bytes \<Rightarrow> instant \<Rightarrow> nat \<Rightarrow> service \<Rightarrow> (err + management_response) \<times> service"
where
  "handle_management decoded rand now ctx sv =
     (case decoded of
        Inl e \<Rightarrow> (Inl (ErrWrap ''decode management request: '' e), sv)
      | Inr q \<Rightarrow>
          if mg_Method q = ''GET'' \<and> mg_Path q = ''/v0/management'' @ statusRoute
          then (Inr (json_management_response 200 (StatusBody (status_of sv))), sv)
          else if mg_Method q = ''POST'' \<and> mg_Path q = ''/v0/management'' @ runRoute
          then (case handle_run (mg_Body q) rand now ctx sv of (resp, sv') \<Rightarrow> (Inr resp, sv'))
          else (Inr (json_management_response 404 (ErrorBody ''route not found'')), sv))"

section \<open>Lifecycle and methods\<close>

text \<open>\<^verbatim>\<open>applyConfiguration\<close>: a stopped service is replaced; the result is the error and, if a new generation begins, the contexts to cancel.\<close>

definition apply_configuration :: "err + config \<Rightarrow> service \<Rightarrow> apply_outcome \<times> err option \<times> service" where
  "apply_configuration parsed sv =
     (let sv0 = (if st_Stopped (status_of sv) then new_service else sv)
      in case apply_config_locked parsed sv0 of
           (ApplyStopped, sv1) \<Rightarrow> (ApplyStopped, Some ErrStopped, sv1)
         | (ApplyUnchanged, sv1) \<Rightarrow> (ApplyUnchanged, None, sv1)
         | (ApplyInstalled generation cancels, sv1) \<Rightarrow>
             (ApplyInstalled generation cancels, (case parsed of Inl e \<Rightarrow> Some e | Inr _ \<Rightarrow> None), sv1))"

definition shutdown_service :: "service \<Rightarrow> service" where
  "shutdown_service sv = snd (shutdown_locked sv)"

datatype abi_method =
    PluginRegister | PluginReconfigure | PluginShutdown | ManagementRegister | ManagementHandle | SchedulerPick | OtherMethod string

datatype method_result =
    RegistrationResult
  | EmptyResult
  | RoutesResult "(string \<times> string) list"
  | ManagementResult management_response
  | PickResult "string \<times> bool"
  | ErrorResult string string

record plugin =
  pl_Service :: service
  pl_Pins :: pin_registry

text \<open>The requests, decoded: the configuration, the management request, the headers and candidates of a scheduler request.\<close>

record plugin_request =
  rq_Lifecycle :: "err + (err + config)"
  rq_Management :: "err + management_request"
  rq_Scheduler :: "err + header \<times> string list"

definition scheduler_error_code :: "err \<Rightarrow> string" where
  "scheduler_error_code e =
     (if err_is e ErrPinnedAuthUnavailable then ''target_auth_unavailable''
      else if err_is e ErrInvalidPinHeader then ''invalid_routing_token'' else ''scheduler_pin_failed'')"

definition handle_lifecycle :: "plugin_request \<Rightarrow> plugin \<Rightarrow> (err + method_result) \<times> plugin" where
  "handle_lifecycle request p =
     (case rq_Lifecycle request of
        Inl e \<Rightarrow> (Inl (ErrWrap ''decode lifecycle request: '' e), p)
      | Inr parsed \<Rightarrow>
          (case apply_configuration parsed (pl_Service p) of
             (_, Some e, sv) \<Rightarrow> (Inl e, p\<lparr>pl_Service := sv\<rparr>)
           | (_, None, sv) \<Rightarrow> (Inr RegistrationResult, p\<lparr>pl_Service := sv\<rparr>)))"

definition handle_method ::
  "abi_method \<Rightarrow> plugin_request \<Rightarrow> err + bytes \<Rightarrow> instant \<Rightarrow> nat \<Rightarrow> plugin \<Rightarrow> (err + method_result) \<times> plugin"
where
  "handle_method meth request rand now ctx p =
     (case meth of
        PluginRegister \<Rightarrow> handle_lifecycle request p
      | PluginReconfigure \<Rightarrow> handle_lifecycle request p
      | PluginShutdown \<Rightarrow> (Inr EmptyResult, p\<lparr>pl_Service := shutdown_service (pl_Service p)\<rparr>)
      | ManagementRegister \<Rightarrow> (Inr (RoutesResult [(''GET'', statusRoute), (''POST'', runRoute)]), p)
      | ManagementHandle \<Rightarrow>
          (case handle_management (rq_Management request) rand now ctx (pl_Service p) of
             (Inl e, sv) \<Rightarrow> (Inl e, p\<lparr>pl_Service := sv\<rparr>)
           | (Inr resp, sv) \<Rightarrow> (Inr (ManagementResult resp), p\<lparr>pl_Service := sv\<rparr>))
      | SchedulerPick \<Rightarrow>
          (case rq_Scheduler request of
             Inl e \<Rightarrow> (Inl (ErrWrap ''decode scheduler request: '' e), p)
           | Inr (headers, candidates) \<Rightarrow>
               (case pick_pinned_auth (pl_Pins p) headers candidates of
                  (r, Inl e) \<Rightarrow> (Inr (ErrorResult (scheduler_error_code e) (err_text e)), p\<lparr>pl_Pins := r\<rparr>)
                | (r, Inr answer) \<Rightarrow> (Inr (PickResult answer), p\<lparr>pl_Pins := r\<rparr>)))
      | OtherMethod name \<Rightarrow> (Inr (ErrorResult ''unknown_method'' (''unknown method: '' @ name)), p))"

text \<open>The exported call: the envelope to write, and the code to return.\<close>

definition plugin_call ::
  "abi_method option \<Rightarrow> plugin_request \<Rightarrow> err + bytes \<Rightarrow> instant \<Rightarrow> nat \<Rightarrow> plugin \<Rightarrow> (method_result \<times> int) \<times> plugin"
where
  "plugin_call meth request rand now ctx p =
     (case meth of
        None \<Rightarrow> ((ErrorResult ''invalid_method'' ''method is required'', 1), p)
      | Some m \<Rightarrow>
          (case handle_method m request rand now ctx p of
             (Inl e, p') \<Rightarrow> ((ErrorResult ''plugin_error'' (err_text e), 1), p')
           | (Inr result, p') \<Rightarrow> ((result, 0), p')))"

section \<open>The pinned model call\<close>

text \<open>\<^verbatim>\<open>http.CanonicalHeaderKey\<close>.\<close>

definition token_byte :: "char \<Rightarrow> bool" where
  "token_byte c \<longleftrightarrow> is_digit c \<or> (65 \<le> (of_char c :: nat) \<and> (of_char c :: nat) \<le> 90) \<or> (97 \<le> (of_char c :: nat) \<and> (of_char c :: nat) \<le> 122) \<or>
     c \<in> set ''!#$%&*+-.^_|~'' \<or> (of_char c :: nat) = 39 \<or> (of_char c :: nat) = 96"

definition ascii_upper :: "char \<Rightarrow> char" where
  "ascii_upper c = (if 97 \<le> (of_char c :: nat) \<and> (of_char c :: nat) \<le> 122 then char_of (of_char c - 32 :: nat) else c)"

fun canonical_from :: "bool \<Rightarrow> string \<Rightarrow> string" where
  "canonical_from upper [] = []"
| "canonical_from upper (c # cs) = (if upper then ascii_upper c else ascii_lower c) # canonical_from (c = CHR ''-'') cs"

definition canonical_header_key :: "string \<Rightarrow> string" where
  "canonical_header_key k = (if list_all token_byte k then canonical_from True k else k)"

definition clone_header :: "header \<Rightarrow> header" where
  "clone_header h = map (\<lambda>(k, vals). (k, [] @ vals)) h"

definition clone_values :: "header \<Rightarrow> header" where
  "clone_values values = map (\<lambda>(k, items). (k, [] @ items)) values"

definition pinned_headers :: "string \<Rightarrow> header \<Rightarrow> header" where
  "pinned_headers token h =
     AList.update (canonical_header_key pinHeaderName) [token] (AList.delete (canonical_header_key pinHeaderName) (clone_header h))"

record model_execution =
  mx_EntryProtocol :: string
  mx_ExitProtocol :: string
  mx_Model :: string
  mx_Stream :: bool
  mx_Body :: bytes
  mx_Headers :: header
  mx_Query :: header
  mx_Alt :: string

definition model_execution_of :: "pinned_model_request \<Rightarrow> string \<Rightarrow> model_execution" where
  "model_execution_of q token =
     \<lparr> mx_EntryProtocol = pm_EntryProtocol q, mx_ExitProtocol = pm_ExitProtocol q, mx_Model = pm_Model q, mx_Stream = False,
       mx_Body = pm_Body q, mx_Headers = pinned_headers token (pm_Headers q), mx_Query = clone_values (pm_Query q), mx_Alt = pm_Alt q \<rparr>"

definition judge_pinned :: "pin_state \<Rightarrow> bool \<Rightarrow> err + 'j \<Rightarrow> ('j \<Rightarrow> err + model_response) \<Rightarrow> err + model_response" where
  "judge_pinned st exists_entry answer decode =
     (if \<not> exists_entry \<or> \<not> ps_Selected st
      then (case answer of Inl e \<Rightarrow> if ps_SchedulerSeen st then Inl e else Inl ErrPinNotSelected | Inr _ \<Rightarrow> Inl ErrPinNotSelected)
      else case answer of
        Inl e \<Rightarrow> Inl e
      | Inr v \<Rightarrow>
          (case decode v of
             Inl e \<Rightarrow> Inl (ErrWrap ''decode host.model.execute result: '' e)
           | Inr resp \<Rightarrow> Inr \<lparr> mr_StatusCode = mr_StatusCode resp, mr_Headers = clone_header (mr_Headers resp), mr_Body = [] @ mr_Body resp \<rparr>))"

text \<open>
  \<^verbatim>\<open>ExecutePinned\<close>. \<open>call\<close> is the host's model execution: its answer, the registry after what its scheduler callbacks and
  the other calls did meanwhile, and the new state \<open>s\<close> of the host.
\<close>

definition execute_pinned_call ::
  "(nat \<Rightarrow> err + bytes) \<Rightarrow> (model_execution \<Rightarrow> pin_registry \<Rightarrow> 's \<Rightarrow> (err + 'j) \<times> pin_registry \<times> 's) \<Rightarrow>
   ('j \<Rightarrow> err + model_response) \<Rightarrow> pinned_model_request \<Rightarrow> pin_registry \<Rightarrow> 's \<Rightarrow> (err + model_response) \<times> pin_registry \<times> 's"
where
  "execute_pinned_call rand call decode q r s =
     (if r = None then (Inl (ErrNew ''auth pin registry is unavailable''), r, s)
      else case register_pin rand r (pm_AuthID q) of
        (r1, Inl e) \<Rightarrow> (Inl e, r1, s)
      | (r1, Inr token) \<Rightarrow>
          (case call (model_execution_of q token) r1 s of
             (answer, r2, s2) \<Rightarrow>
               (case pin_finish r2 token of
                  (r3, st, exists_entry) \<Rightarrow> (judge_pinned st exists_entry answer decode, r3, s2))))"

section \<open>The host of the service\<close>

text \<open>The fields of the SDK's credential entry that \<^verbatim>\<open>authFromHost\<close> reads.\<close>

record host_entry =
  he_ID :: string
  he_AuthIndex :: string
  he_Provider :: string
  he_Status :: string
  he_Disabled :: bool
  he_Unavailable :: bool
  he_RuntimeOnly :: bool
  he_Source :: string
  he_Priority :: int

definition auth_from_host :: "host_entry \<Rightarrow> auth" where
  "auth_from_host item =
     \<lparr> au_ID = he_ID item, au_AuthIndex = he_AuthIndex item, au_Provider = he_Provider item, au_Status = he_Status item,
       au_Disabled = he_Disabled item, au_Unavailable = he_Unavailable item, au_RuntimeOnly = he_RuntimeOnly item,
       au_Source = he_Source item, au_Priority = he_Priority item \<rparr>"

definition abi_list_auths :: "err + 'j \<Rightarrow> ('j \<Rightarrow> err + host_entry list) \<Rightarrow> err + auth list" where
  "abi_list_auths answer decode =
     (case answer of
        Inl e \<Rightarrow> Inl e
      | Inr result \<Rightarrow>
          (case decode result of
             Inl e \<Rightarrow> Inl (ErrWrap ''decode host.auth.list result: '' e)
           | Inr items \<Rightarrow> Inr (map auth_from_host items)))"

definition abi_get_runtime_auth :: "err + 'j \<Rightarrow> ('j \<Rightarrow> err + host_entry) \<Rightarrow> err + auth" where
  "abi_get_runtime_auth answer decode =
     (case answer of
        Inl e \<Rightarrow> Inl e
      | Inr result \<Rightarrow>
          (case decode result of
             Inl e \<Rightarrow> Inl (ErrWrap ''decode host.auth.get_runtime result: '' e)
           | Inr item \<Rightarrow> Inr (auth_from_host item)))"

text \<open>What \<^verbatim>\<open>Log\<close> sends.\<close>

record 'f host_log_request =
  hl_Level :: string
  hl_Message :: string
  hl_Fields :: 'f

definition host_log :: "string \<Rightarrow> string \<Rightarrow> 'f \<Rightarrow> 'f host_log_request" where
  "host_log level message logFields = \<lparr> hl_Level = trim_space level, hl_Message = trim_space message, hl_Fields = logFields \<rparr>"

definition abi_get_auth_file ::
  "os \<Rightarrow> ctx \<Rightarrow> string \<Rightarrow> err + 'j \<Rightarrow> ('j \<Rightarrow> err + auth_get_response) \<Rightarrow> disk \<Rightarrow> (err + auth_file) \<times> disk"
where
  "abi_get_auth_file E c authIndex answer decode d =
     (case answer of
        Inl e \<Rightarrow> (Inl e, d)
      | Inr result \<Rightarrow>
          (case decode result of
             Inl e \<Rightarrow> (Inl (ErrWrap ''decode host.auth.get result: '' e), d)
           | Inr response \<Rightarrow> get_physical_file E c authIndex response d))"

section \<open>What a body asks for\<close>

definition names_indices :: "string \<times> json \<Rightarrow> bool" where
  "names_indices kv \<longleftrightarrow> equal_fold_ascii (unquote (fst kv)) ''auth_indices''"

definition last_indices :: "bytes \<Rightarrow> json option" where
  "last_indices body =
     (case (if trim_space body = [] then None else parse_json body) of
        Some (JObj kvs) \<Rightarrow> (let hits = filter names_indices kvs in if hits = [] then None else Some (snd (last hits)))
      | _ \<Rightarrow> None)"

lemma field_names_differ: "fold_ascii ''dry_run'' \<noteq> fold_ascii ''auth_indices''"
  by code_simp

lemma set_request_field_indices:
  assumes "set_request_field q kv = Some q'"
  shows "mq_AuthIndices q' = (if names_indices kv then Some (snd kv) else mq_AuthIndices q)"
proof (cases "equal_fold_ascii (unquote (fst kv)) ''dry_run''")
  case True
  then have "\<not> names_indices kv" using field_names_differ by (simp add: names_indices_def equal_fold_ascii_def)
  with True assms show ?thesis by (auto simp: set_request_field_def Let_def)
next
  case False
  with assms show ?thesis by (auto simp: set_request_field_def names_indices_def Let_def split: if_splits)
qed

lemma set_request_fields_indices:
  "set_request_fields q kvs = Some q' \<Longrightarrow>
     mq_AuthIndices q' = (let hits = filter names_indices kvs in if hits = [] then mq_AuthIndices q else Some (snd (last hits)))"
proof (induction kvs arbitrary: q)
  case (Cons kv kvs)
  then obtain q1 where q1: "set_request_field q kv = Some q1" "set_request_fields q1 kvs = Some q'" by (auto split: option.splits)
  from Cons.IH [OF q1(2)] set_request_field_indices [OF q1(1)] show ?case by (auto simp: Let_def)
qed simp

lemma decode_strict_indices:
  assumes "decode_strict_json body \<lparr> mq_DryRun = d, mq_AuthIndices = None \<rparr> = Inr q" "trim_space body \<noteq> []"
  shows "mq_AuthIndices q = last_indices body"
  using assms set_request_fields_indices [of "\<lparr> mq_DryRun = d, mq_AuthIndices = None \<rparr>"]
  by (auto simp: decode_strict_json_def request_of_json_def last_indices_def Let_def split: option.splits json.splits if_splits)

lemma normalize_indices_eq:
  "normalize_indices seen xs =
     (if [] \<in> trim_space ` set xs then Inl (ErrNew ''auth_indices must not contain empty values'')
      else Inr (dedup seen (map trim_space xs)))"
  by (induction xs arbitrary: seen) (auto simp: Let_def)

lemma envelope_names:
  "valid_string ''ok''" "valid_string ''result''" "valid_string ''error''" "valid_string ''code''" "valid_string ''message''"
  "html_escape ''ok'' = ''ok''" "html_escape ''result'' = ''result''" "html_escape ''error'' = ''error''"
  "html_escape ''code'' = ''code''" "html_escape ''message'' = ''message''"
  "unquote ''ok'' = ''ok''" "unquote ''result'' = ''result''" "unquote ''error'' = ''error''"
  "unquote ''code'' = ''code''" "unquote ''message'' = ''message''"
  "equal_fold_ascii ''ok'' ''ok''" "\<not> equal_fold_ascii ''result'' ''ok''" "equal_fold_ascii ''result'' ''result''"
  "\<not> equal_fold_ascii ''error'' ''ok''" "\<not> equal_fold_ascii ''error'' ''result''" "equal_fold_ascii ''error'' ''error''"
  "equal_fold_ascii ''code'' ''code''" "\<not> equal_fold_ascii ''message'' ''code''" "equal_fold_ascii ''message'' ''message''"
  by code_simp+

section \<open>Properties\<close>

text \<open>A run request that is accepted names the credentials it means: without \<^verbatim>\<open>auth_indices\<close> in the body it is a run over all of
  them, and with it over the trimmed strings of the last such array, at most 256, none blank, none twice, never an empty
  list that would mean all.\<close>

theorem run_body_options_sound:
  assumes "run_body_options body = Inr options"
  shows "(last_indices body = None \<and> mo_AuthIndices options = []) \<or>
    (\<exists>vs indices. last_indices body = Some (JArr vs) \<and> json_strings vs = Some indices \<and> length indices \<le> 256 \<and>
       mo_AuthIndices options = dedup [] (map trim_space indices) \<and> mo_AuthIndices options \<noteq> [] \<and>
       [] \<notin> set (mo_AuthIndices options) \<and> distinct (mo_AuthIndices options))"
proof -
  let ?zero = "\<lparr> mq_DryRun = False, mq_AuthIndices = None \<rparr>"
  obtain q o1 where q: "(if trim_space body \<noteq> [] then decode_strict_json body ?zero else Inr ?zero) = Inr q"
    and o1: "request_options q = Inr o1" and norm: "normalize_manual_run_options o1 = Inr options"
    using assms by (auto simp: run_body_options_def rbind_Inr_iff Let_def split: if_splits)
  have idx: "mq_AuthIndices q = last_indices body"
    using q decode_strict_indices [of body False q] by (auto simp: last_indices_def split: if_splits)
  have norm': "length (mo_AuthIndices o1) \<le> 256" "[] \<notin> trim_space ` set (mo_AuthIndices o1)"
    "mo_AuthIndices options = dedup [] (map trim_space (mo_AuthIndices o1))"
    using norm by (auto simp: normalize_manual_run_options_def normalize_indices_eq split: if_splits)
  show ?thesis
  proof (cases "last_indices body")
    case None
    with o1 idx have "mo_AuthIndices o1 = []" by (auto simp: request_options_def)
    with None norm'(3) show ?thesis by simp
  next
    case (Some v)
    with o1 idx obtain vs where v: "v = JArr vs" "json_strings vs = Some (mo_AuthIndices o1)" "mo_AuthIndices o1 \<noteq> []"
      by (auto simp: request_options_def split: json.splits option.splits list.splits)
    with Some norm' show ?thesis by (auto simp: set_dedup distinct_dedup dedup_Nil_iff)
  qed
qed

text \<open>C25. What the run route answers: 413 for a body that is too long, 400 for one that is not understood or when no request is
  configured, 503 when the service is stopped or disabled, 409 while a run is active, and else 202 with the ID of the
  manual run that it has started. Every other answer carries an error text and leaves the service as it was.\<close>

theorem management_run_outcome:
  assumes "handle_management (Inr q) (Inr raw) now ctx sv = (Inr resp, sv')"
    "mg_Method q = ''POST''" "mg_Path q = ''/v0/management'' @ runRoute"
  shows "mp_StatusCode resp =
      (if int (length (mg_Body q)) > maxManagementBodyBytes then 413
       else if \<nexists>options. run_body_options (mg_Body q) = Inr options then 400
       else if trim_space (cf_Model (sv_config sv)) = [] \<or> trim_space (cf_Message (sv_config sv)) = [] then 400
       else if sv_stopped sv \<or> \<not> cf_HostEnabled (sv_config sv) then 503
       else if sv_running sv then 409 else 202) \<and>
    (if mp_StatusCode resp = 202
     then \<exists>options report. run_body_options (mg_Body q) = Inr options \<and> random_id (Inr raw) = Inr (rr_RunID report) \<and>
       rr_Trigger report = ''manual'' \<and> rr_OccurrenceID report = [] \<and> rr_DryRun report = mo_DryRun options \<and>
       mp_Body resp = AcceptedBody (rr_RunID report) \<and>
       sv' = sv\<lparr>sv_running := True, sv_active := Some report, sv_activeCancel := Some ctx\<rparr>
     else sv' = sv \<and> (\<exists>text. mp_Body resp = ErrorBody text))"
proof -
  have run: "handle_run (mg_Body q) (Inr raw) now ctx sv = (resp, sv')"
    using assms by (auto simp: handle_management_def split: prod.splits)
  obtain runID where id: "random_id (Inr raw) = Inr runID" by (simp add: random_id_def)
  show ?thesis
  proof (cases "int (length (mg_Body q)) > maxManagementBodyBytes")
    case True
    then show ?thesis using run by (auto simp: handle_run_def json_management_response_def)
  next
    case False
    note short = this
    show ?thesis
    proof (cases "run_body_options (mg_Body q)")
      case (Inl e)
      then show ?thesis using short run by (auto simp: handle_run_def json_management_response_def)
    next
      case (Inr options)
      let ?report = "new_report runID ''manual'' [] (mo_DryRun options) now"
      have clone: "clone_run_report (Some ?report) = Some ?report" by (simp add: clone_run_report_def new_report_def)
      have ex: "?report = report \<Longrightarrow> rr_RunID report = runID \<and> rr_Trigger report = ''manual'' \<and> rr_OccurrenceID report = [] \<and>
        rr_DryRun report = mo_DryRun options" for report by (auto simp: new_report_def)
      show ?thesis using short run id Inr clone ex [OF refl]
        by (auto simp: handle_run_def json_management_response_def start_manual_def start_run_def start_run_check_def
            start_run_locked_def start_status_code_def config_clone_def Let_def intro!: exI [of _ ?report] split: if_splits)
    qed
  qed
qed

text \<open>C39. An envelope as \<^verbatim>\<open>okEnvelope\<close> and \<^verbatim>\<open>errorEnvelope\<close> write it is read back by \<^verbatim>\<open>call\<close>: a result comes out as the same JSON
  value (compacted, as \<^verbatim>\<open>Marshal\<close> does), an error as an error with the code and the message, whatever code the C function
  returned.\<close>

theorem envelope_roundtrip:
  assumes "wf_json v" "int (json_depth v) < maxNestingDepth" "valid_utf8 code" "valid_utf8 message"
  shows "host_answer meth 0 (ok_envelope v) = Inr (Some (compact_json v)) \<and>
    host_answer meth callCode (error_envelope code message) = Inl (ErrNew (code @ '': '' @ message))"
proof -
  let ?ok = "JObj [(''ok'', JBool True), (''result'', v)]"
  let ?bad = "JObj [(''ok'', JBool False), (''error'', JObj [(''code'', JStr (encode_text code)), (''message'', JStr (encode_text message))])]"
  have ok: "parse_json (ok_envelope v) = Some (JObj [(''ok'', JBool True), (''result'', compact_json v)])"
    using parse_print_json [of ?ok] assms(1,2) by (simp add: ok_envelope_def envelope_names)
  have bad: "parse_json (error_envelope code message) = Some ?bad"
    using parse_print_json [of ?bad] by (simp add: error_envelope_def envelope_names encode_text_valid maxNestingDepth_def)
  have "parse_json [] = None" by code_simp
  with ok bad have "ok_envelope v \<noteq> []" "error_envelope code message \<noteq> []" by force+
  with ok bad assms(3,4) show ?thesis
    by (simp add: host_answer_def decode_envelope_def set_envelope_field_def set_error_field_def Let_def envelope_names
        unquote_encode_valid zero_envelope_def json_string_def json_bool_def)
qed

text \<open>C13. Whatever the host, its callbacks and other model calls do to the registry while a pinned call is out, its response is
  handed to the run only if a scheduler callback selected the call's own token, and then it is the host's response
  unchanged. The request carried this token, and it alone, in the routing header, and the token is gone afterwards.\<close>

theorem pinned_response_selected:
  assumes "execute_pinned_call rand call decode q (Some pins) s = (Inr resp, r', s')"
    "register_pin rand (Some pins) (pm_AuthID q) = (Some pins', Inr token)" "token \<noteq> []"
    "call (model_execution_of q token) (Some pins') s = (answer, Some (foldl pin_apply pins' acts), s')"
    "ActClose token \<notin> set acts" "ActSelect [] \<notin> set acts" "ActClose [] \<notin> set acts"
  shows "ActSelect token \<in> set acts \<and> (\<exists>raw. answer = Inr raw \<and> decode raw = Inr resp) \<and>
    (\<exists>r. r' = Some r \<and> r token = None) \<and>
    map_of (mx_Headers (model_execution_of q token)) (canonical_header_key pinHeaderName) = Some [token]"
proof -
  note reg = register_pin_effect [OF assms(2)]
  then have "pins' token = Some (fresh_pin (trim_space (pm_AuthID q)))" by simp
  from pins.own_entry_run [where r = pins' and t = token, OF this assms(5-7)] obtain st where
    st: "foldl pin_apply pins' acts token = Some st" "ps_Selected st \<longleftrightarrow> ActSelect token \<in> set acts"
    by (auto simp: fresh_pin_def)
  have judged: "judge_pinned st True answer decode = Inr resp" "\<exists>r. r' = Some r \<and> r token = None"
    using assms(1-4) st by (auto simp: execute_pinned_call_def pin_finish_def)
  have clone: "clone_header h = h" for h by (induction h) (auto simp: clone_header_def)
  from judged st show ?thesis
    by (auto simp: judge_pinned_def clone model_execution_of_def pinned_headers_def update_conv split: if_splits sum.splits)
qed

text \<open>C36. Registering or reconfiguring always leaves a service that is not stopped, a fresh one after a shutdown: with the parsed
  configuration in force, or, when it does not parse, with the error reported to the host and shown in the status and
  no configured request, so that no run can start.\<close>

theorem configuration_takes_effect:
  assumes "apply_configuration parsed sv = (outcome, e, sv')"
  shows "\<not> sv_stopped sv' \<and> (sv_stopped sv \<longrightarrow> \<not> sv_running sv' \<and> sv_occurrences sv' = {}) \<and>
    (case parsed of
       Inl x \<Rightarrow> e = Some x \<and> sv_configError sv' = sanitize_error (Some x) \<and>
         fst (start_manual options rand now ctx sv') = Inl ErrNotConfigured
     | Inr cfg \<Rightarrow> e = None \<and> sv_configError sv' = [] \<and> config_equivalent (sv_config sv') cfg)"
proof -
  let ?sv0 = "if sv_stopped sv then new_service else sv"
  have blank: "trim_space [] = []" by code_simp
  have running: "\<not> sv_stopped ?sv0" by (simp add: new_service_def)
  have sv0: "apply_configuration parsed sv = (case apply_config_locked parsed ?sv0 of
           (ApplyStopped, sv1) \<Rightarrow> (ApplyStopped, Some ErrStopped, sv1)
         | (ApplyUnchanged, sv1) \<Rightarrow> (ApplyUnchanged, None, sv1)
         | (ApplyInstalled generation cancels, sv1) \<Rightarrow>
             (ApplyInstalled generation cancels, (case parsed of Inl e \<Rightarrow> Some e | Inr _ \<Rightarrow> None), sv1))"
    by (simp add: apply_configuration_def status_of_def Let_def)
  show ?thesis
  proof (cases parsed)
    case (Inl x)
    then show ?thesis using assms running blank unfolding sv0
      by (auto simp: apply_config_locked_def Let_def start_manual_def start_run_def start_run_check_def config_clone_def
          zero_config_def new_service_def split: if_splits)
  next
    case (Inr cfg)
    have "config_equivalent (config_clone cfg) cfg"
      using config_equivalent_location [of cfg "cf_Location cfg"] by (simp add: config_clone_def)
    with Inr show ?thesis using assms running unfolding sv0
      by (auto simp: apply_config_locked_def Let_def new_service_def split: if_splits)
  qed
qed

section \<open>Examples\<close>

definition sample_body :: bytes where
  "sample_body = print_json (JObj [(''auth_indices'', JArr [JStr '' a '', JStr ''b'', JStr ''a''])])"

lemma run_body_options_sound_witness:
  "last_indices sample_body = Some (JArr [JStr '' a '', JStr ''b'', JStr ''a'']) \<and>
     run_body_options sample_body = Inr \<lparr> mo_DryRun = False, mo_AuthIndices = [''a'', ''b''] \<rparr>"
proof -
  have body: "run_body_options sample_body = Inr \<lparr> mo_DryRun = False, mo_AuthIndices = [''a'', ''b''] \<rparr>" by code_simp
  have ts: "trim_space '' a '' = ''a''" "trim_space ''b'' = ''b''" "trim_space ''a'' = ''a''" by code_simp+
  have "last_indices sample_body = Some (JArr [JStr '' a '', JStr ''b'', JStr ''a''])" by code_simp
  with run_body_options_sound [OF body] body show ?thesis by simp
qed

definition ready_service :: service where
  "ready_service = new_service\<lparr>sv_config := zero_config\<lparr>cf_HostEnabled := True, cf_Model := ''m'', cf_Message := ''hi''\<rparr>\<rparr>"

lemma management_run_outcome_witness:
  "\<exists>resp sv'. handle_management (Inr \<lparr> mg_Method = ''POST'', mg_Path = ''/v0/management'' @ runRoute, mg_Body = [] \<rparr>)
       (Inr ''seed'') 0 7 ready_service = (Inr resp, sv') \<and> mp_StatusCode resp = 202 \<and> sv_activeCancel sv' = Some 7"
proof -
  let ?q = "\<lparr> mg_Method = ''POST'', mg_Path = ''/v0/management'' @ runRoute, mg_Body = [] \<rparr> :: management_request"
  obtain r sv' where r: "handle_management (Inr ?q) (Inr ''seed'') 0 7 ready_service = (r, sv')" by force
  then obtain resp where resp: "r = Inr resp" by (cases r) (auto simp: handle_management_def split: prod.splits if_splits)
  have "run_body_options [] = Inr \<lparr> mo_DryRun = False, mo_AuthIndices = [] \<rparr>" "trim_space ''m'' = ''m''" "trim_space ''hi'' = ''hi''"
    by code_simp+
  then have "mp_StatusCode resp = 202"
    using conjunct1 [OF management_run_outcome [OF r [unfolded resp]]]
    by (simp add: ready_service_def new_service_def maxManagementBodyBytes_def)
  with conjunct2 [OF management_run_outcome [OF r [unfolded resp]]] r resp show ?thesis by auto
qed

lemma envelope_roundtrip_witness:
  "host_answer ''m'' 0 (ok_envelope (JArr [JNull])) = Inr (Some (JArr [JNull])) \<and>
     host_answer ''m'' 1 (error_envelope ''busy'' ''later'') = Inl (ErrNew ''busy: later'')"
proof -
  have "valid_utf8 ''busy''" "valid_utf8 ''later''" by code_simp+
  with envelope_roundtrip [of "JArr [JNull]" "''busy''" "''later''" "''m''" 1] show ?thesis by (simp add: maxNestingDepth_def)
qed

definition sample_pinned :: pinned_model_request where
  "sample_pinned = \<lparr> pm_AuthID = ''auth'', pm_EntryProtocol = ''openai'', pm_ExitProtocol = ''openai'', pm_Model = ''m'', pm_Body = [],
     pm_Headers = [], pm_Query = [], pm_Alt = [] \<rparr>"

lemma pinned_response_selected_witness:
  "\<exists>r. execute_pinned_call (\<lambda>_. Inr [CHR 0x00]) (\<lambda>_ r s. (Inr (), map_option (\<lambda>p. foldl pin_apply p [ActSelect ''00'']) r, s))
       (\<lambda>_. Inr \<lparr> mr_StatusCode = 200, mr_Headers = [], mr_Body = [] \<rparr>) sample_pinned (Some (\<lambda>_. None)) () =
     (Inr \<lparr> mr_StatusCode = 200, mr_Headers = [], mr_Body = [] \<rparr>, Some r, ()) \<and> r ''00'' = None"
proof -
  let ?rand = "\<lambda>_. Inr [CHR 0x00]" and ?resp = "\<lparr> mr_StatusCode = 200, mr_Headers = [], mr_Body = [] \<rparr>"
  let ?call = "\<lambda>(_ :: model_execution) r (s :: unit). (Inr (), map_option (\<lambda>p. foldl pin_apply p [ActSelect ''00'']) r, s)"
  have reg: "register_pin ?rand (Some (\<lambda>_. None)) (pm_AuthID sample_pinned) = (Some [''00'' \<mapsto> fresh_pin ''auth''], Inr ''00'')"
    using sample_register by (simp add: sample_pinned_def)
  obtain r' where run: "execute_pinned_call ?rand ?call (\<lambda>_. Inr ?resp) sample_pinned (Some (\<lambda>_. None)) () = (Inr ?resp, r', ())"
    using reg by (simp add: execute_pinned_call_def pin_apply_def mark_selected_apply mark_selected_def pin_finish_def fresh_pin_def
        judge_pinned_def clone_header_def)
  from pinned_response_selected [OF run reg, of "Inr ()" "[ActSelect ''00'']"] run show ?thesis by auto
qed

lemma configuration_takes_effect_witness:
  "\<not> sv_stopped (snd (snd (apply_configuration (Inr zero_config) (snd (shutdown_locked new_service)))))"
proof -
  obtain outcome e sv' where "apply_configuration (Inr zero_config) (snd (shutdown_locked new_service)) = (outcome, e, sv')"
    by (metis prod.exhaust)
  with configuration_takes_effect [OF this] show ?thesis by simp
qed

end
