(* ===== verification/Run_Moves.thy ===== *)
theory Run_Moves imports Startup_Recovery Refresh_Run begin

text \<open>
  The moves of the program on its world. Everything a run and the recovery at the start do to their environment is a sequence of
  a few kinds of calls, and a credential is saved only in one way: directly after it was read, as the document an
  override or a restoration makes of the one just read. Whoever knows what each call does to its own state (the theory
  \<open>Abi_Host\<close>) gets from this, by one induction, what whole runs do to it.
\<close>

section \<open>Moves\<close>

definition original_wf :: "marker \<Rightarrow> bool" where
  "original_wf m \<longleftrightarrow> (\<forall>v. mk_OriginalPriority m = Some v \<longrightarrow> wf_json v)"

definition rewritten :: "bytes \<Rightarrow> bytes \<Rightarrow> bool" where
  "rewritten raw j \<longleftrightarrow>
     (\<exists>i runID p m. build_priority_override_json raw i runID p = Inr (j, m)) \<or>
     (\<exists>m p x. original_wf m \<and> restore_priority_override_json raw (Some m) = Inr (j, p, True, x))"

inductive moves :: "'h host \<Rightarrow> 'h world \<Rightarrow> 'h world \<Rightarrow> bool" for H where
  stay: "moves H w w"
| idle: "moves H w w1 \<Longrightarrow> w_host w2 = w_host w1 \<Longrightarrow> moves H w w2"
| lists: "moves H w w1 \<Longrightarrow> list_auths H c w1 = (rl, w2) \<Longrightarrow> moves H w w2"
| inspects: "moves H w w1 \<Longrightarrow> get_runtime_auth H c i w1 = (rr, w2) \<Longrightarrow> moves H w w2"
| reads: "moves H w w1 \<Longrightarrow> get_auth_file H c i w1 = (rg, w2) \<Longrightarrow> moves H w w2"
| executes: "moves H w w1 \<Longrightarrow> execute_pinned H c q w1 = (rx, w2) \<Longrightarrow> moves H w w2"
| logs: "moves H w w1 \<Longrightarrow> moves H w (write_log H e w1)"
| replaces: "moves H w w1 \<Longrightarrow> get_auth_file H c i w1 = (Inr f, w2) \<Longrightarrow> rewritten (af_JSON f) j \<Longrightarrow>
    save_auth_file H c' (f\<lparr>af_JSON := j\<rparr>) w2 = (rs, w3) \<Longrightarrow> moves H w w3"

lemma moves_trans: "moves H w1 w2 \<Longrightarrow> moves H w w1 \<Longrightarrow> moves H w w2"
  by (induction rule: moves.induct) (auto intro: moves.intros)

lemmas call_moves = lists [OF stay] inspects [OF stay] reads [OF stay] executes [OF stay] logs [OF stay] idle [OF stay]

lemma sleep_moves: "sleep_ctx c d w = (b, w') \<Longrightarrow> moves H w w'"
  using sleep_trace [of c d w b w'] by (intro idle [OF stay]) simp

section \<open>Polling\<close>

lemma get_until_moves:
  assumes "get_auth_file_until H c i w = Some (r, w')"
  shows "moves H w w' \<and> (\<forall>f. r = Inr f \<longrightarrow> (\<exists>w0. moves H w w0 \<and> get_auth_file H c i w0 = (Inr f, w')))"
proof -
  let ?P = "\<lambda>w y. moves H w (snd y) \<and> (\<forall>f. fst y = Inr f \<longrightarrow> (\<exists>w0. moves H w w0 \<and> get_auth_file H c i w0 = (Inr f, snd y)))"
  have "?P w (r, w')"
  proof (rule get_until_induct [OF assms, where P = ?P])
    fix w r w1
    assume "get_auth_file H c i w = (r, w1)" "\<exists>f. r = Inr f"
    then show "?P w (r, w1)" using call_moves(3) stay by fastforce
  next
    fix w r w1 w2
    assume a: "get_auth_file H c i w = (r, w1)" "\<not> (\<exists>f. r = Inr f)" "wait_priority_poll c w1 = (False, w2)"
    from moves_trans [OF sleep_moves [OF a(3) [unfolded wait_priority_poll_def]] call_moves(3) [OF a(1)]] a(2)
    show "?P w (r, w2)" by auto
  next
    fix w r w1 w2 y
    assume a: "get_auth_file H c i w = (r, w1)" "\<not> (\<exists>f. r = Inr f)" "wait_priority_poll c w1 = (True, w2)" "?P w2 y"
    have m: "moves H w w2"
      by (rule moves_trans [OF sleep_moves [OF a(3) [unfolded wait_priority_poll_def]] call_moves(3) [OF a(1)]])
    show "?P w y" using a(4) moves_trans [OF _ m] by blast
  qed
  then show ?thesis by simp
qed

lemma wait_moves:
  assumes "wait_for_runtime_priority H c timeout i authID p w = Some (r, w')"
  shows "moves H w w'"
proof -
  obtain c' where poll: "poll_runtime_priority H c' i authID p w = Some (r, w')"
    using assms by (auto simp: wait_for_runtime_priority_def Let_def)
  have "moves H w (snd (r, w'))"
  proof (rule poll_runtime_induct [OF poll, where P = "\<lambda>w y. moves H w (snd y)"])
    fix w r w1
    assume "get_runtime_auth H c' i w = (r, w1)"
    then show "moves H w (snd (r, w1))" using call_moves(2) by simp
  next
    fix w r w1 w2
    assume a: "get_runtime_auth H c' i w = (r, w1)" "wait_priority_poll c' w1 = (False, w2)"
    from moves_trans [OF sleep_moves [OF a(2) [unfolded wait_priority_poll_def]] call_moves(2) [OF a(1)]]
    show "moves H w (snd (Inl (ErrNew (''CPA runtime did not publish priority '' @ itoa p @ '' before timeout'')), w2))" by simp
  next
    fix w r w1 w2 and y :: "(err + auth) \<times> 'a world"
    assume a: "get_runtime_auth H c' i w = (r, w1)" "wait_priority_poll c' w1 = (True, w2)" "moves H w2 (snd y)"
    show "moves H w (snd y)"
      by (rule moves_trans [OF a(3) moves_trans [OF sleep_moves [OF a(2) [unfolded wait_priority_poll_def]] call_moves(2) [OF a(1)]]])
  qed
  then show ?thesis by simp
qed

section \<open>Overrides\<close>

lemma rewrite_until:
  assumes "get_auth_file_until H c i w = Some (Inr f, w1)" "rewritten (af_JSON f) j" "save_auth_file H c' (f\<lparr>af_JSON := j\<rparr>) w1 = (r, w2)"
  shows "moves H w w2"
  using get_until_moves [OF assms(1)] replaces [OF _ _ assms(2,3)] by blast

lemma restore_attempts_moves:
  "restore_attempts H c timeout i authID (Some m) n w = Some (res, w') \<Longrightarrow> original_wf m \<Longrightarrow> moves H w w'"
proof (induction n arbitrary: w)
  case (Suc n)
  have re: "restore_priority_override_json (af_JSON f) (Some m) = Inr (j, p, True, x) \<Longrightarrow> rewritten (af_JSON f) j" for f j p x
    using Suc.prems(2) by (auto simp: rewritten_def)
  from Suc.prems(1) show ?case
  proof (cases rule: restore_attempts_cases)
    case unread
    then show ?thesis using get_until_moves by blast
  next
    case unchanged
    show ?thesis by (rule moves_trans [OF wait_moves [OF unchanged(3)] conjunct1 [OF get_until_moves [OF unchanged(1)]]])
  next
    case retry
    show ?thesis
      by (rule moves_trans [OF Suc.IH [OF retry(4) Suc.prems(2)] rewrite_until [OF retry(1) re [OF retry(2)] retry(3)]])
  next
    case unsaved
    show ?thesis by (rule rewrite_until [OF unsaved(1) re [OF unsaved(2)] unsaved(3)])
  next
    case saved
    show ?thesis by (rule moves_trans [OF wait_moves [OF saved(4)] rewrite_until [OF saved(1) re [OF saved(2)] saved(3)]])
  qed
qed (auto intro: stay)

lemma built_original: "build_priority_override_json raw i runID p = Inr (j, m) \<Longrightarrow> original_wf m"
proof -
  assume b: "build_priority_override_json raw i runID p = Inr (j, m)"
  then obtain fs where fs: "decode_auth_file_object raw = Inr fs" by (auto simp: build_priority_override_json_def rbind_Inr_iff)
  show ?thesis using build_shape(3) [OF b fs] decode_auth_file_ok [OF fs] map_of_SomeD
    by (fastforce simp: original_wf_def fields_ok_def)
qed

lemma begin_attempts_moves:
  "begin_attempts H c cfg runID a p n w = Some ((lease, e), w') \<Longrightarrow> moves H w w' \<and> (\<forall>l. lease = Some l \<longrightarrow> original_wf (pl_Marker l))"
proof (induction n arbitrary: w)
  case (Suc n)
  have re: "build_priority_override_json (af_JSON f) (au_AuthIndex a) runID p = Inr (j, m) \<Longrightarrow> rewritten (af_JSON f) j" for f j m
    by (auto simp: rewritten_def)
  from Suc.prems show ?case
  proof (cases rule: begin_attempts_cases)
    case (unread g)
    then show ?thesis using call_moves(3) by blast
  next
    case (retry af j x w1 w2)
    have "moves H w w2" by (rule replaces [OF stay retry(1) _ retry(2)]) (use retry(4) re in blast)
    then show ?thesis using Suc.IH [OF retry(3)] moves_trans by blast
  next
    case (unsaved af j x w1)
    have "moves H w w'" by (rule replaces [OF stay unsaved(1) _ unsaved(2)]) (use unsaved(5) re in blast)
    then show ?thesis using unsaved(3) by simp
  next
    case (saved af j m v w1 w2 w3)
    have "moves H w w3" by (rule moves_trans [OF wait_moves [OF saved(4)] replaces [OF stay saved(1) re [OF saved(2)] saved(3)]])
    then have "moves H w w'" using saved(6) logs by blast
    then show ?thesis using saved(5) built_original [OF saved(2)] by simp
  qed
qed (auto intro: stay)

lemma begin_override_moves:
  assumes "begin_priority_override H c cfg runID a p w = Some ((lease, e), w')"
  shows "moves H w w' \<and> (\<forall>l. lease = Some l \<longrightarrow> original_wf (pl_Marker l))"
proof (cases "begin_priority_override H c cfg runID a p w = begin_attempts H c cfg runID a p 3 w")
  case True
  from begin_attempts_moves [OF assms [unfolded True]] show ?thesis .
next
  case False
  with assms show ?thesis by (auto simp: begin_priority_override_def stay split: if_splits)
qed

lemma restore_override_moves:
  assumes "restore_priority_override H cfg runID lo w = Some (e, w')" "\<forall>l. lo = Some l \<longrightarrow> original_wf (pl_Marker l)"
  shows "moves H w w'"
proof (cases lo)
  case None
  with assms show ?thesis by (simp add: restore_priority_override_def stay)
next
  case (Some l)
  let ?t = "if cf_PrioritySyncTimeout cfg \<le> 0 then defaultPrioritySyncTimeout else cf_PrioritySyncTimeout cfg"
  from assms Some obtain r w1 where r: "restore_attempts H (with_timeout background (w_now w) ?t) ?t (pl_AuthIndex l) (pl_AuthID l)
        (Some (pl_Marker l)) 3 w = Some (r, w1)"
      "(e, w') = (case r of Inl x \<Rightarrow> (Some x, w1) | Inr (x, _) \<Rightarrow> (None, write_log H (restored_log runID l x) w1))"
    by (auto simp: restore_priority_override_def restore_priority_file_def Let_def split: option.splits sum.splits)
  have "moves H w w1" using restore_attempts_moves [OF r(1)] assms(2) Some by blast
  then show ?thesis using r(2) logs by (cases r) (auto split: prod.splits)
qed

text \<open>The marker a recovery acts on was read from a document.\<close>

lemma read_original: "priority_override_marker_from_json raw = Inr (Some m) \<Longrightarrow> original_wf m"
proof -
  assume r: "priority_override_marker_from_json raw = Inr (Some m)"
  then obtain fs rm where fs: "decode_auth_file_object raw = Inr fs" "map_of fs priorityOverrideMarkerKey = Some rm"
    "decode_priority_override_marker rm = Inr m"
    by (auto simp: priority_override_marker_from_json_def rbind_Inr_iff split: option.splits)
  have "wf_json rm" using decode_auth_file_ok [OF fs(1)] map_of_SomeD [OF fs(2)] by (fastforce simp: fields_ok_def)
  then show ?thesis using decoded_original [OF fs(3)] by (auto simp: original_wf_def)
qed

lemma recover_loop_moves: "recover_loop H c cfg changed seen errs auths w = Some (r, w') \<Longrightarrow> moves H w w'"
proof (induction auths arbitrary: changed seen errs w)
  case (Cons a auths)
  obtain g w1 where g: "get_auth_file H c (au_AuthIndex a) w = (g, w1)" by force
  note step = moves_trans [OF Cons.IH call_moves(3) [OF g]]
  show ?case
  proof (cases "ctx_err c (w_now w) \<noteq> None \<or> au_RuntimeOnly a \<or> \<not> equal_fold_ascii (trim_space (au_Source a)) ''file'' \<or> trim_space (au_AuthIndex a) = []")
    case True
    then show ?thesis using Cons.prems Cons.IH stay by (auto split: option.splits if_splits)
  next
    case False
    note run = Cons.prems [unfolded recover_loop.simps g prod.case]
    show ?thesis
    proof (cases "\<exists>af m. g = Inr af \<and> priority_override_marker_from_json (af_JSON af) = Inr (Some m) \<and>
        (priority_recovery_path_key (af_Path af) = [] \<or> priority_recovery_path_key (af_Path af) \<notin> set seen)")
      case no: False
      then show ?thesis using run False step by (cases g) (auto simp: Let_def split: option.splits if_splits sum.splits)
    next
      case yes: True
      then obtain af m where af: "g = Inr af" "priority_override_marker_from_json (af_JSON af) = Inr (Some m)"
        "priority_recovery_path_key (af_Path af) = [] \<or> priority_recovery_path_key (af_Path af) \<notin> set seen" by blast
      from run False af obtain v w2 where v: "restore_priority_file H c (cf_PrioritySyncTimeout cfg) (au_AuthIndex a) (au_ID a) (Some m) w1 = Some (v, w2)"
        by (auto simp: Let_def split: option.splits if_splits sum.splits)
      note m2 = moves_trans [OF restore_attempts_moves [OF v [unfolded restore_priority_file_def] read_original [OF af(2)]] call_moves(3) [OF g]]
      obtain ch se er w3 where "recover_loop H c cfg ch se er auths w3 = Some (r, w')" "w3 = w2 \<or> (\<exists>e. w3 = write_log H e w2)"
      proof (cases v)
        case (Inl e)
        assume that: "\<And>ch se er w3. recover_loop H c cfg ch se er auths w3 = Some (r, w') \<Longrightarrow> w3 = w2 \<or> (\<exists>e. w3 = write_log H e w2) \<Longrightarrow> thesis"
        from run False af v Inl have "\<exists>se er. recover_loop H c cfg changed se er auths w2 = Some (r, w')"
          by (auto simp: Let_def split: option.splits if_splits)
        then show thesis using that by blast
      next
        case (Inr xs)
        assume that: "\<And>ch se er w3. recover_loop H c cfg ch se er auths w3 = Some (r, w') \<Longrightarrow> w3 = w2 \<or> (\<exists>e. w3 = write_log H e w2) \<Longrightarrow> thesis"
        obtain x s where xs: "xs = (x, s)" by force
        have "\<exists>ch se er. recover_loop H c cfg ch se er auths (write_log H (recovered_log m a x) w2) = Some (r, w')"
          using run False af v Inr xs by (auto simp: Let_def split: option.splits if_splits)
        then show thesis using that by blast
      qed
      then show ?thesis using moves_trans [OF Cons.IH] m2 logs by blast
    qed
  qed
qed (auto intro: stay)

lemma recover_moves: "recover_stale_priority_overrides H c cfg auths w = Some (r, w') \<Longrightarrow> moves H w w'"
  using recover_loop_moves by (fastforce simp: recover_stale_priority_overrides_def split: option.splits)

section \<open>Runs\<close>

lemma publish_moves: "moves H w (publish_report report w)"
  by (rule idle [OF stay]) (simp add: publish_report_def)

lemma note_log_moves: "moves H w (write_log H e (note_event ev w))"
  by (rule logs [OF idle [OF stay]]) simp

lemma finish_moves: "finish_run H report w = (rep, w') \<Longrightarrow> moves H w w'"
  by (auto simp: finish_run_def Let_def note_log_moves)

lemma record_moves: "record_result H cfg report result w = (rep, w') \<Longrightarrow> moves H w w'"
  by (auto simp: record_result_def Let_def intro!: logs publish_moves)

lemma next_moves: "next_target c cfg index ntargets (report, w) = (r, w') \<Longrightarrow> moves H w w'"
proof -
  assume n: "next_target c cfg index ntargets (report, w) = (r, w')"
  obtain b w1 where w1: "wait_between_auths c (cf_DelayBetweenAuths cfg) index ntargets w = (b, w1)" by force
  have "moves H w w1" using w1 sleep_moves stay by (auto simp: wait_between_auths_def split: if_splits)
  with n w1 show ?thesis by (auto simp: next_target_def split: bool.splits)
qed

lemma settle_moves: "settle_target H c cfg index ntargets fatal rr w = (r, w') \<Longrightarrow> moves H w w'"
proof -
  assume s: "settle_target H c cfg index ntargets fatal rr w = (r, w')"
  obtain rep w1 where r: "record_result H cfg (fst rr) (snd rr) w = (rep, w1)" by force
  show ?thesis
  proof (cases fatal)
    case True
    with s r record_moves [OF r] show ?thesis by (simp add: settle_target_def)
  next
    case False
    with s r have "next_target c cfg index ntargets (rep, w1) = (r, w')" by (simp add: settle_target_def)
    from moves_trans [OF next_moves [OF this] record_moves [OF r]] show ?thesis .
  qed
qed

lemma attempt_target_moves:
  assumes "attempt_target H c cfg body highest found index ntargets a report w = Some ((stop, rep), w')"
  shows "moves H w w'"
  using assms
proof (cases rule: attempt_target_cases)
  case (unapplied lease e w1 re w2)
  note b = begin_override_moves [OF unapplied(1)]
  show ?thesis
    by (rule moves_trans [OF settle_moves [OF unapplied(3)] moves_trans [OF restore_override_moves [OF unapplied(2) conjunct2 [OF b]] conjunct1 [OF b]]])
next
  case (executed lease w1 response w2 re w3)
  note b = begin_override_moves [OF executed(1)]
  show ?thesis
    by (rule moves_trans [OF settle_moves [OF executed(4)] moves_trans [OF restore_override_moves [OF executed(3) conjunct2 [OF b]]
        moves_trans [OF call_moves(4) [OF executed(2)] conjunct1 [OF b]]]])
qed

lemma run_target_moves:
  assumes "run_target H c cfg body highest found index ntargets listed report w = Some ((stop, rep), w')"
  shows "moves H w w'"
proof -
  obtain g w1 where g: "get_runtime_auth H c (au_AuthIndex listed) w = (g, w1)" by force
  have "(\<exists>a. attempt_target H c cfg body highest found index ntargets a report w1 = Some ((stop, rep), w')) \<or>
      (\<exists>report1 result. next_target c cfg index ntargets (record_result H cfg report1 result w1) = ((stop, rep), w'))"
    using assms g by (auto simp: run_target_def Let_def split: sum.splits if_splits prod.splits bool.splits)
  moreover have "moves H w1 w'" if "next_target c cfg index ntargets (record_result H cfg report1 result w1) = ((stop, rep), w')" for report1 result
  proof -
    obtain rp w2 where r: "record_result H cfg report1 result w1 = (rp, w2)" by force
    show ?thesis by (rule moves_trans [OF next_moves [OF that [unfolded r]] record_moves [OF r]])
  qed
  ultimately show ?thesis using attempt_target_moves moves_trans [OF _ call_moves(2) [OF g]] by blast
qed

lemma run_targets_moves:
  "run_targets H c cfg body highest found index ntargets targets report w = Some (rep, w') \<Longrightarrow> moves H w w'"
proof (induction targets arbitrary: index report w)
  case (Cons listed targets)
  show ?case
  proof (cases "ctx_err c (w_now w) \<noteq> None")
    case True
    with Cons.prems show ?thesis by (simp add: stay)
  next
    case False
    with Cons.prems obtain stop report1 w1 where t: "run_target H c cfg body highest found index ntargets listed report w = Some ((stop, report1), w1)"
      by (auto split: option.splits)
    show ?thesis
    proof (cases stop)
      case True
      with Cons.prems False t run_target_moves [OF t] show ?thesis by simp
    next
      case go: False
      with Cons.prems False t have "run_targets H c cfg body highest found (index + 1) ntargets targets report1 w1 = Some (rep, w')" by simp
      from moves_trans [OF Cons.IH [OF this] run_target_moves [OF t]] show ?thesis .
    qed
  qed
qed (simp add: stay)

lemma run_listed_moves:
  assumes "run_listed H c cfg options auths report w = Some (rep, w')"
  shows "moves H w w'"
  using assms
proof (cases rule: run_listed_cases)
  case duplicates
  show ?thesis by (rule moves_trans [OF finish_moves [OF duplicates(2)] publish_moves])
next
  case dry
  show ?thesis by (rule moves_trans [OF finish_moves [OF dry(3)] publish_moves])
next
  case executed
  show ?thesis by (rule moves_trans [OF finish_moves [OF executed(5)] moves_trans [OF run_targets_moves [OF executed(4)] publish_moves]])
qed

lemma abort_moves: "abort_run H c report message w = (rep, w') \<Longrightarrow> moves H w w'"
  unfolding abort_run_def by (rule finish_moves)

text \<open>A run is a sequence of moves.\<close>

lemma execute_run_moves:
  assumes "execute_run H lockWait c cfg options report w = Some (rep, w')"
  shows "moves H w w'"
proof -
  define w0 where "w0 = (write_log H (started_log cfg report) w)\<lparr>w_now := w_now (write_log H (started_log cfg report) w) + int lockWait\<rparr>"
  have m0: "moves H w w0" unfolding w0_def by (rule idle [OF logs [OF stay]]) simp
  obtain l w1 where l: "list_auths H c w0 = (l, w1)" by force
  note m1 = moves_trans [OF call_moves(1) [OF l] m0]
  note run = assms [unfolded execute_run_def Let_def, folded w0_def, unfolded l prod.case]
  show ?thesis
  proof (cases l)
    case (Inl e)
    with run have "abort_run H c report ''host auth listing failed'' w1 = (rep, w')" by simp
    from moves_trans [OF abort_moves [OF this] m1] show ?thesis .
  next
    case (Inr auths)
    from run Inr obtain ch es w2 where r: "recover_stale_priority_overrides H c cfg auths w1 = Some ((ch, es), w2)"
      by (auto split: option.splits)
    note m2 = moves_trans [OF recover_moves [OF r] m1]
    obtain l2 w3 where l2: "list_auths H c w2 = (l2, w3)" by force
    note m3 = moves_trans [OF call_moves(1) [OF l2] m2]
    have "(\<exists>msg. abort_run H c report msg w2 = (rep, w')) \<or> (\<exists>as. run_listed H c cfg options as report w2 = Some (rep, w')) \<or>
        (\<exists>msg. abort_run H c report msg w3 = (rep, w')) \<or> (\<exists>as. run_listed H c cfg options as report w3 = Some (rep, w'))"
      using run Inr r l2 by (cases es; cases l2; cases ch) (auto split: option.splits)
    then show ?thesis
      by (elim disjE exE) ((rule moves_trans [OF abort_moves m2] moves_trans [OF run_listed_moves m2] moves_trans [OF abort_moves m3]
          moves_trans [OF run_listed_moves m3], assumption)+)
  qed
qed

section \<open>The recovery at the start\<close>

lemma lock_host: "lock_priority free c w = Some (b, w') \<Longrightarrow> w_host w' = w_host w"
proof -
  assume l: "lock_priority free c w = Some (b, w')"
  have "w_host (snd (b, w')) = w_host w"
  proof (rule lock_priority.raw_induct [OF _ l, of "\<lambda>free c w y. w_host (snd y) = w_host w"])
    fix f free c w y
    assume ih: "\<And>free c w y. f free c w = Some y \<Longrightarrow> w_host (snd y) = w_host w"
      and body: "(if free (w_now w) then Some (True, w) else case wait_priority_poll c w of
          (again, w1) \<Rightarrow> if again then f free c w1 else Some (False, w1)) = Some y"
    obtain again w1 where s: "wait_priority_poll c w = (again, w1)" by force
    have "w_host w1 = w_host w" using sleep_trace s unfolding wait_priority_poll_def by blast
    moreover have "y = (True, w) \<or> y = (False, w1) \<or> f free c w1 = Some y"
      using body unfolding s prod.case by (auto split: if_splits)
    ultimately show "w_host (snd y) = w_host w" using ih [of free c w1 y] by auto
  qed
  then show ?thesis by simp
qed

lemma lock_moves: "lock_priority free c w = Some (b, w') \<Longrightarrow> moves H w w'"
  by (rule idle [OF stay lock_host])

lemma give_up_moves: "give_up H c w = (r, w') \<Longrightarrow> moves H w w'"
  using logs [OF stay] stay by (auto simp: give_up_def split: if_splits)

lemma recover_listed_moves:
  assumes "recover_listed H current free c cfg auths w = Some (r, w')"
  shows "moves H w w'"
proof -
  from assms obtain b w1 where l: "lock_priority free c w = Some (b, w1)" by (auto simp: recover_listed_def split: option.splits)
  note m1 = lock_moves [OF l]
  show ?thesis
  proof (cases "b \<and> current (w_now w1) \<and> ctx_err c (w_now w1) = None")
    case False
    with assms l have "give_up H c w1 = (r, w') \<or> w' = w1" by (cases b) (auto simp: recover_listed_def)
    then show ?thesis using moves_trans [OF give_up_moves m1] m1 by blast
  next
    case True
    note run = assms [unfolded recover_listed_def l option.case prod.case]
    from run True obtain ch es w2 where r: "recover_stale_priority_overrides H c cfg auths w1 = Some ((ch, es), w2)"
      by (auto split: option.splits)
    have "w' = w2 \<or> (\<exists>e. w' = write_log H e w2)"
      using run True r by (cases es; cases ch) auto
    then show ?thesis using moves_trans [OF recover_moves [OF r] m1] logs by blast
  qed
qed

lemma one_of_four: "(if a then u else if b then v else if c then x else z) = r \<Longrightarrow> r = u \<or> v = r \<or> x = r \<or> r = z"
  by (auto split: if_splits)

lemma startup_recovery_moves:
  assumes "startup_recovery H current free cancelled cfg w = Some (r, w')"
  shows "moves H w w'"
proof -
  let ?P = "\<lambda>H w y. moves H w (snd y)"
  have "?P H w (r, w')"
  proof (rule recovery_loop.raw_induct [OF _ assms [unfolded startup_recovery_def], of "\<lambda>H current free c cfg held w y. ?P H w y"])
    fix f and H :: "'a host" and current free c cfg held w y
    assume ih: "\<And>H current free c cfg held w y. f H current free c cfg held w = Some y \<Longrightarrow> moves H w (snd y)"
      and body: "(if \<not> current (w_now w) then Some (RecoveryStale, w)
      else case list_auths H c w of
              (listing, w1) \<Rightarrow>
                if listing_ready listing (w_now w1) (note_listing listing (w_now w1) held)
                then recover_listed H current free c cfg (projr listing) w1
                else case wait_recovery_retry c w1 of
                        (again, w2) \<Rightarrow>
                          if again then f H current free c cfg (note_listing listing (w_now w1) held) w2
                          else Some (give_up H c w2)) = Some y"
    obtain listing w1 where l: "list_auths H c w = (listing, w1)" by force
    obtain again w2 where s: "wait_recovery_retry c w1 = (again, w2)" by force
    note m1 = call_moves(1) [OF l]
    note m2 = moves_trans [OF sleep_moves [OF s [unfolded wait_recovery_retry_def]] m1]
    have "y = (RecoveryStale, w) \<or> recover_listed H current free c cfg (projr listing) w1 = Some y \<or>
        f H current free c cfg (note_listing listing (w_now w1) held) w2 = Some y \<or> y = give_up H c w2"
      using one_of_four [OF body [unfolded l prod.case s]] unfolding option.inject .
    then consider "y = (RecoveryStale, w)" | "recover_listed H current free c cfg (projr listing) w1 = Some y"
      | "f H current free c cfg (note_listing listing (w_now w1) held) w2 = Some y" | "y = give_up H c w2" by blast
    then show "moves H w (snd y)"
    proof cases
      case 1
      then show ?thesis by (simp add: stay)
    next
      case 2
      obtain r2 w3 where y: "y = (r2, w3)" by force
      show ?thesis unfolding y snd_conv by (rule moves_trans [OF recover_listed_moves [OF 2 [unfolded y]] m1])
    next
      case 3
      show ?thesis by (rule moves_trans [OF ih [OF 3] m2])
    next
      case 4
      obtain r2 w3 where y: "y = (r2, w3)" by force
      show ?thesis unfolding y snd_conv by (rule moves_trans [OF give_up_moves [OF 4 [symmetric, unfolded y]] m2])
    qed
  qed
  then show ?thesis by simp
qed

end
