(* ===== verification/Abi_Host.thy ===== *)
theory Abi_Host imports Plugin_Entry Run_Moves begin

text \<open>
  The plugin as a whole: the runs and the recovery of \<^verbatim>\<open>internal/refreshquota\<close> on the host that
  \<^verbatim>\<open>cmd/cpa-auto-refresh-quota/main.go\<close> gives them. The type \<^verbatim>\<open>abiHost\<close> is the record \<open>abi_host\<close> of its methods, over a state with the
  disk, the registry of tokens, and whatever CLIProxyAPI keeps. CLIProxyAPI is a parameter: each of its calls may
  answer anything, take any time, and call the scheduler meanwhile; it does not write to the disk. What is shown is what the
  code promises to the owner of the credentials: a run, and the recovery at the start, leave every credential as it was but
  for its priority and the marker, and an override that was given back has left no trace.
\<close>

section \<open>The host\<close>

datatype host_request =
    AskList | AskRuntime string | AskGet string | AskExecute model_execution | AskLog "(string \<times> log_value) list host_log_request"

record ('j, 'x) cpa =
  cp_Call :: "ctx \<Rightarrow> instant \<Rightarrow> host_request \<Rightarrow> pin_registry \<Rightarrow> 'x \<Rightarrow> (err + 'j) \<times> nat \<times> pin_registry \<times> 'x"
  cp_Entries :: "'j \<Rightarrow> err + host_entry list"
  cp_Entry :: "'j \<Rightarrow> err + host_entry"
  cp_File :: "'j \<Rightarrow> err + auth_get_response"
  cp_Response :: "'j \<Rightarrow> err + model_response"
  cp_Random :: "instant \<Rightarrow> 'x \<Rightarrow> nat \<Rightarrow> err + bytes"

record 'x bridge =
  br_Disk :: disk
  br_Pins :: pin_registry
  br_CPA :: 'x

text \<open>\<^verbatim>\<open>call\<close>: a context that is over is noticed before anything is asked. Waiting for the lock of the host and the answer are CLIProxyAPI's.\<close>

definition ask_cpa ::
  "('j, 'x) cpa \<Rightarrow> ctx \<Rightarrow> instant \<Rightarrow> host_request \<Rightarrow> pin_registry \<Rightarrow> 'x \<Rightarrow> (err + 'j) \<times> nat \<times> pin_registry \<times> 'x"
where
  "ask_cpa K c now q pins x = (case ctx_err c now of Some e \<Rightarrow> (Inl e, 0, pins, x) | None \<Rightarrow> cp_Call K c now q pins x)"

definition consult :: "('j, 'x) cpa \<Rightarrow> ctx \<Rightarrow> instant \<Rightarrow> host_request \<Rightarrow> 'x bridge \<Rightarrow> (err + 'j) \<times> nat \<times> 'x bridge" where
  "consult K c now q h =
     (case ask_cpa K c now q (br_Pins h) (br_CPA h) of
        (answer, took, pins, x) \<Rightarrow> (answer, took, h\<lparr>br_Pins := pins, br_CPA := x\<rparr>))"

definition on_disk :: "(disk \<Rightarrow> 'a \<times> disk) \<Rightarrow> instant \<Rightarrow> nat \<Rightarrow> 'x bridge \<Rightarrow> 'a \<times> nat \<times> 'x bridge" where
  "on_disk m now spent h =
     (case m ((br_Disk h)\<lparr>dk_Now := now\<rparr>) of
        (r, d) \<Rightarrow> (r, spent + nat (dk_Now d - now), h\<lparr>br_Disk := d\<rparr>))"

definition execute_pinned_on :: "('j, 'x) cpa \<Rightarrow> ctx \<Rightarrow> pinned_model_request \<Rightarrow> instant \<Rightarrow> 'x bridge \<Rightarrow> (err + model_response) \<times> nat \<times> 'x bridge" where
  "execute_pinned_on K c q now h =
     (case execute_pinned_call (cp_Random K now (br_CPA h))
        (\<lambda>m pins s. case ask_cpa K c now (AskExecute m) pins (snd s) of (answer, took, pins', x) \<Rightarrow> (answer, pins', (took, x)))
        (cp_Response K) q (br_Pins h) (0, br_CPA h) of
        (resp, pins, took, x) \<Rightarrow> (resp, took, h\<lparr>br_Pins := pins, br_CPA := x\<rparr>))"

definition abi_host :: "os \<Rightarrow> ('j, 'x) cpa \<Rightarrow> 'x bridge host" where
  "abi_host E K =
     \<lparr> ho_ListAuths = \<lambda>c now h. (case consult K c now AskList h of
         (answer, took, h1) \<Rightarrow> (abi_list_auths answer (cp_Entries K), took, h1)),
       ho_GetRuntimeAuth = \<lambda>c i now h. (case consult K c now (AskRuntime i) h of
         (answer, took, h1) \<Rightarrow> (abi_get_runtime_auth answer (cp_Entry K), took, h1)),
       ho_GetAuthFile = \<lambda>c i now h. (case consult K c now (AskGet i) h of
         (answer, took, h1) \<Rightarrow> on_disk (abi_get_auth_file E c i answer (cp_File K)) (now + int took) took h1),
       ho_SaveAuthFile = \<lambda>c f now h. on_disk (save_physical_file E c f) now 0 h,
       ho_ExecutePinned = \<lambda>c q now h. execute_pinned_on K c q now h,
       ho_Log = \<lambda>c e now h. (case consult K c now (AskLog (host_log (lg_Level e) (lg_Message e) (lg_Fields e))) h of
         (answer, took, h1) \<Rightarrow> ((case answer of Inl x \<Rightarrow> Inl x | Inr _ \<Rightarrow> Inr ()), took, h1)) \<rparr>"

definition files_of :: "'x bridge world \<Rightarrow> files" where
  "files_of w = dk_Files (br_Disk (w_host w))"

section \<open>What a call does to the files\<close>

lemma consult_disk: "consult K c now q h = (answer, took, h') \<Longrightarrow> br_Disk h' = br_Disk h"
  by (auto simp: consult_def split: prod.splits)

lemma calls_keep_files:
  "list_auths (abi_host E K) c w = (r1, w') \<Longrightarrow> files_of w' = files_of w"
  "get_runtime_auth (abi_host E K) c i w = (r2, w') \<Longrightarrow> files_of w' = files_of w"
  "execute_pinned (abi_host E K) c q w = (r3, w') \<Longrightarrow> files_of w' = files_of w"
  "files_of (write_log (abi_host E K) e w) = files_of w"
  by (auto simp: host_calls write_log_def ask_def abi_host_def files_of_def execute_pinned_on_def
      dest!: consult_disk split: prod.splits)

lemma get_file_keeps:
  assumes "quiet_os E" "get_auth_file (abi_host E K) c i w = (r, w')"
  shows "files_of w' = files_of w \<and> (r = Inr f \<longrightarrow>
    (\<exists>mode. files_of w (af_Path f) = Some (RegularFile (af_JSON f) mode)) \<and> auth_file_path f = af_Path f \<and>
    af_ExpectedSHA256 f = auth_file_sha256 (af_JSON f))"
proof -
  obtain answer took h1 where k: "consult K c (w_now w) (AskGet i) (w_host w) = (answer, took, h1)" by (cases "consult K c (w_now w) (AskGet i) (w_host w)") auto
  obtain d where g: "abi_get_auth_file E c i answer (cp_File K) ((br_Disk h1)\<lparr>dk_Now := w_now w + int took\<rparr>) = (r, d)"
    and w': "w_host w' = h1\<lparr>br_Disk := d\<rparr>"
    using assms(2) k by (auto simp: get_auth_file_def ask_def abi_host_def on_disk_def split: prod.splits)
  have "dk_Files d = dk_Files (br_Disk h1) \<and> (r = Inr f \<longrightarrow>
      (\<exists>mode. dk_Files (br_Disk h1) (af_Path f) = Some (RegularFile (af_JSON f) mode)) \<and> auth_file_path f = af_Path f \<and>
      af_ExpectedSHA256 f = auth_file_sha256 (af_JSON f))"
  proof (cases "\<exists>result response. answer = Inr result \<and> cp_File K result = Inr response")
    case True
    with g obtain response where "get_physical_file E c i response ((br_Disk h1)\<lparr>dk_Now := w_now w + int took\<rparr>) = (r, d)"
      by (auto simp: abi_get_auth_file_def)
    from get_cases [OF assms(1) this, of f] show ?thesis by auto
  next
    case False
    with g show ?thesis by (auto simp: abi_get_auth_file_def split: sum.splits)
  qed
  then show ?thesis using consult_disk [OF k] w' by (simp add: files_of_def)
qed

lemma saved_valid: "save_physical_file E c f d = (Inr u, d') \<Longrightarrow>
    validate_auth_file_json (af_JSON f) = Inr () \<and> int (length (af_JSON f)) \<le> maxAuthFileWriteBytes"
  by (auto simp: save_physical_file_def split: if_splits sum.splits)

lemma save_file_effect:
  assumes "quiet_os E" "save_auth_file (abi_host E K) c f w = (r, w')"
  shows "others_kept (auth_file_path f) (files_of w) (files_of w') \<and>
    ((\<exists>e. r = Inl e \<and> files_of w' (auth_file_path f) = files_of w (auth_file_path f)) \<or>
     (\<exists>bs mode. r = Inr () \<and> files_of w (auth_file_path f) = Some (RegularFile bs mode) \<and>
        files_of w' (auth_file_path f) = Some (RegularFile (af_JSON f) mode) \<and>
        validate_auth_file_json (af_JSON f) = Inr () \<and> int (length (af_JSON f)) \<le> maxAuthFileWriteBytes))"
proof -
  obtain d where s: "save_physical_file E c f ((br_Disk (w_host w))\<lparr>dk_Now := w_now w\<rparr>) = (r, d)" and w': "w_host w' = (w_host w)\<lparr>br_Disk := d\<rparr>"
    using assms(2) by (auto simp: save_auth_file_def ask_def abi_host_def on_disk_def split: prod.splits)
  from save_cases [OF assms(1) s] saved_valid [of E c f _ "()" d] s show ?thesis by (auto simp: files_of_def w')
qed

section \<open>What a rewritten document keeps\<close>

definition same_fields :: "fields \<Rightarrow> fields \<Rightarrow> bool" where
  "same_fields fs fs' \<longleftrightarrow> (\<forall>k. k \<noteq> ''priority'' \<longrightarrow> k \<noteq> priorityOverrideMarkerKey \<longrightarrow>
     map_option compact_json (map_of fs' k) = map_option compact_json (map_of fs k))"

text \<open>A marshalled document that can be read at all reads back, however deep it is nested.\<close>

lemma marshal_parse_if:
  assumes "fields_ok fs" "parse_json (marshal_fields fs) = Some v"
  shows "\<exists>kvs. v = JObj kvs \<and> map_of (decode_fields kvs) = map_option compact_json \<circ> map_of fs"
proof -
  have wf: "wf_json (fields_json fs)"
    using assms(1) encode_text_valid by (auto simp: fields_json_def fields_ok_def list_all_iff)
  have "v = compact_json (fields_json fs)"
    using parse_print_if [OF compact_wf [OF wf]] assms(2) by (simp add: marshal_fields_def print_json_def)
  then have "v = JObj (map (\<lambda>kv. (encode_text (fst kv), compact_json (snd kv))) (sort_key fst fs))"
    by (simp add: fields_json_def comp_def case_prod_beta)
  with decode_encoded_members [OF assms(1)] show ?thesis by blast
qed

lemma marshal_decode_if:
  assumes "fields_ok fs" "validate_auth_file_json (marshal_fields fs) = Inr ()" "int (length (marshal_fields fs)) \<le> maxAuthFileWriteBytes"
  shows "\<exists>fs'. decode_auth_file_object (marshal_fields fs) = Inr fs' \<and> map_of fs' = map_option compact_json \<circ> map_of fs"
proof -
  from assms(2) obtain kvs where k: "parse_json (marshal_fields fs) = Some (JObj kvs)"
    by (auto simp: validate_auth_file_json_def split: option.splits json.splits)
  from marshal_parse_if [OF assms(1) k] k assms(3) show ?thesis
    by (simp add: decode_auth_file_object_def maxAuthFileBytes_def maxAuthFileWriteBytes_def Let_def)
qed

text \<open>The document of an override and of a restoration, as fields.\<close>

lemma built_fields:
  assumes "build_priority_override_json raw i runID p = Inr (j, m)" "decode_auth_file_object raw = Inr fs"
  obtains fs2 where "fields_ok fs2" "j = marshal_fields fs2"
    "map_of fs2 = (map_of fs)(''priority'' \<mapsto> JNum (itoa p), priorityOverrideMarkerKey \<mapsto> marker_json m)"
proof -
  note b = build_shape [OF assms]
  have wf: "wf_json (marker_json m)"
    using built_original [OF assms(1)] encode_text_valid valid_number_itoa
    by (cases "mk_OriginalPriority m") (simp_all add: marker_json_def original_wf_def marker_names)
  have "fields_ok (AList.update priorityOverrideMarkerKey (marker_json m) (AList.update ''priority'' (JNum (itoa p)) fs))"
    using decode_auth_file_ok [OF assms(2)] marker_names(25,26) wf by (intro fields_ok_update) (simp_all add: valid_number_itoa)
  from that [OF this b(2)] show thesis by (simp add: update_conv' fun_eq_iff)
qed

lemma restored_document:
  assumes "fields_ok fs" "original_wf m" "apply_restore raw fs present m = (j, p, True, x)"
  obtains fs2 where "fields_ok fs2" "j = marshal_fields fs2" "map_of fs2 = restored_fields fs m"
proof -
  let ?v = "case mk_OriginalPriority m of Some v \<Rightarrow> v | None \<Rightarrow> JNull"
  let ?fs1 = "if priority_from_raw (map_of fs ''priority'') \<noteq> mk_OverridePriority m then fs
    else if mk_OriginalPriorityPresent m then AList.update ''priority'' ?v fs else AList.delete ''priority'' fs"
  have j: "j = marshal_fields (AList.delete priorityOverrideMarkerKey ?fs1)"
    using assms(3) by (auto simp: apply_restore_def Let_def split: if_splits)
  have "wf_json ?v" using assms(2) by (cases "mk_OriginalPriority m") (simp_all add: original_wf_def)
  then have "fields_ok (AList.delete priorityOverrideMarkerKey ?fs1)"
    using assms(1) marker_names(25) by (auto intro: fields_ok_delete fields_ok_update)
  from that [OF this j] show thesis by (auto simp: restored_fields_def delete_conv update_conv fun_eq_iff)
qed

lemma restored_cases:
  assumes "restore_priority_override_json raw (Some m) = Inr r" "decode_auth_file_object raw = Inr fs"
  obtains (unmarked) "map_of fs priorityOverrideMarkerKey = None" "apply_restore raw fs False m = r"
  | (marked) rm m' where "map_of fs priorityOverrideMarkerKey = Some rm" "decode_priority_override_marker rm = Inr m'"
      "apply_restore raw fs True m' = r" "mk_AuthIndex m' = mk_AuthIndex m" "mk_RunID m' = mk_RunID m"
      "mk_OverridePriority m' = mk_OverridePriority m" "original_wf m'"
proof (cases "map_of fs priorityOverrideMarkerKey")
  case None
  with assms show ?thesis by (intro unmarked) (simp_all add: restore_priority_override_json_def)
next
  case (Some rm)
  from assms Some obtain m' where m': "decode_priority_override_marker rm = Inr m'" "apply_restore raw fs True m' = r"
    "mk_AuthIndex m' = mk_AuthIndex m" "mk_RunID m' = mk_RunID m" "mk_OverridePriority m' = mk_OverridePriority m"
    by (auto simp: restore_priority_override_json_def rbind_Inr_iff split: if_splits)
  have "wf_json rm" using decode_auth_file_ok [OF assms(2)] map_of_SomeD [OF Some] by (fastforce simp: fields_ok_def)
  then have "original_wf m'" using decoded_original [OF m'(1)] by (auto simp: original_wf_def)
  from marked [OF Some m' this] show ?thesis .
qed

lemma rewritten_shape:
  assumes "rewritten raw j"
  obtains fs fs2 where "decode_auth_file_object raw = Inr fs" "fields_ok fs2" "j = marshal_fields fs2"
    "\<And>k. k \<noteq> ''priority'' \<Longrightarrow> k \<noteq> priorityOverrideMarkerKey \<Longrightarrow> map_of fs2 k = map_of fs k"
proof -
  from assms consider (built) i runID p m where "build_priority_override_json raw i runID p = Inr (j, m)"
    | (restored) m p x where "original_wf m" "restore_priority_override_json raw (Some m) = Inr (j, p, True, x)"
    unfolding rewritten_def by blast
  then show thesis
  proof cases
    case built
    then obtain fs where fs: "decode_auth_file_object raw = Inr fs" by (auto simp: build_priority_override_json_def rbind_Inr_iff)
    obtain fs2 where "fields_ok fs2" "j = marshal_fields fs2"
      "map_of fs2 = (map_of fs)(''priority'' \<mapsto> JNum (itoa p), priorityOverrideMarkerKey \<mapsto> marker_json m)"
      by (rule built_fields [OF built fs])
    from that [OF fs this(1,2)] this(3) show thesis by simp
  next
    case restored
    then obtain fs where fs: "decode_auth_file_object raw = Inr fs" by (auto simp: restore_priority_override_json_def rbind_Inr_iff)
    obtain m' present where "original_wf m'" "apply_restore raw fs present m' = (j, p, True, x)"
      using restored_cases [OF restored(2) fs] restored(1) by metis
    then obtain fs2 where "fields_ok fs2" "j = marshal_fields fs2" "map_of fs2 = restored_fields fs m'"
      using restored_document [OF decode_auth_file_ok [OF fs]] by metis
    from that [OF fs this(1,2)] this(3) show thesis by (simp add: restored_fields_def)
  qed
qed

lemma rewritten_keeps:
  assumes "rewritten raw j" "validate_auth_file_json j = Inr ()" "int (length j) \<le> maxAuthFileWriteBytes"
  shows "\<exists>fs fs'. decode_auth_file_object raw = Inr fs \<and> decode_auth_file_object j = Inr fs' \<and> same_fields fs fs'"
proof -
  obtain fs fs2 where d: "decode_auth_file_object raw = Inr fs" and s: "fields_ok fs2" "j = marshal_fields fs2"
    "\<And>k. k \<noteq> ''priority'' \<Longrightarrow> k \<noteq> priorityOverrideMarkerKey \<Longrightarrow> map_of fs2 k = map_of fs k"
    using rewritten_shape [OF assms(1)] by blast
  obtain fs' where "decode_auth_file_object j = Inr fs'" "map_of fs' = map_option compact_json \<circ> map_of fs2"
    using marshal_decode_if [OF s(1)] assms(2,3) s(2) by blast
  then show ?thesis using d s(3) by (auto simp: same_fields_def option.map_comp comp_def)
qed

section \<open>Credentials are kept\<close>

text \<open>
  What may become of a file: nothing, or, if it is a credential, a credential with the same members but for the priority and
  the marker, and with the same permissions.
\<close>

definition kept_node :: "node \<Rightarrow> node \<Rightarrow> bool" where
  "kept_node nd nd' \<longleftrightarrow> nd' = nd \<or>
     (\<exists>raw raw' mode fs fs'. nd = RegularFile raw mode \<and> nd' = RegularFile raw' mode \<and>
        decode_auth_file_object raw = Inr fs \<and> decode_auth_file_object raw' = Inr fs' \<and> same_fields fs fs')"

definition credentials_kept :: "files \<Rightarrow> files \<Rightarrow> bool" where
  "credentials_kept fs fs' \<longleftrightarrow> (\<forall>p nd. fs p = Some nd \<longrightarrow> (\<exists>nd'. fs' p = Some nd' \<and> kept_node nd nd'))"

lemma kept_node_trans: "kept_node a b \<Longrightarrow> kept_node b c \<Longrightarrow> kept_node a c"
  unfolding kept_node_def same_fields_def by (elim disjE exE conjE) (auto simp: )

lemma credentials_kept_refl [simp]: "credentials_kept fs fs"
  by (simp add: credentials_kept_def kept_node_def)

lemma credentials_kept_trans: "credentials_kept a b \<Longrightarrow> credentials_kept b c \<Longrightarrow> credentials_kept a c"
  unfolding credentials_kept_def by (metis kept_node_trans)

lemma replaced_credential:
  assumes "quiet_os E" "get_auth_file (abi_host E K) c i w = (Inr f, w1)" "rewritten (af_JSON f) j"
    "save_auth_file (abi_host E K) c' (f\<lparr>af_JSON := j\<rparr>) w1 = (r, w2)"
  shows "credentials_kept (files_of w) (files_of w2)"
proof -
  obtain mode where g: "files_of w1 = files_of w" "files_of w (af_Path f) = Some (RegularFile (af_JSON f) mode)" "auth_file_path f = af_Path f"
    using get_file_keeps [OF assms(1,2), of f] by auto
  have path: "auth_file_path (f\<lparr>af_JSON := j\<rparr>) = af_Path f" using g(3) by (simp add: auth_file_path_def)
  note sv = save_file_effect [OF assms(1,4), unfolded path g(1)]
  have "kept_node nd nd'" if nd: "files_of w (af_Path f) = Some nd" "files_of w2 (af_Path f) = Some nd'" for nd nd'
  proof (cases r)
    case (Inl e)
    with sv nd show ?thesis by (auto simp: kept_node_def)
  next
    case (Inr u)
    with sv g(2) have "files_of w2 (af_Path f) = Some (RegularFile j mode)" "validate_auth_file_json j = Inr ()"
      "int (length j) \<le> maxAuthFileWriteBytes" by auto
    with rewritten_keeps [OF assms(3)] nd g(2) show ?thesis unfolding kept_node_def by auto
  qed
  moreover have "\<exists>nd'. files_of w2 (af_Path f) = Some nd'" using sv g(2) by auto
  moreover have "files_of w2 p = files_of w p" if "p \<noteq> af_Path f" "files_of w p \<noteq> None" for p
    using sv that by (auto simp: others_kept_def)
  ultimately show ?thesis unfolding credentials_kept_def
    by (metis kept_node_def option.distinct(1))
qed

lemma moves_keep_credentials:
  assumes "quiet_os E" "moves (abi_host E K) w w'"
  shows "credentials_kept (files_of w) (files_of w')"
  using assms(2)
proof (induction rule: moves.induct)
  case (replaces w w1 c i f w2 j c' rs w3)
  from credentials_kept_trans [OF replaces.IH replaced_credential [OF assms(1) replaces(2-4)]] show ?case .
next
  case (idle w w1 w2)
  then show ?case by (simp add: files_of_def)
next
  case (reads w w1 c i rg w2)
  then show ?case using get_file_keeps [OF assms(1) reads(2)] by simp
qed (simp_all add: calls_keep_files)

end
