(* ===== verification/Restored_Files.thy ===== *)
theory Restored_Files imports Abi_Host begin

text \<open>
  A run leaves no trace. The theory \<open>Abi_Host\<close> shows that the credentials survive a run; here it is shown that a run which does
  not report a failed restoration leaves each of them the very document it was: an override that was begun is written to one file,
  survives the call to the model there, and is undone by the restoration. What the argument needs of CLIProxyAPI is
  that it names the same file for a credential during the run.
\<close>

section \<open>The document that is put back\<close>

definition same_document :: "bytes \<Rightarrow> bytes \<Rightarrow> bool" where
  "same_document raw raw' \<longleftrightarrow> raw' = raw \<or>
     (\<exists>fs fs'. decode_auth_file_object raw = Inr fs \<and> decode_auth_file_object raw' = Inr fs' \<and> map_of fs' = map_option compact_json \<circ> map_of fs)"

definition unmarked :: "bytes \<Rightarrow> bool" where
  "unmarked raw \<longleftrightarrow> (case decode_auth_file_object raw of Inl _ \<Rightarrow> True | Inr fs \<Rightarrow> map_of fs priorityOverrideMarkerKey = None)"

lemma same_document_refl [simp]: "same_document raw raw"
  by (simp add: same_document_def)

lemma same_document_trans: "same_document a b \<Longrightarrow> same_document b c \<Longrightarrow> same_document a c"
  unfolding same_document_def by (elim disjE exE conjE) (auto simp: fun_eq_iff option.map_comp comp_def)

lemma same_document_unmarked: "same_document a b \<Longrightarrow> unmarked a \<Longrightarrow> unmarked b"
  by (auto simp: same_document_def unmarked_def)

text \<open>The marker of a document, as \<^verbatim>\<open>json.Unmarshal\<close> reads it, has the original priority it was written with.\<close>

lemma atoi_itoa_value: "atoi (itoa n) = Some k \<Longrightarrow> k = n \<and> int64_min \<le> n \<and> n \<le> int64_max"
  using nat_digits_sign [of "nat n"] nat_digits_props [of "nat n"] nat_digits_props [of "nat (- n)"]
  by (auto simp: atoi_def itoa_def Let_def split: if_splits)

lemma read_members:
  "unmarshal_marker (compact_json (marker_json m)) =
    (case atoi (itoa (mk_Version m)) of None \<Rightarrow> None | Some v \<Rightarrow>
     case atoi (itoa (mk_OverridePriority m)) of None \<Rightarrow> None | Some p \<Rightarrow>
     case atoi (itoa (mk_OriginalFilePriority m)) of None \<Rightarrow> None | Some f \<Rightarrow>
       Some \<lparr> mk_Version = v, mk_Owner = unquote (encode_text (mk_Owner m)), mk_RunID = unquote (encode_text (mk_RunID m)),
         mk_AuthIndex = unquote (encode_text (mk_AuthIndex m)), mk_OverridePriority = p,
         mk_OriginalPriorityPresent = mk_OriginalPriorityPresent m,
         mk_OriginalPriority = map_option compact_json (mk_OriginalPriority m), mk_OriginalFilePriority = f \<rparr>)"
proof (cases "mk_OriginalPriority m")
  case None
  show ?thesis unfolding marker_json_def None option.case
    by (simp add: unmarshal_marker_def marker_names set_field_known json_int_def json_string_def json_bool_def zero_marker_def None split: option.split)
next
  case (Some w)
  show ?thesis unfolding marker_json_def Some option.case
    by (simp add: unmarshal_marker_def marker_names set_field_known json_int_def json_string_def json_bool_def zero_marker_def Some split: option.split)
qed

lemma read_marker:
  assumes "decode_priority_override_marker (compact_json (marker_json m)) = Inr m'"
  shows "mk_OverridePriority m' = mk_OverridePriority m" "mk_OriginalPriorityPresent m' = mk_OriginalPriorityPresent m"
    "mk_OriginalPriority m' = map_option compact_json (mk_OriginalPriority m)"
    "atoi (itoa (mk_OverridePriority m)) = Some (mk_OverridePriority m)"
proof -
  have u: "unmarshal_marker (compact_json (marker_json m)) = Some m'"
    using assms by (auto simp: decode_priority_override_marker_def split: option.splits if_splits)
  show "mk_OverridePriority m' = mk_OverridePriority m" "mk_OriginalPriorityPresent m' = mk_OriginalPriorityPresent m"
    "mk_OriginalPriority m' = map_option compact_json (mk_OriginalPriority m)"
    "atoi (itoa (mk_OverridePriority m)) = Some (mk_OverridePriority m)"
    using u unfolding read_members by (auto split: option.splits dest: atoi_itoa_value)
qed
text \<open>Whatever \<^verbatim>\<open>restorePriorityOverrideJSON\<close> accepts of a document an override wrote, it makes the original again.\<close>

lemma restoration_undoes:
  assumes "build_priority_override_json raw i runID p = Inr (modified, m)"
    "validate_auth_file_json modified = Inr ()" "int (length modified) \<le> maxAuthFileWriteBytes"
    "restore_priority_override_json modified (Some fallback) = Inr (j, q, needs, x)"
  shows "needs"
    "validate_auth_file_json j = Inr () \<Longrightarrow> int (length j) \<le> maxAuthFileWriteBytes \<Longrightarrow> same_document raw j"
proof -
  obtain fs where fs: "decode_auth_file_object raw = Inr fs" using assms(1) by (auto simp: build_priority_override_json_def rbind_Inr_iff)
  note b = build_shape [OF assms(1) fs]
  obtain fs2 where fs2: "fields_ok fs2" "modified = marshal_fields fs2"
    "map_of fs2 = (map_of fs)(''priority'' \<mapsto> JNum (itoa p), priorityOverrideMarkerKey \<mapsto> marker_json m)"
    by (rule built_fields [OF assms(1) fs])
  obtain fs3 where fs3: "decode_auth_file_object modified = Inr fs3" "map_of fs3 = map_option compact_json \<circ> map_of fs2"
    using marshal_decode_if [OF fs2(1)] assms(2,3) fs2(2) by blast
  have mk: "map_of fs3 priorityOverrideMarkerKey = Some (compact_json (marker_json m))" by (simp add: fs3(2) fs2(3))
  obtain m' where m': "decode_priority_override_marker (compact_json (marker_json m)) = Inr m'"
      "apply_restore modified fs3 True m' = (j, q, needs, x)" "original_wf m'"
    using assms(4) fs3(1)
  proof (cases rule: restored_cases)
    case unmarked
    with mk show ?thesis by simp
  next
    case (marked rm m')
    with mk that [of m'] show ?thesis by simp
  qed
  note rm = read_marker [OF m'(1)]
  show n: "needs" using m'(2) by (simp add: apply_restore_def Let_def)
  have cur: "priority_from_raw (map_of fs3 ''priority'') = mk_OverridePriority m'"
    using rm(1,4) by (simp add: fs3(2) fs2(3) b(3) priority_from_raw_def)
  obtain fs4 where fs4: "fields_ok fs4" "j = marshal_fields fs4" "map_of fs4 = restored_fields fs3 m'"
    using restored_document [OF decode_auth_file_ok [OF fs3(1)] m'(3)] m'(2) n by metis
  have orig: "restored_fields fs3 m' = map_option compact_json \<circ> map_of fs"
    using cur b(1) rm by (cases "map_of fs ''priority''") (auto simp: restored_fields_def b(3) fs3(2) fs2(3) fun_eq_iff)
  assume "validate_auth_file_json j = Inr ()" "int (length j) \<le> maxAuthFileWriteBytes"
  then obtain fs5 where "decode_auth_file_object j = Inr fs5" "map_of fs5 = map_option compact_json \<circ> map_of fs4"
    using marshal_decode_if [OF fs4(1)] fs4(2) by blast
  then show "same_document raw j" unfolding same_document_def
    using fs by (intro disjI2 exI conjI) (auto simp: fs4(3) orig fun_eq_iff option.map_comp comp_def)
qed

section \<open>The file of a credential\<close>

text \<open>CLIProxyAPI names the file of a credential: whenever it answers the question for one, it is this one.\<close>

definition addressed :: "('j, 'x) cpa \<Rightarrow> (string \<Rightarrow> string) \<Rightarrow> bool" where
  "addressed K P \<longleftrightarrow> (\<forall>c now i pins x result response.
     fst (cp_Call K c now (AskGet i) pins x) = Inr result \<longrightarrow> cp_File K result = Inr response \<longrightarrow>
     path_clean (trim_space (ag_Path response)) = P i)"

lemma get_path: "get_physical_file E c i response d = (Inr f, d') \<Longrightarrow> af_Path f = path_clean (trim_space (ag_Path response))"
  by (auto simp: get_physical_file_def validate_physical_auth_file_def after_def failing_def unless_done_def Let_def
      split: if_splits prod.splits sum.splits option.splits)

lemma addressed_get:
  assumes "quiet_os E" "addressed K P" "get_auth_file (abi_host E K) c i w = (Inr f, w')"
  shows "files_of w' = files_of w" "af_Path f = P i" "auth_file_path f = P i" "\<exists>mode. files_of w (P i) = Some (RegularFile (af_JSON f) mode)"
proof -
  obtain result response d d' where "fst (cp_Call K c (w_now w) (AskGet i) (br_Pins (w_host w)) (br_CPA (w_host w))) = Inr result"
      "cp_File K result = Inr response" "get_physical_file E c i response d = (Inr f, d')"
    using assms(3) by (auto simp: get_auth_file_def ask_def abi_host_def consult_def ask_cpa_def on_disk_def abi_get_auth_file_def split: prod.splits sum.splits option.splits)
  then show p: "af_Path f = P i" using assms(2) get_path unfolding addressed_def by metis
  show "files_of w' = files_of w" "auth_file_path f = P i" "\<exists>mode. files_of w (P i) = Some (RegularFile (af_JSON f) mode)"
    using get_file_keeps [OF assms(1,3), of f] p by simp_all
qed

lemma addressed_save:
  assumes "quiet_os E" "addressed K P" "get_auth_file (abi_host E K) c i w0 = (Inr f, w)"
    "save_auth_file (abi_host E K) c' (f\<lparr>af_JSON := j\<rparr>) w = (r, w')"
  shows "others_kept (P i) (files_of w) (files_of w')"
    "r = Inl e \<Longrightarrow> files_of w' (P i) = files_of w (P i)"
    "r = Inr () \<Longrightarrow> files_of w (P i) = Some (RegularFile bs mode) \<Longrightarrow> files_of w' (P i) = Some (RegularFile j mode)"
    "r = Inr () \<Longrightarrow> validate_auth_file_json j = Inr () \<and> int (length j) \<le> maxAuthFileWriteBytes"
proof -
  have p: "auth_file_path (f\<lparr>af_JSON := j\<rparr>) = P i" using addressed_get(3) [OF assms(1-3)] by (simp add: auth_file_path_def)
  note s = save_file_effect [OF assms(1,4), unfolded p]
  show "others_kept (P i) (files_of w) (files_of w')"
    "r = Inl e \<Longrightarrow> files_of w' (P i) = files_of w (P i)"
    "r = Inr () \<Longrightarrow> files_of w (P i) = Some (RegularFile bs mode) \<Longrightarrow> files_of w' (P i) = Some (RegularFile j mode)"
    "r = Inr () \<Longrightarrow> validate_auth_file_json j = Inr () \<and> int (length j) \<le> maxAuthFileWriteBytes"
    using s by auto
qed

lemma others_kept_refl [simp]: "others_kept p fs fs"
  by (simp add: others_kept_def)

lemma others_kept_trans: "others_kept p a b \<Longrightarrow> others_kept p b c \<Longrightarrow> others_kept p a c"
  by (auto simp: others_kept_def)

text \<open>Waiting and reading, in any number, keep the files.\<close>

lemma sleep_keeps: "sleep_ctx c d w = (b, w') \<Longrightarrow> files_of w' = files_of w"
  using sleep_trace [of c d w b w'] by (simp add: files_of_def)

lemma poll_keeps: "wait_priority_poll c w = (b, w') \<Longrightarrow> files_of w' = files_of w"
  unfolding wait_priority_poll_def by (rule sleep_keeps)

lemma get_until_keeps:
  assumes "quiet_os E" "get_auth_file_until (abi_host E K) c i w = Some (r, w')"
  shows "files_of w' = files_of w \<and> (\<forall>f. r = Inr f \<longrightarrow> (\<exists>w0. files_of w0 = files_of w \<and> get_auth_file (abi_host E K) c i w0 = (Inr f, w')))"
proof -
  let ?H = "abi_host E K"
  let ?P = "\<lambda>w y. files_of (snd y) = files_of w \<and> (\<forall>f. fst y = Inr f \<longrightarrow> (\<exists>w0. files_of w0 = files_of w \<and> get_auth_file ?H c i w0 = (Inr f, snd y)))"
  have g: "files_of w1 = files_of w" if "get_auth_file ?H c i w = (r, w1)" for w r w1
    using get_file_keeps [OF assms(1) that] by blast
  have "?P w (r, w')"
  proof (rule get_until_induct [OF assms(2), where P = ?P])
    fix w r w1
    assume "get_auth_file ?H c i w = (r, w1)" "\<exists>f. r = Inr f"
    then show "?P w (r, w1)" using g by auto
  next
    fix w r w1 w2
    assume a: "get_auth_file ?H c i w = (r, w1)" "\<not> (\<exists>f. r = Inr f)" "wait_priority_poll c w1 = (False, w2)"
    from g [OF a(1)] poll_keeps [OF a(3)] a(2) show "?P w (r, w2)" by simp
  next
    fix w r w1 w2 y
    assume a: "get_auth_file ?H c i w = (r, w1)" "wait_priority_poll c w1 = (True, w2)" "?P w2 y"
    from g [OF a(1)] poll_keeps [OF a(2)] a(3) show "?P w y" by simp
  qed
  then show ?thesis by simp
qed

lemma wait_keeps:
  assumes "wait_for_runtime_priority (abi_host E K) c timeout i authID p w = Some (r, w')"
  shows "files_of w' = files_of w"
proof -
  let ?H = "abi_host E K"
  obtain c' where poll: "poll_runtime_priority ?H c' i authID p w = Some (r, w')"
    using assms by (auto simp: wait_for_runtime_priority_def Let_def)
  have "files_of (snd (r, w')) = files_of w"
  proof (rule poll_runtime_induct [OF poll, where P = "\<lambda>w y. files_of (snd y) = files_of w"])
    fix w r w1
    assume "get_runtime_auth ?H c' i w = (r, w1)"
    then show "files_of (snd (r, w1)) = files_of w" using calls_keep_files(2) by simp
  next
    fix w r w1 w2
    assume a: "get_runtime_auth ?H c' i w = (r, w1)" "wait_priority_poll c' w1 = (False, w2)"
    show "files_of (snd (Inl (ErrNew (''CPA runtime did not publish priority '' @ itoa p @ '' before timeout'')), w2)) = files_of w"
      using calls_keep_files(2) [OF a(1)] poll_keeps [OF a(2)] by simp
  next
    fix w r w1 w2 y
    assume a: "get_runtime_auth ?H c' i w = (r, w1)" "wait_priority_poll c' w1 = (True, w2)" "files_of (snd y) = files_of w2"
    show "files_of (snd y) = files_of w" using calls_keep_files(2) [OF a(1)] poll_keeps [OF a(2)] a(3) by simp
  qed
  then show ?thesis by simp
qed

text \<open>An idle clock and the events of the service are no matter of the disk.\<close>

lemma idle_keeps:
  "files_of (note_event ev w) = files_of w" "files_of (publish_report report w) = files_of w" "files_of (w\<lparr>w_now := t\<rparr>) = files_of w"
  "finish_run (abi_host E K) report w = (rep, w') \<Longrightarrow> files_of w' = files_of w"
  "abort_run (abi_host E K) c report message w = (rep, w') \<Longrightarrow> files_of w' = files_of w"
  "record_result (abi_host E K) cfg report result w = (rep, w') \<Longrightarrow> files_of w' = files_of w"
  by (auto simp: finish_run_def abort_run_def record_result_def publish_report_def Let_def calls_keep_files)
    (simp_all add: note_event_def files_of_def)

lemma next_keeps:
  assumes "next_target c cfg index ntargets (report, w) = (r, w')"
  shows "files_of w' = files_of w"
proof -
  obtain b w1 where w1: "wait_between_auths c (cf_DelayBetweenAuths cfg) index ntargets w = (b, w1)" by force
  have "files_of w1 = files_of w" using w1 by (auto simp: wait_between_auths_def dest: sleep_keeps split: if_splits)
  with assms w1 show ?thesis by (auto simp: next_target_def split: bool.splits)
qed

lemma settle_keeps:
  assumes "settle_target (abi_host E K) c cfg index ntargets fatal rr w = (r, w')"
  shows "files_of w' = files_of w"
proof -
  obtain rep w1 where r: "record_result (abi_host E K) cfg (fst rr) (snd rr) w = (rep, w1)" by force
  then have "w' = w1 \<or> next_target c cfg index ntargets (rep, w1) = (r, w')" using assms by (auto simp: settle_target_def split: if_splits)
  then show ?thesis using idle_keeps(6) [OF r] next_keeps [of c cfg index ntargets rep w1 r w'] by auto
qed

section \<open>An override on the disk\<close>

definition override_of :: "bytes \<Rightarrow> bytes \<Rightarrow> marker \<Rightarrow> bool" where
  "override_of raw modified m \<longleftrightarrow> (\<exists>i runID q. build_priority_override_json raw i runID q = Inr (modified, m)) \<and>
     validate_auth_file_json modified = Inr () \<and> int (length modified) \<le> maxAuthFileWriteBytes"

definition overridden :: "string \<Rightarrow> files \<Rightarrow> files \<Rightarrow> marker \<Rightarrow> bool" where
  "overridden p fs fs' m \<longleftrightarrow> others_kept p fs fs' \<and>
     (\<exists>raw modified mode. fs p = Some (RegularFile raw mode) \<and> fs' p = Some (RegularFile modified mode) \<and> override_of raw modified m)"

lemma overridden_first: "others_kept p a b \<Longrightarrow> b p = a p \<Longrightarrow> overridden p b c m \<Longrightarrow> overridden p a c m"
  unfolding overridden_def using others_kept_trans by auto

lemma begin_attempts_files:
  assumes "quiet_os E" "addressed K P"
  shows "begin_attempts (abi_host E K) c cfg runID a p n w = Some ((lease, e), w') \<Longrightarrow>
    (case lease of
       None \<Rightarrow> others_kept (P (au_AuthIndex a)) (files_of w) (files_of w') \<and> files_of w' (P (au_AuthIndex a)) = files_of w (P (au_AuthIndex a))
     | Some l \<Rightarrow> pl_AuthIndex l = au_AuthIndex a \<and> overridden (P (au_AuthIndex a)) (files_of w) (files_of w') (pl_Marker l))"
proof (induction n arbitrary: w)
  case (Suc n)
  let ?p = "P (au_AuthIndex a)"
  from Suc.prems show ?case
  proof (cases rule: begin_attempts_cases)
    case (unread g)
    then show ?thesis using get_file_keeps [OF assms(1) unread(1)] by simp
  next
    case (retry af j x w1 w2)
    note s = addressed_save [OF assms retry(1,2)] and g = addressed_get(1) [OF assms retry(1)]
    have k: "others_kept ?p (files_of w) (files_of w2)" "files_of w2 ?p = files_of w ?p" using s(1) s(2) [OF refl] g by simp_all
    show ?thesis using Suc.IH [OF retry(3)] k others_kept_trans [OF k(1)] overridden_first [OF k] by (auto split: option.splits)
  next
    case (unsaved af j x w1)
    note s = addressed_save [OF assms unsaved(1,2)] and g = addressed_get(1) [OF assms unsaved(1)]
    show ?thesis using unsaved(3) s(1) s(2) [OF refl] g by simp
  next
    case (saved af j m v w1 w2 w3)
    note s = addressed_save [OF assms saved(1,3)] and g = addressed_get [OF assms saved(1)]
    obtain mode where m: "files_of w ?p = Some (RegularFile (af_JSON af) mode)" using g(4) by blast
    have w2: "files_of w2 ?p = Some (RegularFile j mode)" using s(3) [OF refl] m g(1) by simp
    have w': "files_of w' = files_of w2" using saved(6) wait_keeps [OF saved(4)] by (auto simp: calls_keep_files)
    have o: "override_of (af_JSON af) j m" unfolding override_of_def using saved(2) s(4) by blast
    show ?thesis unfolding saved(5) using m w2 o s(1) g(1) by (simp add: overridden_def w')
  qed
qed simp

lemma restore_attempts_files:
  assumes "quiet_os E" "addressed K P"
  shows "restore_attempts (abi_host E K) c t i authID (Some fallback) n w = Some (res, w') \<Longrightarrow>
    others_kept (P i) (files_of w) (files_of w') \<and>
    (\<forall>raw modified mode y m. res = Inr y \<longrightarrow> files_of w (P i) = Some (RegularFile modified mode) \<longrightarrow> override_of raw modified m \<longrightarrow>
       (\<exists>j. files_of w' (P i) = Some (RegularFile j mode) \<and> same_document raw j))"
proof (induction n arbitrary: w)
  case (Suc n)
  have changed: "override_of raw (af_JSON af) m \<Longrightarrow> restore_priority_override_json (af_JSON af) (Some fallback) = Inr (j, q, needs, x) \<Longrightarrow>
      needs \<and> (validate_auth_file_json j = Inr () \<longrightarrow> int (length j) \<le> maxAuthFileWriteBytes \<longrightarrow> same_document raw j)" for raw af m j q needs x
    using restoration_undoes unfolding override_of_def by metis
  from Suc.prems show ?case
  proof (cases rule: restore_attempts_cases)
    case (unread r e)
    then show ?thesis using get_until_keeps [OF assms(1) unread(1)] by simp
  next
    case (unchanged af j q x v w1)
    obtain w0 where w0: "files_of w0 = files_of w" "get_auth_file (abi_host E K) c i w0 = (Inr af, w1)" "files_of w1 = files_of w"
      using get_until_keeps [OF assms(1) unchanged(1)] by blast
    have "files_of w' = files_of w" using wait_keeps [OF unchanged(3)] w0(3) by simp
    moreover have "\<not> override_of raw bs m" if "files_of w (P i) = Some (RegularFile bs mode)" for raw bs mode m
      using that addressed_get(4) [OF assms w0(2)] w0(1) changed [OF _ unchanged(2)] by auto
    ultimately show ?thesis by auto
  next
    case (retry af j q x e w1 w2)
    obtain w0 where w0: "files_of w0 = files_of w" "get_auth_file (abi_host E K) c i w0 = (Inr af, w1)" "files_of w1 = files_of w"
      using get_until_keeps [OF assms(1) retry(1)] by blast
    note s = addressed_save [OF assms w0(2) retry(3)]
    have k: "others_kept (P i) (files_of w) (files_of w2)" "files_of w2 (P i) = files_of w (P i)" using s(1) s(2) [OF refl] w0(3) by simp_all
    show ?thesis using Suc.IH [OF retry(4)] others_kept_trans [OF k(1)] k(2) by metis
  next
    case (unsaved af j q x e e' w1)
    obtain w0 where w0: "get_auth_file (abi_host E K) c i w0 = (Inr af, w1)" "files_of w1 = files_of w"
      using get_until_keeps [OF assms(1) unsaved(1)] by blast
    show ?thesis using addressed_save(1) [OF assms w0(1) unsaved(3)] w0(2) unsaved(4) by simp
  next
    case (saved af j q x v w1 w2)
    obtain w0 where w0: "files_of w0 = files_of w" "get_auth_file (abi_host E K) c i w0 = (Inr af, w1)" "files_of w1 = files_of w"
      using get_until_keeps [OF assms(1) saved(1)] by blast
    note s = addressed_save [OF assms w0(2) saved(3)]
    have w': "files_of w' = files_of w2" by (rule wait_keeps [OF saved(4)])
    have "\<exists>j. files_of w' (P i) = Some (RegularFile j mode) \<and> same_document raw j"
      if m: "files_of w (P i) = Some (RegularFile bs mode)" "override_of raw bs m" for raw bs mode m
    proof -
      have "bs = af_JSON af" using m(1) addressed_get(4) [OF assms w0(2)] w0(1) by auto
      then have "same_document raw j" using changed [OF _ saved(2)] m(2) s(4) [OF refl] by auto
      then show ?thesis using s(3) [OF refl] m(1) w0(3) w' by auto
    qed
    then show ?thesis using s(1) w' w0(3) by simp
  qed
qed auto

section \<open>As before\<close>

text \<open>Every file without a marker is there with its permissions, and it is the same document.\<close>

definition as_before :: "files \<Rightarrow> files \<Rightarrow> bool" where
  "as_before fs fs' \<longleftrightarrow> (\<forall>p raw mode. fs p = Some (RegularFile raw mode) \<longrightarrow> unmarked raw \<longrightarrow>
     (\<exists>raw'. fs' p = Some (RegularFile raw' mode) \<and> same_document raw raw'))"

lemma as_before_refl: "as_before fs fs"
  by (simp add: as_before_def)

lemma as_before_trans: "as_before b c \<Longrightarrow> as_before a b \<Longrightarrow> as_before a c"
  unfolding as_before_def by (meson same_document_trans same_document_unmarked)

lemma kept_as_before: "others_kept p fs fs' \<Longrightarrow> fs' p = fs p \<Longrightarrow> as_before fs fs'"
  unfolding as_before_def others_kept_def by (metis option.distinct(1) same_document_refl)

lemma marked_as_before:
  "others_kept p fs fs' \<Longrightarrow> (\<And>raw mode. fs p = Some (RegularFile raw mode) \<Longrightarrow> \<not> unmarked raw) \<Longrightarrow> as_before fs fs'"
  unfolding as_before_def others_kept_def by (metis option.distinct(1) same_document_refl)

text \<open>Begun and given back.\<close>

lemma override_undone:
  assumes "quiet_os E" "addressed K P"
    "begin_priority_override (abi_host E K) c cfg runID a p w = Some ((lease, e), w1)" "files_of w2 = files_of w1"
    "restore_priority_override (abi_host E K) cfg runID' lease w2 = Some (None, w3)"
  shows "as_before (files_of w) (files_of w3)"
proof -
  let ?p = "P (au_AuthIndex a)"
  have b: "case lease of
       None \<Rightarrow> others_kept ?p (files_of w) (files_of w1) \<and> files_of w1 ?p = files_of w ?p
     | Some l \<Rightarrow> pl_AuthIndex l = au_AuthIndex a \<and> overridden ?p (files_of w) (files_of w1) (pl_Marker l)"
  proof (cases "begin_priority_override (abi_host E K) c cfg runID a p w = begin_attempts (abi_host E K) c cfg runID a p 3 w")
    case True
    from begin_attempts_files [OF assms(1,2) assms(3) [unfolded True]] show ?thesis .
  next
    case False
    with assms(3) show ?thesis by (auto simp: begin_priority_override_def split: if_splits)
  qed
  show ?thesis
  proof (cases lease)
    case None
    with assms(4,5) have "files_of w3 = files_of w1" by (simp add: restore_priority_override_def)
    with b None kept_as_before [of ?p] show ?thesis by simp
  next
    case (Some l)
    let ?t = "if cf_PrioritySyncTimeout cfg \<le> 0 then defaultPrioritySyncTimeout else cf_PrioritySyncTimeout cfg"
    from assms(5) Some obtain x s w4 where
      r: "restore_attempts (abi_host E K) (with_timeout background (w_now w2) ?t) ?t (pl_AuthIndex l) (pl_AuthID l) (Some (pl_Marker l)) 3 w2 = Some (Inr (x, s), w4)"
         "w3 = write_log (abi_host E K) (restored_log runID' l x) w4"
      by (auto simp: restore_priority_override_def restore_priority_file_def Let_def split: option.splits sum.splits)
    from b Some obtain raw modified mode where o: "others_kept ?p (files_of w) (files_of w1)" "files_of w ?p = Some (RegularFile raw mode)"
      "files_of w1 ?p = Some (RegularFile modified mode)" "override_of raw modified (pl_Marker l)" "pl_AuthIndex l = au_AuthIndex a"
      by (auto simp: overridden_def)
    note f = restore_attempts_files [OF assms(1,2) r(1), unfolded o(5) assms(4)]
    obtain j where j: "files_of w4 ?p = Some (RegularFile j mode)" "same_document raw j" using f o(3,4) by blast
    have k: "others_kept ?p (files_of w) (files_of w3)" using others_kept_trans [OF o(1)] f by (simp add: r(2) calls_keep_files)
    have j3: "files_of w3 ?p = Some (RegularFile j mode)" using j(1) by (simp add: r(2) calls_keep_files)
    show ?thesis unfolding as_before_def
    proof (intro allI impI)
      fix q bs md
      assume q: "files_of w q = Some (RegularFile bs md)"
      show "\<exists>raw'. files_of w3 q = Some (RegularFile raw' md) \<and> same_document bs raw'"
      proof (cases "q = ?p")
        case True
        with q o(2) j(2) j3 show ?thesis by auto
      next
        case False
        with q k show ?thesis by (auto simp: others_kept_def)
      qed
    qed
  qed
qed

section \<open>Runs\<close>

lemma settled_fatal:
  "settle_target H c cfg index ntargets fatal (report, result) w = ((stop, rep), w') \<Longrightarrow> fatal \<Longrightarrow> rr_Error rep = rr_Error report \<and> stop"
  using settle_target_spec(3,4) [of H c cfg index ntargets fatal "(report, result)" w stop rep w'] by (simp add: recorded_def skip_rest_def)

lemma attempt_target_files:
  assumes "quiet_os E" "addressed K P"
    "attempt_target (abi_host E K) c cfg body highest found index ntargets a report w = Some ((stop, rep), w')"
  shows "rr_Error rep = restore_failure_report \<and> stop \<or> as_before (files_of w) (files_of w')"
  using assms(3)
proof (cases rule: attempt_target_cases)
  case (unapplied lease e w1 re w2)
  show ?thesis
  proof (cases re)
    case None
    from override_undone [OF assms(1,2) unapplied(1) refl unapplied(2) [unfolded None]] settle_keeps [OF unapplied(3)] show ?thesis by simp
  next
    case (Some x)
    obtain rp rs where b: "begin_failed re report ((attempt_result cfg a (desired_priority_for_auth a highest found))\<lparr>ar_DurationMS := elapsed_ms (w_now w) w2\<rparr>) = (rp, rs)"
      by force
    show ?thesis using settled_fatal [OF unapplied(3) [unfolded b]] begin_failed_spec [OF b] Some by simp
  qed
next
  case (executed lease w1 response w2 re w3)
  show ?thesis
  proof (cases re)
    case None
    from override_undone [OF assms(1,2) executed(1) calls_keep_files(3) [OF executed(2)] executed(3) [unfolded None]] settle_keeps [OF executed(4)]
    show ?thesis by simp
  next
    case (Some x)
    obtain rp rs where b: "judge_response re response report ((attempt_result cfg a (desired_priority_for_auth a highest found))\<lparr>ar_DurationMS := elapsed_ms (w_now w) w3\<rparr>) = (rp, rs)"
      by force
    show ?thesis using settled_fatal [OF executed(4) [unfolded b]] judge_response_spec [OF b] Some by simp
  qed
qed

lemma run_target_files:
  assumes "quiet_os E" "addressed K P"
    "run_target (abi_host E K) c cfg body highest found index ntargets listed report w = Some ((stop, rep), w')"
  shows "rr_Error rep = restore_failure_report \<and> stop \<or> as_before (files_of w) (files_of w')"
proof -
  obtain g w1 where g: "get_runtime_auth (abi_host E K) c (au_AuthIndex listed) w = (g, w1)" by force
  have "(\<exists>a. attempt_target (abi_host E K) c cfg body highest found index ntargets a report w1 = Some ((stop, rep), w')) \<or>
      (\<exists>report1 result. next_target c cfg index ntargets (record_result (abi_host E K) cfg report1 result w1) = ((stop, rep), w'))"
    using assms(3) g by (auto simp: run_target_def Let_def split: sum.splits if_splits prod.splits bool.splits)
  then show ?thesis
  proof (elim disjE exE)
    fix a
    assume "attempt_target (abi_host E K) c cfg body highest found index ntargets a report w1 = Some ((stop, rep), w')"
    from attempt_target_files [OF assms(1,2) this] show ?thesis by (simp add: calls_keep_files(2) [OF g])
  next
    fix report1 result
    assume n: "next_target c cfg index ntargets (record_result (abi_host E K) cfg report1 result w1) = ((stop, rep), w')"
    obtain rp w2 where r: "record_result (abi_host E K) cfg report1 result w1 = (rp, w2)" by force
    have "files_of w' = files_of w"
      using next_keeps [OF n [unfolded r]] idle_keeps(6) [OF r] calls_keep_files(2) [OF g] by simp
    then show ?thesis by (simp add: as_before_refl)
  qed
qed

lemma run_targets_files:
  assumes "quiet_os E" "addressed K P"
  shows "run_targets (abi_host E K) c cfg body highest found index ntargets targets report w = Some (rep, w') \<Longrightarrow>
    rr_Error rep = restore_failure_report \<or> as_before (files_of w) (files_of w')"
proof (induction targets arbitrary: index report w)
  case (Cons listed targets)
  show ?case
  proof (cases "ctx_err c (w_now w) \<noteq> None")
    case True
    with Cons.prems show ?thesis by (simp add: as_before_refl)
  next
    case False
    with Cons.prems obtain stop report1 w1 where
      t: "run_target (abi_host E K) c cfg body highest found index ntargets listed report w = Some ((stop, report1), w1)"
      by (auto split: option.splits)
    note f = run_target_files [OF assms t]
    show ?thesis
    proof (cases stop)
      case True
      with Cons.prems False t f show ?thesis by auto
    next
      case go: False
      with Cons.prems False t have "run_targets (abi_host E K) c cfg body highest found (index + 1) ntargets targets report1 w1 = Some (rep, w')" by simp
      from Cons.IH [OF this] f go show ?thesis using as_before_trans by blast
    qed
  qed
qed (simp add: as_before_refl)

lemma run_listed_files:
  assumes "quiet_os E" "addressed K P" "run_listed (abi_host E K) c cfg options auths report w = Some (rep, w')"
  shows "rr_Error rep = restore_failure_report \<or> as_before (files_of w) (files_of w')"
  using assms(3)
proof (cases rule: run_listed_cases)
  case duplicates
  show ?thesis using idle_keeps(4) [OF duplicates(2)] by (simp add: idle_keeps(2) as_before_refl)
next
  case (dry highest found)
  show ?thesis using idle_keeps(4) [OF dry(3)] by (simp add: idle_keeps(2) as_before_refl)
next
  case (executed body highest found report2 w2)
  show ?thesis using run_targets_files [OF assms(1,2) executed(4)] idle_keeps(4) [OF executed(5)] finish_run_spec(1) [OF executed(5)]
    by (simp add: idle_keeps(2))
qed

text \<open>The recovery of stale overrides only touches documents with a marker.\<close>

lemma recover_loop_files:
  assumes "quiet_os E" "addressed K P"
  shows "recover_loop (abi_host E K) c cfg changed seen errs auths w = Some (r, w') \<Longrightarrow> as_before (files_of w) (files_of w')"
proof (induction auths arbitrary: changed seen errs w)
  case (Cons a auths)
  let ?H = "abi_host E K"
  obtain g w1 where g: "get_auth_file ?H c (au_AuthIndex a) w = (g, w1)" by force
  have w1: "files_of w1 = files_of w" using get_file_keeps [OF assms(1) g] by blast
  have "w' = w \<or> (\<exists>ch sn es. recover_loop ?H c cfg ch sn es auths w = Some (r, w')) \<or> (\<exists>ch sn es. recover_loop ?H c cfg ch sn es auths w1 = Some (r, w')) \<or>
      (\<exists>f m res w2 w3 ch sn es. g = Inr f \<and> priority_override_marker_from_json (af_JSON f) = Inr (Some m) \<and>
         restore_priority_file ?H c (cf_PrioritySyncTimeout cfg) (au_AuthIndex a) (au_ID a) (Some m) w1 = Some (res, w2) \<and>
         files_of w3 = files_of w2 \<and> recover_loop ?H c cfg ch sn es auths w3 = Some (r, w'))"
    using Cons.prems g calls_keep_files(4) [of E K] by (auto simp: Let_def split: option.splits sum.splits if_splits; blast)
  then show ?case
  proof (elim disjE exE conjE)
    fix f m res w2 w3 ch sn es
    assume f: "g = Inr f" "priority_override_marker_from_json (af_JSON f) = Inr (Some m)"
      and rs: "restore_priority_file ?H c (cf_PrioritySyncTimeout cfg) (au_AuthIndex a) (au_ID a) (Some m) w1 = Some (res, w2)"
      and rest: "files_of w3 = files_of w2" "recover_loop ?H c cfg ch sn es auths w3 = Some (r, w')"
    have k: "others_kept (P (au_AuthIndex a)) (files_of w) (files_of w2)"
      using restore_attempts_files [OF assms rs [unfolded restore_priority_file_def]] w1 by simp
    have "\<not> unmarked (af_JSON f)"
      using f(2) by (auto simp: priority_override_marker_from_json_def unmarked_def rbind_Inr_iff split: option.splits)
    then have "as_before (files_of w) (files_of w2)"
      using addressed_get(4) [OF assms g [unfolded f(1)]] by (intro marked_as_before [OF k]) auto
    moreover have "as_before (files_of w2) (files_of w')"
      using Cons.IH [OF rest(2)] rest(1) by simp
    ultimately show ?thesis by (rule as_before_trans [rotated])
  qed (metis Cons.IH w1 as_before_refl)+
qed (simp add: as_before_refl)

lemma execute_run_files:
  assumes "quiet_os E" "addressed K P" "execute_run (abi_host E K) lockWait c cfg options report w = Some (rep, w')"
    "rr_Error rep \<noteq> restore_failure_report"
  shows "as_before (files_of w) (files_of w')"
proof -
  let ?H = "abi_host E K"
  define w0 where "w0 = (write_log ?H (started_log cfg report) w)\<lparr>w_now := w_now (write_log ?H (started_log cfg report) w) + int lockWait\<rparr>"
  have w0: "files_of w0 = files_of w" by (simp add: w0_def idle_keeps(3) calls_keep_files)
  obtain l w1 where l: "list_auths ?H c w0 = (l, w1)" by force
  note w1 = calls_keep_files(1) [OF l]
  note run = assms(3) [unfolded execute_run_def Let_def, folded w0_def, unfolded l prod.case]
  show ?thesis
  proof (cases l)
    case (Inl e)
    with run have "abort_run ?H c report ''host auth listing failed'' w1 = (rep, w')" by simp
    then show ?thesis using idle_keeps(5) [of E K c report _ w1 rep w'] w0 w1 by (simp add: as_before_refl)
  next
    case (Inr auths)
    from run Inr obtain ch es w2 where r: "recover_stale_priority_overrides ?H c cfg auths w1 = Some ((ch, es), w2)"
      by (auto split: option.splits)
    then have b: "as_before (files_of w) (files_of w2)"
      using recover_loop_files [OF assms(1,2)] w0 w1 unfolding recover_stale_priority_overrides_def by (fastforce split: option.splits)
    obtain l2 w3 where l2: "list_auths ?H c w2 = (l2, w3)" by force
    note w3 = calls_keep_files(1) [OF l2]
    have "(\<exists>msg. abort_run ?H c report msg w2 = (rep, w')) \<or> (\<exists>as. run_listed ?H c cfg options as report w2 = Some (rep, w')) \<or>
        (\<exists>msg. abort_run ?H c report msg w3 = (rep, w')) \<or> (\<exists>as. run_listed ?H c cfg options as report w3 = Some (rep, w'))"
      using run Inr r l2 by (cases es; cases l2; cases ch) (auto split: option.splits)
    then have "as_before (files_of w2) (files_of w')"
      using assms(4) w3 by (elim disjE exE) (auto simp: as_before_refl dest: idle_keeps(5) run_listed_files [OF assms(1,2)])
    from as_before_trans [OF this b] show ?thesis .
  qed
qed

section \<open>What a crash leaves behind\<close>

text \<open>An override is on the disk: the process that began it may be gone, and its lease with it. Or it is undone.\<close>

definition pending_at :: "string \<Rightarrow> bytes \<Rightarrow> nat \<Rightarrow> files \<Rightarrow> bool" where
  "pending_at p raw mode fs \<longleftrightarrow> (\<exists>modified m. fs p = Some (RegularFile modified mode) \<and> override_of raw modified m)"

definition undone_at :: "string \<Rightarrow> bytes \<Rightarrow> nat \<Rightarrow> files \<Rightarrow> bool" where
  "undone_at p raw mode fs \<longleftrightarrow> (\<exists>raw'. fs p = Some (RegularFile raw' mode) \<and> same_document raw raw')"

definition recoverable :: "auth \<Rightarrow> bool" where
  "recoverable a \<longleftrightarrow> \<not> au_RuntimeOnly a \<and> equal_fold_ascii (trim_space (au_Source a)) ''file'' \<and> trim_space (au_AuthIndex a) \<noteq> []"

lemma override_facts:
  assumes "override_of raw modified m"
  shows "unmarked raw" "priority_override_marker_from_json modified \<noteq> Inr None"
proof -
  obtain i runID q where b: "build_priority_override_json raw i runID q = Inr (modified, m)"
    and v: "validate_auth_file_json modified = Inr ()" "int (length modified) \<le> maxAuthFileWriteBytes"
    using assms by (auto simp: override_of_def)
  then obtain fs where fs: "decode_auth_file_object raw = Inr fs" by (auto simp: build_priority_override_json_def rbind_Inr_iff)
  show "unmarked raw" using build_shape(1) [OF b fs] fs by (simp add: unmarked_def)
  obtain fs2 where fs2: "fields_ok fs2" "modified = marshal_fields fs2"
    "map_of fs2 = (map_of fs)(''priority'' \<mapsto> JNum (itoa q), priorityOverrideMarkerKey \<mapsto> marker_json m)"
    by (rule built_fields [OF b fs])
  obtain fs3 where fs3: "decode_auth_file_object modified = Inr fs3" "map_of fs3 = map_option compact_json \<circ> map_of fs2"
    using marshal_decode_if [OF fs2(1)] v fs2(2) by blast
  have mk: "map_of fs3 priorityOverrideMarkerKey = Some (compact_json (marker_json m))" by (simp add: fs3(2) fs2(3))
  show "priority_override_marker_from_json modified \<noteq> Inr None"
    by (cases "decode_priority_override_marker (compact_json (marker_json m))")
      (simp_all add: priority_override_marker_from_json_def fs3(1) mk rbind_def)
qed

lemma undone_stays: "as_before fs fs' \<Longrightarrow> unmarked raw \<Longrightarrow> undone_at p raw mode fs \<Longrightarrow> undone_at p raw mode fs'"
  unfolding as_before_def undone_at_def by (metis same_document_trans same_document_unmarked)

lemma recover_loop_errs: "recover_loop H c cfg changed seen errs auths w = Some ((ch, es), w') \<Longrightarrow> \<exists>more. es = errs @ more"
proof (induction auths arbitrary: changed seen errs w)
  case (Cons a auths)
  obtain g w1 where g: "get_auth_file H c (au_AuthIndex a) w = (g, w1)" by force
  have "(\<exists>more. es = errs @ more) \<or> (\<exists>changed seen more w. recover_loop H c cfg changed seen (errs @ more) auths w = Some ((ch, es), w'))"
    using Cons.prems g by (auto simp: Let_def split: option.splits sum.splits if_splits) (metis append_Nil2)+
  then show ?case using Cons.IH by fastforce
qed simp

text \<open>One step of a recovery that comes to its end without an error.\<close>

lemma recover_step:
  assumes "recover_loop H c cfg changed seen [] (a # auths) w = Some ((ch, []), w')"
  obtains (passed) "\<not> recoverable a" "recover_loop H c cfg changed seen [] auths w = Some ((ch, []), w')"
  | (again) f w1 where "get_auth_file H c (au_AuthIndex a) w = (Inr f, w1)" "priority_recovery_path_key (af_Path f) \<in> set seen"
      "priority_recovery_path_key (af_Path f) \<noteq> []" "recover_loop H c cfg changed seen [] auths w1 = Some ((ch, []), w')"
  | (clean) f w1 seen1 where "get_auth_file H c (au_AuthIndex a) w = (Inr f, w1)" "priority_override_marker_from_json (af_JSON f) = Inr None"
      "set seen1 \<subseteq> insert (priority_recovery_path_key (af_Path f)) (set seen)" "[] \<in> set seen1 \<Longrightarrow> [] \<in> set seen"
      "recover_loop H c cfg changed seen1 [] auths w1 = Some ((ch, []), w')"
  | (stale) f m x s w1 w2 ch1 seen1 lg where "get_auth_file H c (au_AuthIndex a) w = (Inr f, w1)"
      "set seen1 \<subseteq> insert (priority_recovery_path_key (af_Path f)) (set seen)" "[] \<in> set seen1 \<Longrightarrow> [] \<in> set seen"
      "restore_attempts H c (cf_PrioritySyncTimeout cfg) (au_AuthIndex a) (au_ID a) (Some m) 3 w1 = Some (Inr (x, s), w2)"
      "recover_loop H c cfg ch1 seen1 [] auths (write_log H lg w2) = Some ((ch, []), w')"
proof -
  have no: "recover_loop H c cfg ch1 seen1 (e # es) auths w1 \<noteq> Some ((ch, []), w')" for ch1 seen1 e es w1
    using recover_loop_errs [of H c cfg ch1 seen1 "e # es" auths w1 ch "[]" w'] by auto
  obtain g w1 where g: "get_auth_file H c (au_AuthIndex a) w = (g, w1)" by force
  note run = assms [unfolded recover_loop.simps g prod.case append_Nil]
  have live: "ctx_err c (w_now w) = None" using run by (cases "ctx_err c (w_now w)") auto
  show thesis
  proof (cases "recoverable a")
    case False
    then show thesis using run live passed by (auto simp: recoverable_def)
  next
    case True
    then have ok: "\<not> (au_RuntimeOnly a \<or> \<not> equal_fold_ascii (trim_space (au_Source a)) ''file'' \<or> trim_space (au_AuthIndex a) = [])"
      by (simp add: recoverable_def)
    note run = run [unfolded live option.case if_not_P [OF ok]]
    obtain f where f: "g = Inr f" using run no by (cases g) auto
    let ?key = "priority_recovery_path_key (af_Path f)"
    let ?seen = "if ?key \<noteq> [] then ?key # seen else seen"
    have seen: "set ?seen \<subseteq> insert ?key (set seen)" "[] \<in> set ?seen \<Longrightarrow> [] \<in> set seen" by (auto split: if_splits)
    show thesis
    proof (cases "?key \<noteq> [] \<and> ?key \<in> set seen")
      case True
      then show thesis using run f again [OF g [unfolded f]] by simp
    next
      case False
      note run = run [unfolded f sum.case Let_def if_not_P [OF False]]
      obtain mo where mo: "priority_override_marker_from_json (af_JSON f) = Inr mo"
        using run no by (cases "priority_override_marker_from_json (af_JSON f)") auto
      show thesis
      proof (cases mo)
        case None
        with run mo show thesis using clean [OF g [unfolded f] _ seen] by simp
      next
        case (Some m)
        note run = run [unfolded mo Some sum.case option.case]
        obtain res w2 where rs: "restore_priority_file H c (cf_PrioritySyncTimeout cfg) (au_AuthIndex a) (au_ID a) (Some m) w1 = Some (res, w2)"
          using run by (auto split: option.splits)
        note run = run [unfolded rs option.case prod.case]
        obtain x n where xn: "res = Inr (x, n)" using run no by (cases res) auto
        show thesis
          by (rule stale [where ?ch1.0 = "changed \<or> n" and lg = "recovered_log m a x", OF g [unfolded f] seen rs [unfolded xn restore_priority_file_def]], assumption) (rule run [unfolded xn sum.case prod.case])
      qed
    qed
  qed
qed

lemma recover_loop_undoes:
  assumes "quiet_os E" "addressed K P" "override_of raw modified m"
  shows "recover_loop (abi_host E K) c cfg changed seen [] auths w = Some ((ch, []), w') \<Longrightarrow>
    files_of w p = Some (RegularFile modified mode) \<Longrightarrow> a \<in> set auths \<Longrightarrow> recoverable a \<Longrightarrow> P (au_AuthIndex a) = p \<Longrightarrow>
    p \<notin> set seen \<Longrightarrow> [] \<notin> set seen \<Longrightarrow> undone_at p raw mode (files_of w')"
proof (induction auths arbitrary: changed seen w)
  case (Cons b auths)
  let ?H = "abi_host E K"
  have key: "priority_recovery_path_key (af_Path f) = [] \<or> priority_recovery_path_key (af_Path f) = P (au_AuthIndex b)"
      "files_of w1 = files_of w" "P (au_AuthIndex b) = p \<Longrightarrow> af_JSON f = modified"
    if "get_auth_file ?H c (au_AuthIndex b) w = (Inr f, w1)" for f w1
    using addressed_get [OF assms(1,2) that] Cons.prems(2)
    by (auto simp: priority_recovery_path_key_def auth_file_path_def Let_def)
  from Cons.prems(1) show ?case
  proof (cases rule: recover_step)
    case passed
    then have "a \<noteq> b" using Cons.prems(4) by blast
    then show ?thesis using Cons.IH [OF passed(2)] Cons.prems by simp
  next
    case (again f w1)
    have "P (au_AuthIndex b) \<noteq> p" using again(2,3) key(1) [OF again(1)] Cons.prems(6) by auto
    then have "a \<noteq> b" using Cons.prems(5) by blast
    then show ?thesis using Cons.IH [OF again(4)] Cons.prems key(2) [OF again(1)] by simp
  next
    case (clean f w1 seen1)
    have ne: "P (au_AuthIndex b) \<noteq> p" using key(3) [OF clean(1)] clean(2) override_facts(2) [OF assms(3)] by auto
    then have "a \<noteq> b" using Cons.prems(5) by blast
    moreover have "p \<notin> set seen1" "[] \<notin> set seen1" using clean(3,4) key(1) [OF clean(1)] ne Cons.prems(6,7) by auto
    ultimately show ?thesis using Cons.IH [OF clean(5)] Cons.prems key(2) [OF clean(1)] by simp
  next
    case (stale f mk x s w1 w2 ch1 seen1 lg)
    note rf = restore_attempts_files [OF assms(1,2) stale(4)]
    show ?thesis
    proof (cases "P (au_AuthIndex b) = p")
      case True
      then have "undone_at p raw mode (files_of w2)"
        using rf Cons.prems(2) assms(3) key(2) [OF stale(1)] by (auto simp: undone_at_def)
      moreover have "as_before (files_of w2) (files_of w')"
        using recover_loop_files [OF assms(1,2) stale(5)] by (simp add: calls_keep_files)
      ultimately show ?thesis using undone_stays override_facts(1) [OF assms(3)] by blast
    next
      case False
      then have "a \<noteq> b" using Cons.prems(5) by blast
      moreover have "files_of w2 p = files_of w p" using rf key(2) [OF stale(1)] Cons.prems(2) False by (auto simp: others_kept_def)
      moreover have "p \<notin> set seen1" "[] \<notin> set seen1" using stale(2,3) key(1) [OF stale(1)] False Cons.prems(6,7) by auto
      ultimately show ?thesis using Cons.IH [OF stale(5)] Cons.prems by (simp add: calls_keep_files)
    qed
  qed
qed simp

section \<open>The recovery at the start\<close>

text \<open>CLIProxyAPI lists a credential with a file of its own: every listing it answers shows one with this file.\<close>

definition lists_file :: "('j, 'x) cpa \<Rightarrow> (string \<Rightarrow> string) \<Rightarrow> string \<Rightarrow> bool" where
  "lists_file K P p \<longleftrightarrow> (\<forall>c now pins x result items.
     fst (cp_Call K c now AskList pins x) = Inr result \<longrightarrow> cp_Entries K result = Inr items \<longrightarrow>
     (\<exists>item \<in> set items. recoverable (auth_from_host item) \<and> P (he_AuthIndex item) = p))"

lemma listing_shows:
  assumes "lists_file K P p" "list_auths (abi_host E K) c w = (Inr auths, w')"
  shows "\<exists>a \<in> set auths. recoverable a \<and> P (au_AuthIndex a) = p"
proof -
  obtain result items where "fst (cp_Call K c (w_now w) AskList (br_Pins (w_host w)) (br_CPA (w_host w))) = Inr result"
      "cp_Entries K result = Inr items" "auths = map auth_from_host items"
    using assms(2) by (auto simp: list_auths_def ask_def abi_host_def consult_def ask_cpa_def abi_list_auths_def split: prod.splits sum.splits option.splits)
  moreover from this obtain item where "item \<in> set items" "recoverable (auth_from_host item)" "P (he_AuthIndex item) = p"
    using assms(1) unfolding lists_file_def by blast
  ultimately show ?thesis by (intro bexI [of _ "auth_from_host item"]) (simp_all add: auth_from_host_def)
qed

lemma recover_listed_undoes:
  assumes "quiet_os E" "addressed K P" "override_of raw modified m" "files_of w p = Some (RegularFile modified mode)"
    "a \<in> set auths" "recoverable a" "P (au_AuthIndex a) = p"
    "recover_listed (abi_host E K) current free c cfg auths w = Some (RecoveryResult None ch, w')"
  shows "undone_at p raw mode (files_of w')"
proof -
  let ?H = "abi_host E K"
  from assms(8) obtain b w1 where l: "lock_priority free c w = Some (b, w1)" by (auto simp: recover_listed_def split: option.splits)
  note run = assms(8) [unfolded recover_listed_def l option.case prod.case]
  have b: "b \<and> current (w_now w1) \<and> ctx_err c (w_now w1) = None"
    using run by (auto simp: give_up_def split: bool.splits if_splits)
  from run b obtain es w2 where r: "recover_loop ?H c cfg False [] [] auths w1 = Some ((ch, []), w2)" "files_of w' = files_of w2"
    by (cases "recover_loop ?H c cfg False [] [] auths w1")
      (auto simp: recover_stale_priority_overrides_def errors_join_def calls_keep_files split: if_splits)
  have "files_of w1 p = Some (RegularFile modified mode)" using assms(4) lock_host [OF l] by (simp add: files_of_def)
  from recover_loop_undoes [OF assms(1-3) r(1) this assms(5-7)] r(2) show ?thesis by simp
qed

lemma startup_recovery_undoes:
  assumes "quiet_os E" "addressed K P" "lists_file K P p" "override_of raw modified m" "files_of w p = Some (RegularFile modified mode)"
    "startup_recovery (abi_host E K) current free cancelled cfg w = Some (RecoveryResult None changed, w')"
  shows "undone_at p raw mode (files_of w')"
proof -
  let ?Q = "\<lambda>H w y. H = abi_host E K \<longrightarrow> files_of w p = Some (RegularFile modified mode) \<longrightarrow> (\<exists>ch. fst y = RecoveryResult None ch) \<longrightarrow>
      undone_at p raw mode (files_of (snd y))"
  have "?Q (abi_host E K) w (RecoveryResult None changed, w')"
  proof (rule recovery_loop.raw_induct [OF _ assms(6) [unfolded startup_recovery_def], of "\<lambda>H current free c cfg held w y. ?Q H w y"], intro impI)
    fix f H current free c cfg held w y
    assume ih: "\<And>H current free c cfg held w y. f H current free c cfg held w = Some y \<Longrightarrow> ?Q H w y"
      and body: "(if \<not> current (w_now w) then Some (RecoveryStale, w)
      else case list_auths H c w of
              (listing, w1) \<Rightarrow>
                if listing_ready listing (w_now w1) (note_listing listing (w_now w1) held)
                then recover_listed H current free c cfg (projr listing) w1
                else case wait_recovery_retry c w1 of
                        (again, w2) \<Rightarrow>
                          if again then f H current free c cfg (note_listing listing (w_now w1) held) w2
                          else Some (give_up H c w2)) = Some y"
      and H: "H = abi_host E K" and w: "files_of w p = Some (RegularFile modified mode)" and e: "\<exists>ch. fst y = RecoveryResult None ch"
    obtain listing w1 where l: "list_auths H c w = (listing, w1)" by force
    obtain again w2 where s: "wait_recovery_retry c w1 = (again, w2)" by force
    have k1: "files_of w1 p = Some (RegularFile modified mode)" using calls_keep_files(1) [OF l [unfolded H]] w by simp
    have k2: "files_of w2 p = Some (RegularFile modified mode)" using sleep_keeps [OF s [unfolded wait_recovery_retry_def]] k1 by simp
    have "listing_ready listing (w_now w1) (note_listing listing (w_now w1) held) \<and> recover_listed H current free c cfg (projr listing) w1 = Some y \<or>
        f H current free c cfg (note_listing listing (w_now w1) held) w2 = Some y"
      using body e by (auto simp: l s give_up_def split: if_splits)
    then show "undone_at p raw mode (files_of (snd y))"
    proof (elim disjE conjE)
      assume ready: "listing_ready listing (w_now w1) (note_listing listing (w_now w1) held)"
        and rl: "recover_listed H current free c cfg (projr listing) w1 = Some y"
      from ready obtain auths where a: "listing = Inr auths" by (auto simp: listing_ready_def split: sum.splits)
      obtain x where x: "x \<in> set auths" "recoverable x" "P (au_AuthIndex x) = p"
        using listing_shows [OF assms(3) l [unfolded H a]] by blast
      obtain ch w3 where y: "y = (RecoveryResult None ch, w3)" using e by (cases y) auto
      from recover_listed_undoes [OF assms(1,2) assms(4) k1 x rl [unfolded H a y sum.sel]] show ?thesis by (simp add: y)
    next
      assume "f H current free c cfg (note_listing listing (w_now w1) held) w2 = Some y"
      from ih [OF this] H k2 e show ?thesis by blast
    qed
  qed
  then show ?thesis using assms(5) by simp
qed

section \<open>The recovery of the next run\<close>

lemma execute_run_undoes:
  assumes "quiet_os E" "addressed K P" "lists_file K P p" "override_of raw modified m" "files_of w p = Some (RegularFile modified mode)"
    "execute_run (abi_host E K) lockWait c cfg options report w = Some (rep, w')" "rr_Error rep = []"
  shows "undone_at p raw mode (files_of w')"
proof -
  let ?H = "abi_host E K"
  define start where "start = (write_log ?H (started_log cfg report) w)\<lparr>w_now := w_now (write_log ?H (started_log cfg report) w) + int lockWait\<rparr>"
  have start: "files_of start = files_of w" by (simp add: start_def idle_keeps(3) calls_keep_files)
  obtain l w1 where l: "list_auths ?H c start = (l, w1)" by force
  note w1 = calls_keep_files(1) [OF l]
  note run = assms(6) [unfolded execute_run_def Let_def, folded start_def, unfolded l prod.case]
  have quit: "abort_run ?H c report msg v \<noteq> (rep, w')" if "msg \<noteq> []" for msg v
    using assms(7) that by (auto simp: abort_run_def finish_run_def Let_def)
  obtain auths where auths: "l = Inr auths" using run quit by (cases l) auto
  obtain a where a: "a \<in> set auths" "recoverable a" "P (au_AuthIndex a) = p"
    using listing_shows [OF assms(3) l [unfolded auths]] by blast
  note run = run [unfolded auths sum.case]
  from run obtain ch es w2 where r: "recover_stale_priority_overrides ?H c cfg auths w1 = Some ((ch, es), w2)"
    by (auto split: option.splits)
  have es: "es = None" using run quit unfolding r by (cases es) auto
  note run = run [unfolded r es option.case prod.case]
  have "recover_loop ?H c cfg False [] [] auths w1 = Some ((ch, []), w2)"
    using r es by (auto simp: recover_stale_priority_overrides_def errors_join_def split: option.splits if_splits)
  then have u: "undone_at p raw mode (files_of w2)"
    using recover_loop_undoes [OF assms(1,2,4)] assms(5) a w1 start by simp
  obtain l2 w3 where l2: "list_auths ?H c w2 = (l2, w3)" by force
  have "\<exists>as v. files_of v = files_of w2 \<and> run_listed ?H c cfg options as report v = Some (rep, w')"
    using run quit calls_keep_files(1) [OF l2] l2 by (cases ch; cases l2) auto
  then obtain as v where v: "files_of v = files_of w2" "run_listed ?H c cfg options as report v = Some (rep, w')" by blast
  have "rr_Error rep \<noteq> restore_failure_report" using assms(7) by (simp add: restore_failure_report_def)
  then have "as_before (files_of w2) (files_of w')" using run_listed_files [OF assms(1,2) v(2)] v(1) by simp
  from undone_stays [OF this override_facts(1) [OF assms(4)] u] show ?thesis .
qed

end
