(* ===== verification/Plugin_Promises.thy ===== *)
theory Plugin_Promises imports Restored_Files begin

text \<open>
  What the plugin promises to the owner of the credentials, for the runs and the recovery at the start on the host of
  \<^verbatim>\<open>cmd/cpa-auto-refresh-quota/main.go\<close>, and a small CLIProxyAPI with one credential on which they are tried.
\<close>

section \<open>Properties\<close>

text \<open>C1. A run leaves no trace. On a disk nobody else writes to, with a CLIProxyAPI that names one file for each credential: when a run
  does not report a failed restoration, every file that held no marker before it holds the same document after it, with the
  same permissions; the priorities were raised and given back, whatever else failed, was cancelled or was refused
  on the way.\<close>

theorem run_leaves_no_trace:
  assumes "quiet_os E" "addressed K P" "execute_run (abi_host E K) lockWait c cfg options report w = Some (rep, w')"
    "rr_Error rep \<noteq> restore_failure_report"
  shows "as_before (files_of w) (files_of w')"
  by (rule execute_run_files [OF assms])

text \<open>C2. A crash is undone. Whenever the process ended, with the override of a credential on the disk: a recovery at the start
  that reports success, and a run that reports no error, of a CLIProxyAPI that lists the credential, have put back the
  document the override had replaced, with its permissions.\<close>

theorem crashed_override_undone:
  assumes "quiet_os E" "addressed K P" "lists_file K P p" "pending_at p raw mode (files_of w)"
    "startup_recovery (abi_host E K) current free cancelled cfg w = Some (RecoveryResult None changed, w') \<or>
     execute_run (abi_host E K) lockWait c cfg options report w = Some (rep, w') \<and> rr_Error rep = []"
  shows "undone_at p raw mode (files_of w')"
proof -
  obtain modified m where o: "override_of raw modified m" "files_of w p = Some (RegularFile modified mode)"
    using assms(4) by (auto simp: pending_at_def)
  from assms(5) show ?thesis
  proof (elim disjE conjE)
    assume "startup_recovery (abi_host E K) current free cancelled cfg w = Some (RecoveryResult None changed, w')"
    from startup_recovery_undoes [OF assms(1-3) o this] show ?thesis .
  next
    assume "execute_run (abi_host E K) lockWait c cfg options report w = Some (rep, w')" "rr_Error rep = []"
    from execute_run_undoes [OF assms(1-3) o this] show ?thesis .
  qed
qed

text \<open>C3. Credentials survive. On a disk nobody else writes to, whatever a run or the recovery at the start does, whatever its
  host answers, whichever system call fails and however it ends: every file that was there is there with its
  permissions, unchanged, or it is a credential and still has every member it had, with the same value, but for the
  priority and the marker of the override.\<close>

theorem credentials_survive:
  assumes "quiet_os E"
    "execute_run (abi_host E K) lockWait c cfg options report w = Some (rep, w') \<or>
     startup_recovery (abi_host E K) current free cancelled cfg w = Some (r, w')"
  shows "credentials_kept (files_of w) (files_of w')"
  using assms(2) moves_keep_credentials [OF assms(1)] execute_run_moves startup_recovery_moves by blast

section \<open>A small host\<close>

text \<open>
  Two credentials, one of them with a file. A listing takes three seconds. The priorities the runtime publishes for the first
  one are given, one for each question; after that it is 2. No random numbers are to be had, so that no token can be made.
\<close>

definition sample_entry :: "int \<Rightarrow> host_entry" where
  "sample_entry p = \<lparr> he_ID = ''id'', he_AuthIndex = ''auth-1'', he_Provider = ''p'', he_Status = ''active'', he_Disabled = False,
     he_Unavailable = False, he_RuntimeOnly = False, he_Source = ''file'', he_Priority = p \<rparr>"

definition other_entry :: host_entry where
  "other_entry = \<lparr> he_ID = ''id2'', he_AuthIndex = ''auth-2'', he_Provider = ''p'', he_Status = ''active'', he_Disabled = False,
     he_Unavailable = False, he_RuntimeOnly = True, he_Source = ''env'', he_Priority = 9 \<rparr>"

definition sample_cpa :: "int list \<Rightarrow> (int, nat) cpa" where
  "sample_cpa ps = \<lparr> cp_Call = (\<lambda>c now q pins n.
       (Inr (case q of AskRuntime _ \<Rightarrow> (if n < length ps then ps ! n else 2) | _ \<Rightarrow> 0), (if q = AskList then 3000000000 else 0), pins,
        (case q of AskRuntime _ \<Rightarrow> n + 1 | _ \<Rightarrow> n))),
     cp_Entries = (\<lambda>_. Inr [sample_entry 2, other_entry]), cp_Entry = (\<lambda>p. Inr (sample_entry p)),
     cp_File = (\<lambda>_. Inr \<lparr> ag_AuthIndex = ''auth-1'', ag_Name = ''a.json'', ag_Path = ''/auth/a.json'' \<rparr>),
     cp_Response = (\<lambda>_. Inl (ErrNew ''none'')), cp_Random = (\<lambda>_ _ _. Inl (ErrNew ''none'')) \<rparr>"

abbreviation small_host :: "int list \<Rightarrow> nat bridge host" where
  "small_host ps \<equiv> abi_host (calm sample_os) (sample_cpa ps)"

definition sample_path :: string where
  "sample_path = ''/auth/a.json''"

definition sample_world :: "bytes \<Rightarrow> nat bridge world" where
  "sample_world raw = \<lparr> w_now = 0, w_host = \<lparr> br_Disk = \<lparr> dk_Files = [sample_path \<mapsto> RegularFile raw 384], dk_Now = 0, dk_Seen = [] \<rparr>,
     br_Pins = newAuthPinRegistry, br_CPA = 0 \<rparr>, w_trace = [] \<rparr>"

text \<open>The document in the file, the questions put to the runtime so far, and the time.\<close>

definition stands :: "bytes \<Rightarrow> nat \<Rightarrow> instant \<Rightarrow> nat bridge world \<Rightarrow> bool" where
  "stands bs n t w \<longleftrightarrow> files_of w = [sample_path \<mapsto> RegularFile bs 384] \<and> br_CPA (w_host w) = n \<and> w_now w = t"

lemma sample_stands: "stands raw 0 0 (sample_world raw)"
  by (simp add: stands_def sample_world_def files_of_def)

definition small_auth :: "int \<Rightarrow> auth" where
  "small_auth p = auth_from_host (sample_entry p)"

definition other_auth :: auth where
  "other_auth = auth_from_host other_entry"

lemma small_fields:
  "au_ID (small_auth p) = ''id''" "au_AuthIndex (small_auth p) = ''auth-1''" "au_Priority (small_auth p) = p" "au_Source (small_auth p) = ''file''"
  "\<not> au_RuntimeOnly (small_auth p)" "au_RuntimeOnly other_auth"
  by (simp_all add: small_auth_def other_auth_def auth_from_host_def sample_entry_def other_entry_def)

lemma small_strings:
  "trim_space ''auth-1'' = ''auth-1''" "trim_space ''id'' = ''id''" "trim_space ''a.json'' \<noteq> []" "equal_fold_ascii (trim_space ''file'') ''file''"
  by code_simp+

lemma sample_quiet: "quiet_os (calm sample_os)"
  by (rule calm_quiet)

lemma sample_addressed: "addressed (sample_cpa ps) (\<lambda>_. sample_path)"
  by (simp add: addressed_def sample_cpa_def sample_path_def sample_texts)

lemma sample_lists: "lists_file (sample_cpa ps) (\<lambda>_. sample_path) sample_path"
  using small_fields(2,4,5) [of 2] small_strings(1,4)
  by (simp add: lists_file_def sample_cpa_def recoverable_def small_auth_def)

text \<open>The documents: the override of \<^const>\<open>sample_document\<close>, its members, and what is put back.\<close>

definition sample_text :: bytes where
  "sample_text = quoted (''{`_cpa_auto_refresh_quota_priority_override`:{`version`:1,`owner`:`cpa-auto-refresh-quota`,`run_id`:`run-1`,`auth_index`:`auth-1`,'' @
     ''`override_priority`:9,`original_priority_present`:true,`original_priority`:2,`original_file_priority`:2},`priority`:9,`type`:1}'')"

definition sample_mark :: marker where
  "sample_mark = \<lparr> mk_Version = 1, mk_Owner = ''cpa-auto-refresh-quota'', mk_RunID = ''run-1'', mk_AuthIndex = ''auth-1'', mk_OverridePriority = 9,
     mk_OriginalPriorityPresent = True, mk_OriginalPriority = Some (JNum ''2''), mk_OriginalFilePriority = 2 \<rparr>"

definition sample_members :: fields where
  "sample_members = [(''_cpa_auto_refresh_quota_priority_override'', marker_json sample_mark), (''priority'', JNum ''9''), (''type'', JNum ''1'')]"

definition sample_put_back :: bytes where
  "sample_put_back = quoted ''{`priority`:2,`type`:1}''"

lemma sample_built_text: "build_priority_override_json sample_document ''auth-1'' ''run-1'' 9 = Inr (sample_text, sample_mark)"
  by code_simp

lemma sample_text_ok: "validate_auth_file_json sample_text = Inr ()" "int (length sample_text) \<le> maxAuthFileWriteBytes"
  by code_simp+

lemma sample_text_members: "decode_auth_file_object sample_text = Inr sample_members"
  by code_simp

lemma sample_mark_read: "decode_priority_override_marker (marker_json sample_mark) = Inr sample_mark"
proof -
  have "valid_utf8 ''run-1''" "valid_utf8 ''auth-1''" "trim_space ''auth-1'' \<noteq> []" "wf_json (JNum ''2'')" by code_simp+
  then have "marker_ok sample_mark"
    by (simp add: marker_ok_def sample_mark_def priorityOverrideVersion_def priorityOverrideOwner_def int64_min_def int64_max_def)
  then have "decode_priority_override_marker (compact_json (marker_json sample_mark)) = Inr (compact_marker sample_mark)" by (rule decode_marker_json)
  moreover have "compact_json (marker_json sample_mark) = marker_json sample_mark" by code_simp
  ultimately show ?thesis by (simp add: compact_marker_def sample_mark_def)
qed

lemma sample_mark_undone: "apply_restore sample_text sample_members True sample_mark = (sample_put_back, 2, True, False)"
  by code_simp

lemma sample_put_back_ok: "validate_auth_file_json sample_put_back = Inr ()" "int (length sample_put_back) \<le> maxAuthFileWriteBytes"
  "trim_space sample_put_back \<noteq> []"
  by code_simp+

lemma sample_document_ok: "validate_auth_file_json sample_document = Inr ()" "int (length sample_document) \<le> maxAuthFileWriteBytes"
  "priority_override_marker_from_json sample_document = Inr None"
  by code_simp+

lemma sample_text_trim: "trim_space sample_text \<noteq> []"
  by code_simp

lemma sample_key: "map_of sample_members priorityOverrideMarkerKey = Some (marker_json sample_mark)"
  by (simp add: sample_members_def priorityOverrideMarkerKey_def)

lemma sample_marked: "priority_override_marker_from_json sample_text = Inr (Some sample_mark)"
  by (simp add: priority_override_marker_from_json_def sample_text_members sample_key sample_mark_read)

lemma sample_undone: "restore_priority_override_json sample_text (Some sample_mark) = Inr (sample_put_back, 2, True, False)"
  by (simp add: restore_priority_override_json_def sample_text_members sample_key sample_mark_read sample_mark_undone)

section \<open>The calls of the small host\<close>

definition sample_auth_file :: "bytes \<Rightarrow> auth_file" where
  "sample_auth_file bs = \<lparr> af_AuthIndex = ''auth-1'', af_Name = ''a.json'', af_Path = sample_path, af_JSON = bs, af_ExpectedSHA256 = auth_file_sha256 bs \<rparr>"

lemma small_readable: "fs path = Some (RegularFile raw mode) \<Longrightarrow> int (length raw) \<le> maxAuthFileWriteBytes \<Longrightarrow> readable fs path = Inr raw"
  by (simp add: readable_def eval_nat_numeral)

lemma sample_random: "os_Random (calm sample_os) n = ''1''"
  by (simp add: calm_def sample_os_def)

lemmas disk_steps = validate_physical_auth_file_def inspect_file_def sample_call after_def failing_def unless_done_def
  read_auth_file_bounded_def small_readable Let_def

lemmas small_calls = host_calls write_log_def ask_def abi_host_def consult_def ask_cpa_def on_disk_def sample_cpa_def

lemma small_get:
  assumes "ctx_err c t = None" "stands bs n t w" "validate_auth_file_json bs = Inr ()" "int (length bs) \<le> maxAuthFileWriteBytes"
  shows "\<exists>w1. get_auth_file (small_host ps) c ''auth-1'' w = (Inr (sample_auth_file bs), w1) \<and> stands bs n t w1"
proof -
  have "dk_Files (br_Disk (w_host w)) = [sample_path \<mapsto> RegularFile bs 384]" "ctx_err c (w_now w) = None"
    using assms(1,2) by (auto simp: stands_def files_of_def)
  then show ?thesis using assms
    by (simp add: small_calls abi_get_auth_file_def get_physical_file_def small_strings sample_texts disk_steps sample_auth_file_def sample_path_def stands_def
        files_of_def)
qed

lemma small_until:
  assumes "ctx_err c t = None" "stands bs n t w" "validate_auth_file_json bs = Inr ()" "int (length bs) \<le> maxAuthFileWriteBytes"
  shows "\<exists>w1. get_auth_file_until (small_host ps) c ''auth-1'' w = Some (Inr (sample_auth_file bs), w1) \<and> stands bs n t w1"
proof -
  obtain w1 where "get_auth_file (small_host ps) c ''auth-1'' w = (Inr (sample_auth_file bs), w1)" "stands bs n t w1"
    using small_get [OF assms] by blast
  then show ?thesis by (subst get_auth_file_until.simps) simp
qed

lemma small_save:
  assumes "ctx_err c t = None" "stands bs n t w" "int (length bs) \<le> maxAuthFileWriteBytes"
    "validate_auth_file_json j = Inr ()" "int (length j) \<le> maxAuthFileWriteBytes" "trim_space j \<noteq> []"
  shows "\<exists>w1. save_auth_file (small_host ps) c ((sample_auth_file bs)\<lparr>af_JSON := j\<rparr>) w = (Inr (), w1) \<and> stands j n t w1"
proof -
  have "dk_Files (br_Disk (w_host w)) = [sample_path \<mapsto> RegularFile bs 384]" "ctx_err c (w_now w) = None"
    using assms(1,2) by (auto simp: stands_def files_of_def)
  then show ?thesis using assms
    by (simp add: small_calls save_physical_file_def sample_auth_file_def sample_path_def small_strings sample_texts
        disk_steps hash_expected_self atomic_write_auth_file_def create_temp_def fill_and_replace_def change_file_def sync_file_def
        replace_auth_file_cas_def rename_file_def remove_file_def sync_directory_def sample_random stands_def files_of_def fun_eq_iff)
qed

lemma small_list:
  "ctx_err c t = None \<Longrightarrow> stands bs n t w \<Longrightarrow>
     \<exists>w1. list_auths (small_host ps) c w = (Inr [small_auth 2, other_auth], w1) \<and> stands bs n (t + 3 * second) w1"
  by (simp add: small_calls abi_list_auths_def small_auth_def other_auth_def stands_def files_of_def second_def)

lemma small_runtime:
  "ctx_err c t = None \<Longrightarrow> stands bs n t w \<Longrightarrow>
     \<exists>w1. get_runtime_auth (small_host ps) c ''auth-1'' w = (Inr (small_auth (if n < length ps then ps ! n else 2)), w1) \<and> stands bs (n + 1) t w1"
  by (simp add: small_calls abi_get_runtime_auth_def small_auth_def stands_def files_of_def)

lemma small_log: "stands bs n t w \<Longrightarrow> stands bs n t (write_log (small_host ps) e w)"
  by (simp add: small_calls stands_def files_of_def ctx_err_def ctx_end_def background_def earlier_def)

lemma small_events: "stands bs n t (note_event ev w) = stands bs n t w" "stands bs n t (publish_report r w) = stands bs n t w"
  by (simp_all add: stands_def idle_keeps) (simp_all add: publish_report_def note_event_def)

lemma timeout_open: "ctx_err c now = None \<Longrightarrow> 0 < d \<Longrightarrow> ctx_err (with_timeout c now d) now = None"
  by (cases "cx_CancelledAt c"; cases "cx_Deadline c") (auto simp: ctx_err_def ctx_end_def with_timeout_def earlier_def split: if_splits)

lemma small_wait:
  assumes "ctx_err c t = None" "stands bs n t w" "p = (if n < length ps then ps ! n else 2)"
  shows "\<exists>w1. wait_for_runtime_priority (small_host ps) c d ''auth-1'' ''id'' p w = Some (Inr (small_auth p), w1) \<and> stands bs (n + 1) t w1"
proof -
  let ?d = "if d \<le> 0 then defaultPrioritySyncTimeout else d"
  have now: "w_now w = t" using assms(2) by (simp add: stands_def)
  have p: "priority_published ''auth-1'' ''id'' p (small_auth p)" by (simp add: priority_published_def small_fields)
  have "ctx_err (with_timeout c t ?d) t = None"
    using assms(1) by (intro timeout_open) (simp_all add: defaultPrioritySyncTimeout_def second_def)
  then obtain w1 where w1: "get_runtime_auth (small_host ps) (with_timeout c t ?d) ''auth-1'' w = (Inr (small_auth p), w1)" "stands bs (n + 1) t w1"
    using small_runtime assms(2,3) by blast
  show ?thesis unfolding wait_for_runtime_priority_def Let_def now by (subst poll_runtime_priority.simps) (simp add: w1 [simplified] p)
qed

lemma small_execute:
  "stands bs n t w \<Longrightarrow> \<exists>r w1. execute_pinned (small_host ps) c q w = (r, w1) \<and> stands bs n t w1"
  by (auto simp: small_calls execute_pinned_on_def execute_pinned_call_def register_pin_def eval_nat_numeral stands_def files_of_def Let_def
      split: option.splits)

section \<open>The steps of the small host\<close>

lemma small_file: "af_JSON (sample_auth_file bs) = bs" "af_AuthIndex (sample_auth_file bs) = ''auth-1''" "af_Name (sample_auth_file bs) = ''a.json''"
  by (simp_all add: sample_auth_file_def)

lemma small_restore:
  assumes "ctx_err c t = None" "stands sample_text n t w" "n < length ps \<longrightarrow> ps ! n = 2"
  shows "\<exists>w'. restore_attempts (small_host ps) c d ''auth-1'' ''id'' (Some sample_mark) 3 w = Some (Inr (False, True), w') \<and> stands sample_put_back (n + 1) t w'"
proof -
  obtain w1 where u: "get_auth_file_until (small_host ps) c ''auth-1'' w = Some (Inr (sample_auth_file sample_text), w1)" "stands sample_text n t w1"
    using small_until [OF assms(1,2) sample_text_ok] by blast
  obtain w2 where s: "save_auth_file (small_host ps) c ((sample_auth_file sample_text)\<lparr>af_JSON := sample_put_back\<rparr>) w1 = (Inr (), w2)" "stands sample_put_back n t w2"
    using small_save [OF assms(1) u(2) sample_text_ok(2) sample_put_back_ok] by blast
  obtain w3 where "wait_for_runtime_priority (small_host ps) c d ''auth-1'' ''id'' 2 w2 = Some (Inr (small_auth 2), w3)" "stands sample_put_back (n + 1) t w3"
    using small_wait [OF assms(1) s(2), of 2 ps d] assms(3) by (cases "n < length ps") auto
  then show ?thesis by (simp add: numeral_3_eq_3 u(1) small_file sample_undone s(1))
qed

lemma small_recover:
  assumes "ctx_err c t = None" "stands sample_text 0 t w"
  shows "\<exists>w'. recover_stale_priority_overrides (small_host []) c cfg [small_auth 2, other_auth] w = Some ((True, None), w') \<and> stands sample_put_back 1 t w'"
proof -
  obtain w1 where g: "get_auth_file (small_host []) c ''auth-1'' w = (Inr (sample_auth_file sample_text), w1)" "stands sample_text 0 t w1"
    using small_get [OF assms sample_text_ok] by blast
  obtain w2 where r: "restore_attempts (small_host []) c (cf_PrioritySyncTimeout cfg) ''auth-1'' ''id'' (Some sample_mark) 3 w1 = Some (Inr (False, True), w2)"
      "stands sample_put_back 1 t w2"
    using small_restore [OF assms(1) g(2), of "[]"] by auto
  let ?w3 = "write_log (small_host []) (recovered_log sample_mark (small_auth 2) False) w2"
  have w3: "stands sample_put_back 1 t ?w3" by (rule small_log [OF r(2)])
  have now: "ctx_err c (w_now w) = None" "ctx_err c (w_now ?w3) = None" using assms w3 by (simp_all add: stands_def)
  show ?thesis using w3
    by (simp add: recover_stale_priority_overrides_def now small_fields small_strings g(1) small_file sample_marked restore_priority_file_def r(1) errors_join_def Let_def)
qed

lemma small_nothing_stale:
  assumes "ctx_err c t = None" "stands sample_document 0 t w"
  shows "\<exists>w'. recover_stale_priority_overrides (small_host ps) c cfg [small_auth 2, other_auth] w = Some ((False, None), w') \<and> stands sample_document 0 t w'"
proof -
  obtain w1 where g: "get_auth_file (small_host ps) c ''auth-1'' w = (Inr (sample_auth_file sample_document), w1)" "stands sample_document 0 t w1"
    using small_get [OF assms sample_document_ok(1,2)] by blast
  have now: "ctx_err c (w_now w) = None" "ctx_err c (w_now w1) = None" using assms g(2) by (simp_all add: stands_def)
  show ?thesis using g(2)
    by (simp add: recover_stale_priority_overrides_def now small_fields small_strings g(1) small_file sample_document_ok(3) errors_join_def Let_def)
qed

definition small_config :: config where
  "small_config = zero_config\<lparr>cf_TemporaryPriority := True\<rparr>"

lemma small_begin:
  assumes "ctx_err c t = None" "stands sample_document 1 t w"
  shows "\<exists>w'. begin_priority_override (small_host [2, 9]) c small_config ''run-1'' (small_auth 2) 9 w =
      Some ((Some \<lparr> pl_AuthIndex = ''auth-1'', pl_AuthID = ''id'', pl_Name = ''a.json'', pl_Marker = sample_mark \<rparr>, None), w') \<and> stands sample_text 2 t w'"
proof -
  let ?H = "small_host [2, 9]"
  obtain w1 where g: "get_auth_file ?H c ''auth-1'' w = (Inr (sample_auth_file sample_document), w1)" "stands sample_document 1 t w1"
    using small_get [OF assms sample_document_ok(1,2)] by blast
  obtain w2 where s: "save_auth_file ?H c ((sample_auth_file sample_document)\<lparr>af_JSON := sample_text\<rparr>) w1 = (Inr (), w2)" "stands sample_text 1 t w2"
    using small_save [OF assms(1) g(2) sample_document_ok(2) sample_text_ok sample_text_trim] by blast
  obtain w3 where v: "wait_for_runtime_priority ?H c (cf_PrioritySyncTimeout small_config) ''auth-1'' ''id'' 9 w2 = Some (Inr (small_auth 9), w3)" "stands sample_text 2 t w3"
    using small_wait [OF assms(1) s(2), of 9 "[2, 9]" "cf_PrioritySyncTimeout small_config"] by (auto simp: numeral_2_eq_2)
  have "cf_TemporaryPriority small_config" by (simp add: small_config_def)
  then show ?thesis using small_log [OF v(2)]
    by (simp add: begin_priority_override_def small_fields small_strings numeral_3_eq_3 g(1) small_file sample_built_text s(1) v(1) Let_def)
qed

lemma small_give_back:
  assumes "stands sample_text 2 t w"
  shows "\<exists>w'. restore_priority_override (small_host [2, 9]) cfg ''run-1''
      (Some \<lparr> pl_AuthIndex = ''auth-1'', pl_AuthID = ''id'', pl_Name = ''a.json'', pl_Marker = sample_mark \<rparr>) w = Some (None, w') \<and> stands sample_put_back 3 t w'"
proof -
  let ?d = "if cf_PrioritySyncTimeout cfg \<le> 0 then defaultPrioritySyncTimeout else cf_PrioritySyncTimeout cfg"
  have now: "w_now w = t" using assms by (simp add: stands_def)
  have live: "ctx_err (with_timeout background t ?d) t = None"
    by (intro timeout_open) (simp_all add: ctx_err_def ctx_end_def background_def earlier_def defaultPrioritySyncTimeout_def second_def)
  obtain w1 where "restore_attempts (small_host [2, 9]) (with_timeout background t ?d) ?d ''auth-1'' ''id'' (Some sample_mark) 3 w = Some (Inr (False, True), w1)"
      "stands sample_put_back 3 t w1"
    using small_restore [OF live assms, of "[2, 9]" ?d] by auto
  then show ?thesis using small_log [of sample_put_back 3 t w1]
    by (simp add: restore_priority_override_def restore_priority_file_def Let_def now)
qed

section \<open>A run with an override, and a start after a crash\<close>

lemma small_targets:
  "filter_auths small_config [small_auth 2, other_auth] [''auth-1''] = [small_auth 2]" "\<not> has_duplicate_auth_identity [small_auth 2]"
  "fst (auth_eligible small_config (small_auth 2))" "highest_available_priority [small_auth 2, other_auth] = (9, True)"
  by code_simp+

lemma background_open: "ctx_err background t = None"
  by (simp add: ctx_err_def ctx_end_def background_def earlier_def)

text \<open>The priority of the credential is raised to 9, which the runtime confirms, the request fails for want of a token, the priority is
  given back, which the runtime confirms too.\<close>

lemma small_attempt:
  assumes "stands sample_document 1 t w" "rr_RunID report = ''run-1''" "rr_Error report = []"
  shows "\<exists>stop rep w'. attempt_target (small_host [2, 9]) background small_config body 9 True 0 1 (small_auth 2) report w = Some ((stop, rep), w') \<and> rr_Error rep = []"
proof -
  let ?H = "small_host [2, 9]"
  let ?l = "\<lparr> pl_AuthIndex = ''auth-1'', pl_AuthID = ''id'', pl_Name = ''a.json'', pl_Marker = sample_mark \<rparr>"
  obtain w1 where b: "begin_priority_override ?H background small_config ''run-1'' (small_auth 2) 9 w = Some ((Some ?l, None), w1)" "stands sample_text 2 t w1"
    using small_begin [OF background_open assms(1)] by blast
  obtain r w2 where x: "execute_pinned ?H (with_timeout background (w_now w1) (cf_RequestTimeout small_config)) (model_request small_config (small_auth 2) body) w1 = (r, w2)"
      "stands sample_text 2 t w2"
    using small_execute [OF b(2)] by blast
  obtain w3 where g: "restore_priority_override ?H small_config ''run-1'' (Some ?l) w2 = Some (None, w3)"
    using small_give_back [OF x(2)] by blast
  have d: "desired_priority_for_auth (small_auth 2) 9 True = 9" by (simp add: desired_priority_for_auth_def small_fields)
  obtain stop rep w' where a: "attempt_target ?H background small_config body 9 True 0 1 (small_auth 2) report w = Some ((stop, rep), w')"
    using b(1) x(1) g by (fastforce simp: attempt_target_def d assms(2) Let_def background_open next_target_def split: prod.splits bool.splits)
  have "rr_Error rep = []"
    using a
  proof (cases rule: attempt_target_cases)
    case unapplied
    with b(1) show ?thesis by (simp add: d assms(2))
  next
    case (executed lease v1 response v2 re v3)
    then have "re = None" using b(1) x(1) g by (simp add: d assms(2))
    with executed(4) show ?thesis using settle_target_spec(4) [OF executed(4)] judge_response_spec [of re response report] assms(3)
      by (cases "judge_response re response report ((attempt_result small_config (small_auth 2) (desired_priority_for_auth (small_auth 2) 9 True))\<lparr>ar_DurationMS := elapsed_ms (w_now w) v3\<rparr>)")
        (auto simp: recorded_def skip_rest_def split: if_splits)
  qed
  with a show ?thesis by blast
qed

definition small_options :: manual_run_options where
  "small_options = \<lparr> mo_DryRun = False, mo_AuthIndices = [''auth-1''] \<rparr>"

definition small_report :: run_report where
  "small_report = new_report ''run-1'' ''manual'' [] False 0"

lemma small_run:
  "\<exists>rep w'. execute_run (small_host [2, 9]) 0 background small_config small_options small_report (sample_world sample_document) = Some (rep, w') \<and>
     rr_Error rep = []"
proof -
  let ?H = "small_host [2, 9]" and ?w = "sample_world sample_document"
  let ?start = "write_log ?H (started_log small_config small_report) ?w"
  have w0: "stands sample_document 0 0 (?start\<lparr>w_now := w_now ?start + int 0\<rparr>)"
    using small_log [OF sample_stands [of sample_document], of "[2, 9]" "started_log small_config small_report"] by (simp add: stands_def idle_keeps(3))
  obtain w1 where w1: "list_auths ?H background (?start\<lparr>w_now := w_now ?start + int 0\<rparr>) = (Inr [small_auth 2, other_auth], w1)" "stands sample_document 0 (3 * second) w1"
    using small_list [OF background_open w0] by auto
  obtain w2 where w2: "recover_stale_priority_overrides ?H background small_config [small_auth 2, other_auth] w1 = Some ((False, None), w2)"
      "stands sample_document 0 (3 * second) w2"
    using small_nothing_stale [OF background_open w1(2)] by blast
  let ?r = "small_report\<lparr>rr_TargetCount := 1\<rparr>"
  let ?w3 = "publish_report ?r w2"
  have w3: "stands sample_document 0 (3 * second) ?w3" using w2(2) by (simp add: small_events)
  obtain w4 where w4: "get_runtime_auth ?H background ''auth-1'' ?w3 = (Inr (small_auth 2), w4)" "stands sample_document 1 (3 * second) w4"
    using small_runtime [OF background_open w3, of "[2, 9]"] by auto
  obtain body where body: "build_request_body small_config = Inr body" by (simp add: build_request_body_def)
  obtain stop rep w5 where a: "attempt_target ?H background small_config body 9 True 0 1 (small_auth 2) ?r w4 = Some ((stop, rep), w5)" "rr_Error rep = []"
    using small_attempt [OF w4(2), of ?r body] by (auto simp: small_report_def new_report_def)
  have t: "run_target ?H background small_config body 9 True 0 1 (small_auth 2) ?r ?w3 = Some ((stop, rep), w5)"
    using w4(1) a(1) small_targets(3) by (auto simp: run_target_def small_fields Let_def split: prod.splits bool.splits)
  have ts: "run_targets ?H background small_config body 9 True 0 1 [small_auth 2] ?r ?w3 = Some (rep, w5)"
    using t by (cases stop) (simp_all add: background_open)
  have l: "run_listed ?H background small_config small_options [small_auth 2, other_auth] small_report w2 = Some (finish_run ?H rep w5)"
    using ts by (simp add: run_listed_def small_options_def small_targets body Let_def)
  have "execute_run ?H 0 background small_config small_options small_report ?w = Some (finish_run ?H rep w5)"
    unfolding execute_run_def Let_def w1(1) prod.case sum.case w2(1) option.case by (simp add: l)
  moreover have "rr_Error (fst (finish_run ?H rep w5)) = []" using a(2) by (simp add: finish_run_def Let_def)
  ultimately show ?thesis by (metis prod.collapse)
qed

text \<open>A start after a crash: the second listing, after 6.25 seconds, has been the same for 3.25 seconds.\<close>

lemma small_start:
  "\<exists>w'. startup_recovery (small_host []) (\<lambda>_. True) (\<lambda>_. True) None zero_config (sample_world sample_text) = Some (RecoveryResult None True, w')"
proof -
  let ?H = "small_host []" and ?as = "[small_auth 2, other_auth]"
  let ?c = "with_timeout \<lparr> cx_CancelledAt = None, cx_Deadline = None \<rparr> 0 priorityRecoveryTimeout"
  have live: "ctx_err ?c t = None" if "t < 30 * second" for t
    using that by (simp add: ctx_err_def ctx_end_def with_timeout_def earlier_def priorityRecoveryTimeout_def)
  have times: "0 < 30 * second" "3250 * millisecond < 30 * second" "6250 * millisecond < 30 * second" by (simp_all add: second_def millisecond_def)
  obtain w1 where w1: "list_auths ?H ?c (sample_world sample_text) = (Inr ?as, w1)" "stands sample_text 0 (3 * second) w1"
    using small_list [OF live [OF times(1)] sample_stands] by auto
  obtain w2 where w2: "wait_recovery_retry ?c w1 = (True, w2)" "stands sample_text 0 (3250 * millisecond) w2"
    using w1(2) by (simp add: wait_recovery_retry_def sleep_ctx_def ctx_end_def with_timeout_def earlier_def priorityRecoveryTimeout_def
        second_def millisecond_def stands_def files_of_def Let_def)
  obtain w3 where w3: "list_auths ?H ?c w2 = (Inr ?as, w3)" "stands sample_text 0 (6250 * millisecond) w3"
    using small_list [OF live [OF times(2)] w2(2)] by (auto simp: second_def millisecond_def)
  obtain w4 where w4: "recover_stale_priority_overrides ?H ?c zero_config ?as w3 = Some ((True, None), w4)"
    using small_recover [OF live [OF times(3)] w3(2)] by blast
  have now: "w_now w1 = 3 * second" "w_now w3 = 6250 * millisecond" "w_now (sample_world sample_text) = 0"
    using w1(2) w3(2) by (simp_all add: stands_def sample_world_def)
  have k: "lock_priority (\<lambda>_. True) ?c w3 = Some (True, w3)" by (subst lock_priority.simps) simp
  have r1: "\<not> listing_ready (Inr ?as) (w_now w1) (note_listing (Inr ?as) (w_now w1) None)"
    by (simp add: listing_ready_def note_listing_def time_sub_def priorityRecoveryEmptyGrace_def second_def int64_min_def int64_max_def)
  have r2: "listing_ready (Inr ?as) (w_now w3) (note_listing (Inr ?as) (w_now w3) (note_listing (Inr ?as) (w_now w1) None))"
    by (simp add: listing_ready_def note_listing_def now time_sub_def priorityRecoveryEmptyGrace_def second_def millisecond_def int64_min_def int64_max_def)
  have l3: "ctx_err ?c (w_now w3) = None" unfolding now(2) by (rule live [OF times(3)])
  show ?thesis unfolding startup_recovery_def now(3)
    by (subst recovery_loop.simps, simp add: w1(1) r1 w2(1), subst recovery_loop.simps, simp add: w3(1) r2 recover_listed_def k l3 w4)
qed

lemma small_pending: "pending_at sample_path sample_document 384 (files_of (sample_world sample_text))"
proof -
  have "override_of sample_document sample_text sample_mark"
    unfolding override_of_def using sample_built_text sample_text_ok by blast
  then show ?thesis using sample_stands [of sample_text] by (auto simp: pending_at_def stands_def)
qed

section \<open>Witnesses\<close>

lemma run_leaves_no_trace_witness:
  "\<exists>rep w'. execute_run (small_host [2, 9]) 0 background small_config small_options small_report (sample_world sample_document) = Some (rep, w') \<and>
     as_before (files_of (sample_world sample_document)) (files_of w')"
proof -
  obtain rep w' where r: "execute_run (small_host [2, 9]) 0 background small_config small_options small_report (sample_world sample_document) = Some (rep, w')"
    "rr_Error rep = []" using small_run by blast
  have "rr_Error rep \<noteq> restore_failure_report" using r(2) by (simp add: restore_failure_report_def)
  from run_leaves_no_trace [OF sample_quiet sample_addressed r(1) this] r(1) show ?thesis by blast
qed

lemma crashed_override_undone_witness:
  "\<exists>w'. startup_recovery (small_host []) (\<lambda>_. True) (\<lambda>_. True) None zero_config (sample_world sample_text) = Some (RecoveryResult None True, w') \<and>
     undone_at sample_path sample_document 384 (files_of w')"
  using small_start crashed_override_undone [OF sample_quiet sample_addressed sample_lists small_pending disjI1] by blast

lemma credentials_survive_witness:
  "\<exists>w'. startup_recovery (small_host []) (\<lambda>_. True) (\<lambda>_. True) None zero_config (sample_world sample_text) = Some (RecoveryResult None True, w') \<and>
     credentials_kept (files_of (sample_world sample_text)) (files_of w')"
  using small_start credentials_survive [OF sample_quiet disjI2] by blast

end
