(* ===== verification/Windows_Replace.thy ===== *)
theory Windows_Replace imports Auth_Store begin

text \<open>
  The replacement of a credential file in a Windows build (\<^verbatim>\<open>cmd/cpa-auto-refresh-quota/replace_windows.go\<close>). What \<^verbatim>\<open>kernel32\<close>
  and a file handle answer is not in the repository: a \<open>kernel\<close> decides from the calls made so far which call fails and how,
  what the handle shows, and how long the call takes. The state is the history of the calls, each with whether it
  succeeded, and the clock.
\<close>

section \<open>The kernel\<close>

datatype kernel_call =
    KOpen string | KWrap | KLock | KStat | KRead | KUnlock | KClose | KReplace string string | KMove string string

type_synonym history = "(kernel_call \<times> bool) list"

record kernel =
  kn_Fails :: "history \<Rightarrow> kernel_call \<Rightarrow> err option"
  kn_Info :: "history \<Rightarrow> bool \<times> int"
  kn_Content :: "history \<Rightarrow> bytes"
  kn_Took :: "history \<Rightarrow> nat"

record win =
  wn_Done :: history
  wn_Now :: instant

definition ask_kernel :: "kernel \<Rightarrow> kernel_call \<Rightarrow> win \<Rightarrow> err option \<times> win" where
  "ask_kernel K k w =
     (let e = kn_Fails K (wn_Done w) k
      in (e, \<lparr> wn_Done = wn_Done w @ [(k, e = None)], wn_Now = wn_Now w + int (kn_Took K (wn_Done w)) \<rparr>))"

definition try_call ::
  "kernel \<Rightarrow> kernel_call \<Rightarrow> (err \<Rightarrow> win \<Rightarrow> err option \<times> win) \<Rightarrow> (win \<Rightarrow> err option \<times> win) \<Rightarrow> win \<Rightarrow> err option \<times> win"
where
  "try_call K k failed went w = (case ask_kernel K k w of (Some e, w1) \<Rightarrow> failed e w1 | (None, w1) \<Rightarrow> went w1)"

text \<open>\<^verbatim>\<open>syscall.UTF16PtrFromString\<close>.\<close>

definition utf16_ptr :: "string \<Rightarrow> err option" where
  "utf16_ptr s = (if CHR 0x00 \<in> set s then Some (ErrNew ''invalid argument'') else None)"

section \<open>One attempt\<close>

definition strings_equal_fold_trimmed :: "string \<Rightarrow> string \<Rightarrow> bool" where
  "strings_equal_fold_trimmed left right \<longleftrightarrow> equal_fold_ascii (trim_space left) (trim_space right)"

definition equal_auth_file_sha256 :: "string \<Rightarrow> bytes \<Rightarrow> bool" where
  "equal_auth_file_sha256 expected raw \<longleftrightarrow> strings_equal_fold_trimmed expected (auth_file_sha256 raw)"

definition is_windows_sharing_error :: "err \<Rightarrow> bool" where
  "is_windows_sharing_error e \<longleftrightarrow> err_is e (ErrErrno 32) \<or> err_is e (ErrErrno 33)"

text \<open>The deferred function, while the handle is open.\<close>

definition leave_file :: "kernel \<Rightarrow> bool \<Rightarrow> win \<Rightarrow> win" where
  "leave_file K lockHeld w = (let w1 = (if lockHeld then snd (ask_kernel K KUnlock w) else w) in snd (ask_kernel K KClose w1))"

definition compare_locked :: "kernel \<Rightarrow> string \<Rightarrow> win \<Rightarrow> err option \<times> win" where
  "compare_locked K expected w =
     try_call K KStat (\<lambda>e w1. (Some e, w1)) (\<lambda>w1.
       case kn_Info K (wn_Done w) of (regular, sz) \<Rightarrow>
         if \<not> regular \<or> sz > maxAuthFileWriteBytes then (Some ErrAuthFileChanged, w1)
         else try_call K KRead (\<lambda>e w2. (Some e, w2)) (\<lambda>w2.
           let latest = take (nat (maxAuthFileWriteBytes + 1)) (kn_Content K (wn_Done w1))
           in if int (length latest) > maxAuthFileWriteBytes \<or> expected = [] \<or> \<not> equal_auth_file_sha256 expected latest
              then (Some ErrAuthFileChanged, w2) else (None, w2)) w1) w"

definition replace_or_move :: "kernel \<Rightarrow> string \<Rightarrow> string \<Rightarrow> win \<Rightarrow> err option \<times> win" where
  "replace_or_move K target replacement =
     try_call K (KReplace target replacement)
       (\<lambda>e w1. if \<not> err_is e (ErrErrno 5) then (Some (ErrWrap ''ReplaceFileW: '' e), w1)
               else try_call K (KMove replacement target) (\<lambda>e2 w2. (Some (ErrWrap ''MoveFileExW fallback: '' e2), w2)) (\<lambda>w2. (None, w2)) w1)
       (\<lambda>w1. (None, w1))"

definition after_lock :: "kernel \<Rightarrow> ctx \<Rightarrow> string \<Rightarrow> string \<Rightarrow> string \<Rightarrow> win \<Rightarrow> err option \<times> win" where
  "after_lock K c target replacement expected w =
     (case compare_locked K expected w of
        (Some e, w1) \<Rightarrow> (Some e, leave_file K True w1)
      | (None, w1) \<Rightarrow>
          try_call K KUnlock (\<lambda>_ w2. (Some (ErrNew ''unlock target before replacement''), leave_file K True w2)) (\<lambda>w2.
          try_call K KClose (\<lambda>e w3. (Some e, leave_file K False w3)) (\<lambda>w3.
            case ctx_err c (wn_Now w3) of Some e \<Rightarrow> (Some e, w3) | None \<Rightarrow> replace_or_move K target replacement w3) w2) w1)"

definition replace_auth_file_cas_once :: "kernel \<Rightarrow> ctx \<Rightarrow> string \<Rightarrow> string \<Rightarrow> string \<Rightarrow> win \<Rightarrow> err option \<times> win" where
  "replace_auth_file_cas_once K c target replacement expected w =
     (case utf16_ptr target of Some e \<Rightarrow> (Some e, w) | None \<Rightarrow>
      case utf16_ptr replacement of Some e \<Rightarrow> (Some e, w) | None \<Rightarrow>
        try_call K (KOpen target) (\<lambda>e w1. (Some (ErrWrap ''open target for locked replacement: '' e), w1)) (\<lambda>w1.
        try_call K KWrap (\<lambda>_ w2. (Some (ErrNew ''wrap auth file handle''), snd (ask_kernel K KClose w2))) (\<lambda>w2.
        try_call K KLock (\<lambda>e w3. (Some (ErrWrap ''lock target for replacement: '' e), leave_file K False w3)) (\<lambda>w3.
          after_lock K c target replacement expected w3) w2) w1) w)"

section \<open>The loop\<close>

definition windowsReplaceRetryDelay :: duration where "windowsReplaceRetryDelay = 25 * millisecond"

text \<open>The \<^verbatim>\<open>select\<close> between the context and the timer: a context that ends at the instant of the timer counts as ended.\<close>

definition wait_retry :: "ctx \<Rightarrow> win \<Rightarrow> bool \<times> win" where
  "wait_retry c w =
     (let wake = wn_Now w + windowsReplaceRetryDelay
      in case ctx_end c of
           None \<Rightarrow> (True, w\<lparr>wn_Now := wake\<rparr>)
         | Some e \<Rightarrow> if e \<le> wake then (False, w\<lparr>wn_Now := max (wn_Now w) e\<rparr>) else (True, w\<lparr>wn_Now := wake\<rparr>))"

definition settled :: "err option \<Rightarrow> bool" where
  "settled r = (case r of None \<Rightarrow> True | Some e \<Rightarrow> err_is e ErrAuthFileChanged \<or> \<not> is_windows_sharing_error e)"

partial_function (option) replace_auth_file_cas_windows ::
  "kernel \<Rightarrow> ctx \<Rightarrow> string \<Rightarrow> string \<Rightarrow> string \<Rightarrow> win \<Rightarrow> (err option \<times> win) option"
where
  "replace_auth_file_cas_windows K c target replacement expected w =
     (case ctx_err c (wn_Now w) of
        Some e \<Rightarrow> Some (Some e, w)
      | None \<Rightarrow>
          (case replace_auth_file_cas_once K c target replacement expected w of
             (r, w1) \<Rightarrow>
               if settled r then Some (r, w1)
               else (case wait_retry c w1 of
                       (again, w2) \<Rightarrow>
                         if again then replace_auth_file_cas_windows K c target replacement expected w2
                         else Some (ctx_err c (wn_Now w2), w2))))"

declare replace_auth_file_cas_windows.simps [code]

section \<open>What one attempt does\<close>

text \<open>A replacement that the kernel reports done.\<close>

definition replaced :: "kernel_call \<times> bool \<Rightarrow> bool" where
  "replaced x \<longleftrightarrow> snd x \<and> (case fst x of KReplace _ _ \<Rightarrow> True | KMove _ _ \<Rightarrow> True | _ \<Rightarrow> False)"

text \<open>Handles opened and not closed, locks taken and not released, attempts to do so counting.\<close>

definition left_open :: "history \<Rightarrow> int" where
  "left_open h = int (length (filter (\<lambda>x. \<exists>p. x = (KOpen p, True)) h)) - int (length (filter (\<lambda>x. fst x = KClose) h))"

definition left_locked :: "history \<Rightarrow> int" where
  "left_locked h = int (length (filter (\<lambda>x. x = (KLock, True)) h)) - int (length (filter (\<lambda>x. fst x = KUnlock) h))"

definition checked_calls :: "string \<Rightarrow> history" where
  "checked_calls target = [(KOpen target, True), (KWrap, True), (KLock, True), (KStat, True), (KRead, True), (KUnlock, True), (KClose, True)]"

definition final_calls :: "string \<Rightarrow> string \<Rightarrow> history \<Rightarrow> bool" where
  "final_calls target replacement h \<longleftrightarrow>
     h = [(KReplace target replacement, True)] \<or> h = [(KReplace target replacement, False), (KMove replacement target, True)]"

definition content_checked :: "kernel \<Rightarrow> string \<Rightarrow> history \<Rightarrow> bool" where
  "content_checked K expected h \<longleftrightarrow> expected \<noteq> [] \<and> int (length (kn_Content K h)) \<le> maxAuthFileWriteBytes \<and>
     equal_auth_file_sha256 expected (kn_Content K h)"

lemma try_call_cases:
  assumes "try_call K k failed went w = (r, w')"
  obtains (failed) e w1 where "wn_Done w1 = wn_Done w @ [(k, False)]" "wn_Now w \<le> wn_Now w1" "failed e w1 = (r, w')"
  | (went) w1 where "wn_Done w1 = wn_Done w @ [(k, True)]" "wn_Now w \<le> wn_Now w1" "went w1 = (r, w')"
proof (cases "kn_Fails K (wn_Done w) k")
  case None
  then show thesis using assms
    by (intro went [of "\<lparr> wn_Done = wn_Done w @ [(k, True)], wn_Now = wn_Now w + int (kn_Took K (wn_Done w)) \<rparr>"])
      (simp_all add: try_call_def ask_kernel_def Let_def)
next
  case (Some e)
  then show thesis using assms
    by (intro failed [of "\<lparr> wn_Done = wn_Done w @ [(k, False)], wn_Now = wn_Now w + int (kn_Took K (wn_Done w)) \<rparr>" e])
      (simp_all add: try_call_def ask_kernel_def Let_def)
qed

lemma ask_done: "\<exists>b. wn_Done (snd (ask_kernel K k w)) = wn_Done w @ [(k, b)]" "wn_Now w \<le> wn_Now (snd (ask_kernel K k w))"
  by (simp_all add: ask_kernel_def Let_def)

lemma leave_done:
  "\<exists>b b'. wn_Done (leave_file K held w) = wn_Done w @ (if held then [(KUnlock, b)] else []) @ [(KClose, b')]"
  "wn_Now w \<le> wn_Now (leave_file K held w)"
  by (simp_all add: leave_file_def ask_kernel_def Let_def)

lemma left_append [simp]: "left_open (a @ b) = left_open a + left_open b" "left_locked (a @ b) = left_locked a + left_locked b"
  by (simp_all add: left_open_def left_locked_def)

definition checked_from :: "kernel \<Rightarrow> string \<Rightarrow> string \<Rightarrow> string \<Rightarrow> history \<Rightarrow> history \<Rightarrow> bool" where
  "checked_from K target replacement expected h new \<longleftrightarrow>
     (\<exists>before last. new = before @ checked_calls target @ last \<and> \<not> list_ex replaced before \<and> final_calls target replacement last \<and>
        content_checked K expected (h @ before @ take 4 (checked_calls target)))"

definition attempt_ok :: "kernel \<Rightarrow> string \<Rightarrow> string \<Rightarrow> string \<Rightarrow> err option \<Rightarrow> win \<Rightarrow> win \<Rightarrow> bool" where
  "attempt_ok K target replacement expected r w w' \<longleftrightarrow> wn_Now w \<le> wn_Now w' \<and>
     (\<exists>new. wn_Done w' = wn_Done w @ new \<and> left_open new \<le> 0 \<and> left_locked new \<le> 0 \<and>
        (if r = None then checked_from K target replacement expected (wn_Done w) new else \<not> list_ex replaced new))"

lemma compare_done:
  assumes "compare_locked K expected w = (r, w')"
  shows "wn_Now w \<le> wn_Now w' \<and> (\<exists>new. wn_Done w' = wn_Done w @ new \<and> list_all (\<lambda>x. fst x = KStat \<or> fst x = KRead) new \<and>
    (r = None \<longrightarrow> new = [(KStat, True), (KRead, True)] \<and> content_checked K expected (wn_Done w @ [(KStat, True)])))"
  using assms unfolding compare_locked_def
proof (cases rule: try_call_cases)
  case (failed e w1)
  then show ?thesis by auto
next
  case (went w1)
  obtain regular sz where i: "kn_Info K (wn_Done w) = (regular, sz)" by force
  show ?thesis
  proof (cases "\<not> regular \<or> sz > maxAuthFileWriteBytes")
    case True
    then show ?thesis using went i by auto
  next
    case False
    let ?raw = "kn_Content K (wn_Done w @ [(KStat, True)])"
    have "try_call K KRead (\<lambda>e w2. (Some e, w2)) (\<lambda>w2.
           let latest = take (nat (maxAuthFileWriteBytes + 1)) (kn_Content K (wn_Done w1))
           in if int (length latest) > maxAuthFileWriteBytes \<or> expected = [] \<or> \<not> equal_auth_file_sha256 expected latest
              then (Some ErrAuthFileChanged, w2) else (None, w2)) w1 = (r, w')"
      using went(3) i False by simp
    then show ?thesis
    proof (cases rule: try_call_cases)
      case (failed e w2)
      then show ?thesis using went(1,2) by auto
    next
      case (went w2)
      have "take (nat (maxAuthFileWriteBytes + 1)) ?raw = ?raw" if "int (length (take (nat (maxAuthFileWriteBytes + 1)) ?raw)) \<le> maxAuthFileWriteBytes"
        using that by (simp add: maxAuthFileWriteBytes_def min_def split: if_splits)
      then show ?thesis using went \<open>wn_Done w1 = wn_Done w @ [(KStat, True)]\<close> \<open>wn_Now w \<le> wn_Now w1\<close>
        by (auto simp: Let_def content_checked_def split: if_splits)
    qed
  qed
qed

lemma replace_done:
  assumes "replace_or_move K target replacement w = (r, w')"
  shows "wn_Now w \<le> wn_Now w' \<and> (\<exists>new. wn_Done w' = wn_Done w @ new \<and> left_open new = 0 \<and> left_locked new = 0 \<and>
    (if r = None then final_calls target replacement new else \<not> list_ex replaced new))"
  using assms unfolding replace_or_move_def
proof (cases rule: try_call_cases)
  case (failed e w1)
  show ?thesis
  proof (cases "err_is e (ErrErrno 5)")
    case False
    then show ?thesis using failed by (auto simp: left_open_def left_locked_def replaced_def)
  next
    case True
    with failed(3) have "try_call K (KMove replacement target) (\<lambda>e2 w2. (Some (ErrWrap ''MoveFileExW fallback: '' e2), w2)) (\<lambda>w2. (None, w2)) w1 = (r, w')"
      by simp
    then show ?thesis
      by (cases rule: try_call_cases) (use failed(1,2) in \<open>auto simp: left_open_def left_locked_def replaced_def final_calls_def\<close>)
  qed
next
  case (went w1)
  then show ?thesis by (auto simp: left_open_def left_locked_def final_calls_def)
qed

text \<open>From the lock on, the open handle and the lock are given back on every path.\<close>

lemma after_lock_done:
  assumes "after_lock K c target replacement expected w = (r, w')"
  shows "wn_Now w \<le> wn_Now w' \<and> (\<exists>new. wn_Done w' = wn_Done w @ new \<and> left_open new \<le> - 1 \<and> left_locked new \<le> - 1 \<and>
    (if r = None
     then (\<exists>last. new = [(KStat, True), (KRead, True), (KUnlock, True), (KClose, True)] @ last \<and> final_calls target replacement last) \<and>
       content_checked K expected (wn_Done w @ [(KStat, True)])
     else \<not> list_ex replaced new))"
proof -
  obtain r1 w1 where c1: "compare_locked K expected w = (r1, w1)" by force
  from compare_done [OF c1] obtain new1 where n1: "wn_Now w \<le> wn_Now w1" "wn_Done w1 = wn_Done w @ new1"
    "list_all (\<lambda>x. fst x = KStat \<or> fst x = KRead) new1"
    "r1 = None \<longrightarrow> new1 = [(KStat, True), (KRead, True)] \<and> content_checked K expected (wn_Done w @ [(KStat, True)])" by blast
  have quiet1: "\<not> list_ex replaced new1" "left_open new1 = 0" "left_locked new1 = 0"
    using n1(3) by (induction new1) (auto simp: replaced_def left_open_def left_locked_def)
  show ?thesis
  proof (cases r1)
    case (Some e)
    obtain b b' where "wn_Done (leave_file K True w1) = wn_Done w1 @ [(KUnlock, b)] @ [(KClose, b')]"
      using leave_done(1) [of K True w1] by auto
    then show ?thesis using assms c1 Some n1 quiet1 leave_done(2) [of w1 K True]
      by (auto simp: after_lock_def left_open_def left_locked_def replaced_def)
  next
    case None
    with assms c1 have "try_call K KUnlock (\<lambda>_ w2. (Some (ErrNew ''unlock target before replacement''), leave_file K True w2)) (\<lambda>w2.
          try_call K KClose (\<lambda>e w3. (Some e, leave_file K False w3)) (\<lambda>w3.
            case ctx_err c (wn_Now w3) of Some e \<Rightarrow> (Some e, w3) | None \<Rightarrow> replace_or_move K target replacement w3) w2) w1 = (r, w')"
      by (simp add: after_lock_def)
    then show ?thesis
    proof (cases rule: try_call_cases)
      case (failed e w2)
      obtain b b' where "wn_Done (leave_file K True w2) = wn_Done w2 @ [(KUnlock, b)] @ [(KClose, b')]"
        using leave_done(1) [of K True w2] by auto
      then show ?thesis using failed n1 quiet1 leave_done(2) [of w2 K True] None
        by (auto simp: left_open_def left_locked_def replaced_def)
    next
      case (went w2)
      note w2 = went(1,2)
      from went(3) show ?thesis
      proof (cases rule: try_call_cases)
        case (failed e w3)
        obtain b' where "wn_Done (leave_file K False w3) = wn_Done w3 @ [(KClose, b')]"
          using leave_done(1) [of K False w3] by auto
        then show ?thesis using failed w2 n1 quiet1 leave_done(2) [of w3 K False] None
          by (auto simp: left_open_def left_locked_def replaced_def)
      next
        case (went w3)
        show ?thesis
        proof (cases "ctx_err c (wn_Now w3)")
          case (Some e)
          then show ?thesis using went w2 n1 quiet1 None by (auto simp: left_open_def left_locked_def replaced_def)
        next
          case None
          with went(3) have "replace_or_move K target replacement w3 = (r, w')" by simp
          from replace_done [OF this] obtain last where l: "wn_Now w3 \<le> wn_Now w'" "wn_Done w' = wn_Done w3 @ last" "left_open last = 0"
            "left_locked last = 0" "if r = None then final_calls target replacement last else \<not> list_ex replaced last" by blast
          let ?new = "[(KStat, True), (KRead, True), (KUnlock, True), (KClose, True)] @ last"
          have "wn_Done w' = wn_Done w @ ?new" using l(2) went(1) w2(1) n1(2,4) \<open>r1 = None\<close> by simp
          moreover have "left_open ?new = - 1" "left_locked ?new = - 1" using l(3,4) by (simp_all add: left_open_def left_locked_def)
          moreover have "wn_Now w \<le> wn_Now w'" using l(1) went(2) w2(2) n1(1) by simp
          ultimately show ?thesis using l(5) n1(4) \<open>r1 = None\<close>
            by (intro conjI exI [of _ ?new]) (auto simp: replaced_def)
        qed
      qed
    qed
  qed
qed

lemma once_done:
  assumes "replace_auth_file_cas_once K c target replacement expected w = (r, w')"
  shows "attempt_ok K target replacement expected r w w'"
proof (cases "utf16_ptr target = None \<and> utf16_ptr replacement = None")
  case False
  then obtain e where "utf16_ptr target = Some e \<or> utf16_ptr target = None \<and> utf16_ptr replacement = Some e"
    by (cases "utf16_ptr target") auto
  then have "r = Some e \<and> w' = w" using assms unfolding replace_auth_file_cas_once_def by (elim disjE conjE) simp_all
  then show ?thesis by (auto simp: attempt_ok_def left_open_def left_locked_def)
next
  case True
  with assms have "try_call K (KOpen target) (\<lambda>e w1. (Some (ErrWrap ''open target for locked replacement: '' e), w1)) (\<lambda>w1.
        try_call K KWrap (\<lambda>_ w2. (Some (ErrNew ''wrap auth file handle''), snd (ask_kernel K KClose w2))) (\<lambda>w2.
        try_call K KLock (\<lambda>e w3. (Some (ErrWrap ''lock target for replacement: '' e), leave_file K False w3)) (\<lambda>w3.
          after_lock K c target replacement expected w3) w2) w1) w = (r, w')"
    by (simp add: replace_auth_file_cas_once_def)
  then show ?thesis
  proof (cases rule: try_call_cases)
    case (failed e w1)
    then show ?thesis by (auto simp: attempt_ok_def left_open_def left_locked_def replaced_def)
  next
    case (went w1)
    note w1 = went(1,2)
    from went(3) show ?thesis
    proof (cases rule: try_call_cases)
      case (failed e w2)
      obtain b where "wn_Done (snd (ask_kernel K KClose w2)) = wn_Done w2 @ [(KClose, b)]" using ask_done(1) by blast
      then show ?thesis using failed w1 ask_done(2) [of w2 K KClose]
        by (auto simp: attempt_ok_def left_open_def left_locked_def replaced_def)
    next
      case (went w2)
      note w2 = went(1,2)
      from went(3) show ?thesis
      proof (cases rule: try_call_cases)
        case (failed e w3)
        obtain b' where "wn_Done (leave_file K False w3) = wn_Done w3 @ [(KClose, b')]"
          using leave_done(1) [of K False w3] by auto
        then show ?thesis using failed w1 w2 leave_done(2) [of w3 K False]
          by (auto simp: attempt_ok_def left_open_def left_locked_def replaced_def)
      next
        case (went w3)
        from after_lock_done [OF went(3)] obtain new where n: "wn_Now w3 \<le> wn_Now w'" "wn_Done w' = wn_Done w3 @ new"
          "left_open new \<le> - 1" "left_locked new \<le> - 1"
          "if r = None
           then (\<exists>last. new = [(KStat, True), (KRead, True), (KUnlock, True), (KClose, True)] @ last \<and> final_calls target replacement last) \<and>
             content_checked K expected (wn_Done w3 @ [(KStat, True)])
           else \<not> list_ex replaced new" by blast
        let ?all = "[(KOpen target, True), (KWrap, True), (KLock, True)] @ new"
        have "wn_Done w' = wn_Done w @ ?all" using n(2) went(1) w1(1) w2(1) by simp
        moreover have "left_open ?all \<le> 0" "left_locked ?all \<le> 0" using n(3,4) by (simp_all add: left_open_def left_locked_def)
        moreover have "wn_Now w \<le> wn_Now w'" using n(1) went(2) w1(2) w2(2) by simp
        moreover have "if r = None then checked_from K target replacement expected (wn_Done w) ?all else \<not> list_ex replaced ?all"
        proof (cases r)
          case None
          with n(5) obtain last where "new = [(KStat, True), (KRead, True), (KUnlock, True), (KClose, True)] @ last"
            "final_calls target replacement last" "content_checked K expected (wn_Done w3 @ [(KStat, True)])" by auto
          then show ?thesis using None went(1) w1(1) w2(1) unfolding checked_from_def
            by (intro iffD2 [OF if_P [OF None]] exI [of _ "[]"] exI [of _ last]) (simp add: checked_calls_def)
        next
          case (Some e)
          then show ?thesis using n(5) by (simp add: replaced_def)
        qed
        ultimately show ?thesis unfolding attempt_ok_def by blast
      qed
    qed
  qed
qed

section \<open>All attempts\<close>

lemma attempt_again:
  assumes "attempt_ok K target replacement expected (Some e) w w1" "wn_Done w2 = wn_Done w1" "wn_Now w1 \<le> wn_Now w2"
    "attempt_ok K target replacement expected r w2 w'"
  shows "attempt_ok K target replacement expected r w w'"
proof -
  obtain new1 where n1: "wn_Done w1 = wn_Done w @ new1" "left_open new1 \<le> 0" "left_locked new1 \<le> 0" "\<not> list_ex replaced new1"
    using assms(1) by (auto simp: attempt_ok_def)
  obtain new2 where n2: "wn_Done w' = wn_Done w2 @ new2" "left_open new2 \<le> 0" "left_locked new2 \<le> 0"
    "if r = None then checked_from K target replacement expected (wn_Done w2) new2 else \<not> list_ex replaced new2"
    using assms(4) by (auto simp: attempt_ok_def)
  have "wn_Now w \<le> wn_Now w'" using assms by (auto simp: attempt_ok_def)
  moreover have "checked_from K target replacement expected (wn_Done w) (new1 @ new2)"
    if ch: "checked_from K target replacement expected (wn_Done w2) new2"
  proof -
    obtain before last where "new2 = before @ checked_calls target @ last" "\<not> list_ex replaced before"
      "final_calls target replacement last" "content_checked K expected (wn_Done w2 @ before @ take 4 (checked_calls target))"
      using ch by (auto simp: checked_from_def)
    then show ?thesis using n1(1,4) assms(2) unfolding checked_from_def
      by (intro exI [of _ "new1 @ before"] exI [of _ last]) simp
  qed
  ultimately show ?thesis using n1 n2 assms(2) unfolding attempt_ok_def
    by (intro conjI exI [of _ "new1 @ new2"]) (auto split: if_splits)
qed

lemma wait_retry_cases:
  assumes "wait_retry c w = (again, w')"
  shows "wn_Done w' = wn_Done w \<and> wn_Now w \<le> wn_Now w' \<and> (again \<longrightarrow> wn_Now w' = wn_Now w + windowsReplaceRetryDelay) \<and>
    (\<not> again \<longrightarrow> ctx_err c (wn_Now w') \<noteq> None) \<and> (again \<longrightarrow> (\<forall>e. ctx_end c = Some e \<longrightarrow> wn_Now w' < e))"
  using assms by (auto simp: wait_retry_def Let_def ctx_err_def windowsReplaceRetryDelay_def duration_units split: option.splits if_splits)

lemma windows_replacement:
  assumes "replace_auth_file_cas_windows K c target replacement expected w = Some (r, w')"
  shows "attempt_ok K target replacement expected r w w'"
proof -
  have "attempt_ok K target replacement expected (fst (r, w')) w (snd (r, w'))"
  proof (rule replace_auth_file_cas_windows.raw_induct [OF _ assms,
        of "\<lambda>K c target replacement expected w y. attempt_ok K target replacement expected (fst y) w (snd y)"])
    fix f K c target replacement expected w y
    assume ih: "\<And>K c target replacement expected w y. f K c target replacement expected w = Some y \<Longrightarrow>
        attempt_ok K target replacement expected (fst y) w (snd y)"
      and body: "(case ctx_err c (wn_Now w) of
        Some e \<Rightarrow> Some (Some e, w)
      | None \<Rightarrow>
          (case replace_auth_file_cas_once K c target replacement expected w of
             (r, w1) \<Rightarrow>
               if settled r then Some (r, w1)
               else (case wait_retry c w1 of
                       (again, w2) \<Rightarrow>
                         if again then f K c target replacement expected w2 else Some (ctx_err c (wn_Now w2), w2)))) = Some y"
    obtain r1 w1 where o: "replace_auth_file_cas_once K c target replacement expected w = (r1, w1)" by force
    note first = once_done [OF o]
    obtain again w2 where s: "wait_retry c w1 = (again, w2)" by force
    note waited = wait_retry_cases [OF s]
    consider (over) e where "ctx_err c (wn_Now w) = Some e" | (ended) "ctx_err c (wn_Now w) = None" "settled r1"
      | (again) e where "ctx_err c (wn_Now w) = None" "r1 = Some e" "\<not> settled r1" again
      | (stop) e where "ctx_err c (wn_Now w) = None" "r1 = Some e" "\<not> settled r1" "\<not> again"
      by (cases "ctx_err c (wn_Now w)"; cases r1) (auto simp: settled_def)
    then show "attempt_ok K target replacement expected (fst y) w (snd y)"
    proof cases
      case over
      then show ?thesis using body by (auto simp: attempt_ok_def left_open_def left_locked_def)
    next
      case ended
      then show ?thesis using body o first by auto
    next
      case (again e)
      then have "f K c target replacement expected w2 = Some y" using body o s by simp
      from attempt_again [OF first [unfolded again(2)] _ _ ih [OF this]] waited show ?thesis by simp
    next
      case (stop e)
      then have y: "y = (ctx_err c (wn_Now w2), w2)" using body o s by simp
      have "ctx_err c (wn_Now w2) \<noteq> None" using waited stop by simp
      then have "attempt_ok K target replacement expected (fst y) w2 (snd y)" by (auto simp: y attempt_ok_def left_open_def left_locked_def)
      from attempt_again [OF first [unfolded stop(2)] _ _ this] waited show ?thesis by simp
    qed
  qed
  then show ?thesis by simp
qed

lemma windows_returns:
  "ctx_end c = Some e \<Longrightarrow> replace_auth_file_cas_windows K c target replacement expected w \<noteq> None"
proof (induction "nat (e - wn_Now w)" arbitrary: w rule: less_induct)
  case less
  obtain r1 w1 where o: "replace_auth_file_cas_once K c target replacement expected w = (r1, w1)" by force
  obtain again w2 where s: "wait_retry c w1 = (again, w2)" by force
  note waited = wait_retry_cases [OF s]
  show ?case
  proof (cases "ctx_err c (wn_Now w) = None \<and> \<not> settled r1 \<and> again")
    case False
    then show ?thesis using o s by (subst replace_auth_file_cas_windows.simps) (auto split: option.splits)
  next
    case True
    have "wn_Now w \<le> wn_Now w1" using once_done [OF o] by (simp add: attempt_ok_def)
    with waited True less.prems have "nat (e - wn_Now w2) < nat (e - wn_Now w)"
      by (auto simp: windowsReplaceRetryDelay_def duration_units)
    from less.hyps [OF this less.prems] True o s show ?thesis
      by (subst replace_auth_file_cas_windows.simps) auto
  qed
qed

section \<open>Properties\<close>

text \<open>C18. On Windows a replacement that succeeds was the end of an attempt in which the file was opened, locked, found to be a
  regular file, read with the expected hash, unlocked and closed, in this order with nothing between, and then replaced by
  \<^verbatim>\<open>ReplaceFileW\<close> or, where that was denied, by \<^verbatim>\<open>MoveFileExW\<close>; no attempt before it had replaced anything. A call that
  fails has replaced nothing. Either way no handle is left open and no lock held, beyond what the kernel refused to take back.\<close>

theorem windows_replacement_checked:
  assumes "replace_auth_file_cas_windows K c target replacement expected w = Some (r, w')"
  shows "\<exists>new. wn_Done w' = wn_Done w @ new \<and> left_open new \<le> 0 \<and> left_locked new \<le> 0 \<and>
    (case r of
       Some e \<Rightarrow> \<not> list_ex replaced new
     | None \<Rightarrow> \<exists>before last. new = before @ checked_calls target @ last \<and> \<not> list_ex replaced before \<and> final_calls target replacement last \<and>
         content_checked K expected (wn_Done w @ before @ take 4 (checked_calls target)))"
  using windows_replacement [OF assms] by (cases r) (auto simp: attempt_ok_def checked_from_def)

text \<open>C34. The retries on Windows come to an end: under a context with a deadline, or one that is cancelled, the loop returns whatever
  the kernel answers, even if another program never lets go of the file.\<close>

theorem windows_replacement_returns:
  assumes "ctx_end c = Some e"
  shows "replace_auth_file_cas_windows K c target replacement expected w \<noteq> None"
  by (rule windows_returns [OF assms])

section \<open>Examples\<close>

definition willing_kernel :: kernel where
  "willing_kernel = \<lparr> kn_Fails = \<lambda>_ _. None, kn_Info = \<lambda>_. (True, 2), kn_Content = \<lambda>_. ''{}'', kn_Took = \<lambda>_. 0 \<rparr>"

definition busy_kernel :: kernel where
  "busy_kernel = willing_kernel\<lparr>kn_Fails := \<lambda>_ k. if \<exists>p. k = KOpen p then Some (ErrErrno 32) else None\<rparr>"

lemma windows_replacement_checked_witness:
  "\<exists>w' last. replace_auth_file_cas_windows willing_kernel background ''t'' ''r'' (auth_file_sha256 ''{}'') \<lparr> wn_Done = [], wn_Now = 0 \<rparr> =
     Some (None, w') \<and> wn_Done w' = checked_calls ''t'' @ last \<and> final_calls ''t'' ''r'' last"
proof -
  let ?w0 = "\<lparr> wn_Done = [], wn_Now = 0 \<rparr>"
  have "equal_auth_file_sha256 (auth_file_sha256 ''{}'') ''{}''"
    by (simp add: equal_auth_file_sha256_def strings_equal_fold_trimmed_def equal_fold_ascii_def)
  then have run: "replace_auth_file_cas_windows willing_kernel background ''t'' ''r'' (auth_file_sha256 ''{}'') ?w0 =
      Some (None, \<lparr> wn_Done = checked_calls ''t'' @ [(KReplace ''t'' ''r'', True)], wn_Now = 0 \<rparr>)"
    by (subst replace_auth_file_cas_windows.simps)
      (simp add: ctx_err_def replace_auth_file_cas_once_def utf16_ptr_def try_call_def ask_kernel_def willing_kernel_def after_lock_def
        compare_locked_def replace_or_move_def maxAuthFileWriteBytes_def hash_nonempty settled_def checked_calls_def Let_def)
  from windows_replacement_checked [OF run] obtain before last where
    "checked_calls ''t'' @ [(KReplace ''t'' ''r'', True)] = before @ checked_calls ''t'' @ last" "final_calls ''t'' ''r'' last" by auto
  then have "final_calls ''t'' ''r'' [(KReplace ''t'' ''r'', True)]" by (simp add: final_calls_def)
  with run show ?thesis by auto
qed

lemma windows_replacement_returns_witness:
  "replace_auth_file_cas_windows busy_kernel \<lparr> cx_CancelledAt = None, cx_Deadline = Some 100000000 \<rparr> ''t'' ''r'' ''h'' \<lparr> wn_Done = [], wn_Now = 0 \<rparr> \<noteq> None"
  by (rule windows_replacement_returns [of _ 100000000]) (simp add: ctx_end_def earlier_def)

end
